(* ===== verification/Aslc_Prelude.thy ===== *)
theory Aslc_Prelude
  imports Main "HOL-Library.Word" "HOL-Library.Sublist"
begin

text \<open>
  Shared vocabulary of the development: the machine integers of the C++ sources as words, the
  failures a C++ operation can end in, results as a sum of failure and value, the bit idioms
  \<open>1U << i\<close>, \<open>|=\<close>, \<open>&=\<close>, \<open>^=\<close> on \<open>uint8_t\<close>, pointer accesses with their range written out,
  and the decimal and hexadecimal numerals of \<open>std::to_string\<close> and \<open>std::ostream\<close>.
\<close>

unbundle bit_operations_syntax

named_theorems byte_bits "bit-level facts about the compound assignments on bytes"
named_theorems valid_intros "operations keep the validity invariants"

section \<open>Machine integers and failures\<close>

type_synonym u8 = "8 word"
type_synonym u32 = "32 word"
type_synonym u64 = "64 word"
type_synonym size_t = "64 word"

text \<open>
  The exceptions the code throws, each with its message, and undefined behaviour: an access of
  a C++ array outside its extent is no exception but is kept apart from every proper result.
\<close>

datatype failure =
    Out_of_range string
  | Invalid_argument string
  | Logic_parse_error string
  | Undefined_behaviour

type_synonym 'a result = "failure + 'a"

definition res_bind :: "'e + 'a \<Rightarrow> ('a \<Rightarrow> 'e + 'b) \<Rightarrow> 'e + 'b" where
  "res_bind r f = (case r of Inl e \<Rightarrow> Inl e | Inr x \<Rightarrow> f x)"

lemma res_bind_simps [simp]:
  "res_bind (Inl e) f = Inl e"
  "res_bind (Inr x) f = f x"
  by (simp_all add: res_bind_def)

lemma res_bind_cong [fundef_cong]:
  "r = r' \<Longrightarrow> (\<And>x. r' = Inr x \<Longrightarrow> f x = g x) \<Longrightarrow> res_bind r f = res_bind r' g"
  by (cases r') simp_all

lemma res_bind_Inr: "res_bind r f = Inr y \<longleftrightarrow> (\<exists>x. r = Inr x \<and> f x = Inr y)"
  by (cases r) simp_all

lemma res_bind_Inl: "res_bind r f = Inl e \<longleftrightarrow> r = Inl e \<or> (\<exists>x. r = Inr x \<and> f x = Inl e)"
  by (cases r) auto

lemma map_Inr_inject: "map Inr xs = map Inr ys \<longleftrightarrow> xs = ys"
  by (simp add: inj_map_eq_map)

lemmas res_bind_iff = res_bind_Inr res_bind_Inl

text \<open>Sizes that fit: \<open>size()\<close> of a container read back from its 64-bit word.\<close>

lemma size_t_of_nat: "n < 2 ^ 64 \<Longrightarrow> unat (word_of_nat n :: size_t) = n"
  by (simp add: unsigned_of_nat take_bit_nat_eq_self)

lemma unat_size_max: "unat (- 1 :: size_t) = 2 ^ 64 - 1"
  by (simp add: unsigned_minus_1_eq_mask mask_eq_exp_minus_1)

lemma unat_inject: "unat (a :: 'a::len word) = unat b \<longleftrightarrow> a = b"
  by (auto intro: unsigned_word_eqI)

lemma unat_size_t_wrap:
  "2 ^ 64 \<le> unat a + unat b \<Longrightarrow> unat (a + b :: size_t) = unat a + unat b - 2 ^ 64"
  using unsigned_less [of a, where ?'a = nat] unsigned_less [of b, where ?'a = nat]
  by (simp add: unat_word_ariths le_mod_geq)

section \<open>Bits of a byte\<close>

text \<open>\<open>1U << i\<close>: an \<open>unsigned int\<close> with one bit set.\<close>

definition bit_mask :: "u8 \<Rightarrow> u32" where
  "bit_mask i = push_bit (unat i) 1"

text \<open>
  \<open>b & m\<close>, and the compound assignments of an \<open>unsigned int\<close> to a \<open>uint8_t\<close>: the byte is promoted,
  combined at 32 bits and truncated again.
\<close>

definition u8_and :: "u8 \<Rightarrow> u32 \<Rightarrow> u32" where
  "u8_and b m = (ucast b AND m)"

definition u8_or_assign :: "u8 \<Rightarrow> u32 \<Rightarrow> u8" where
  "u8_or_assign b m = ucast (ucast b OR m)"

definition u8_and_assign :: "u8 \<Rightarrow> u32 \<Rightarrow> u8" where
  "u8_and_assign b m = ucast (ucast b AND m)"

definition u8_xor_assign :: "u8 \<Rightarrow> u32 \<Rightarrow> u8" where
  "u8_xor_assign b m = ucast (ucast b XOR m)"

lemma bit_bit_mask: "bit (bit_mask i) n \<longleftrightarrow> n = unat i \<and> n < 32"
  unfolding bit_mask_def bit_push_bit_iff bit_1_iff by auto

lemma bit_u8_or_assign [byte_bits]:
  "i \<le> 7 \<Longrightarrow> bit (u8_or_assign b (bit_mask i)) n \<longleftrightarrow> n = unat i \<or> bit b n"
  by (auto simp: u8_or_assign_def bit_ucast_iff bit_or_iff bit_bit_mask word_le_nat_alt
      dest: bit_imp_le_length)

lemma bit_u8_and_not_assign [byte_bits]:
  "i \<le> 7 \<Longrightarrow> bit (u8_and_assign b (NOT (bit_mask i))) n \<longleftrightarrow> n \<noteq> unat i \<and> bit b n"
  by (auto simp: u8_and_assign_def bit_ucast_iff bit_and_iff bit_not_iff bit_bit_mask
      word_le_nat_alt dest: bit_imp_le_length)

lemma bit_u8_xor_assign [byte_bits]:
  "i \<le> 7 \<Longrightarrow> bit (u8_xor_assign b (bit_mask i)) n \<longleftrightarrow> (n = unat i) \<noteq> bit b n"
  by (auto simp: u8_xor_assign_def bit_ucast_iff bit_xor_iff bit_bit_mask word_le_nat_alt
      dest: bit_imp_le_length)

lemma u8_and_mask_nonzero [byte_bits]:
  assumes "i \<le> 7"
  shows "u8_and b (bit_mask i) \<noteq> 0 \<longleftrightarrow> bit b (unat i)"
proof -
  have "bit (u8_and b (bit_mask i)) n \<longleftrightarrow> n = unat i \<and> bit b (unat i)" for n
    using assms
    by (auto simp: u8_and_def bit_and_iff bit_ucast_iff bit_bit_mask word_le_nat_alt
        dest: bit_imp_le_length)
  then have eq: "bit (u8_and b (bit_mask i)) = (\<lambda>n. n = unat i \<and> bit b (unat i))"
    by (rule ext)
  have "u8_and b (bit_mask i) = 0 \<longleftrightarrow> \<not> bit b (unat i)"
    unfolding bit_eq_iff [of "u8_and b (bit_mask i)" 0] eq
    using bit_imp_le_length [of b "unat i"] by auto
  then show ?thesis by blast
qed

lemma u8_eq_by_bits:
  fixes b c :: u8
  assumes "\<And>n. n < 8 \<Longrightarrow> bit b n = bit c n"
  shows "b = c"
  using assms by (intro bit_word_eqI) simp

section \<open>Pointer accesses\<close>

text \<open>
  \<open>p[i]\<close> on an array is the \<open>i\<close>-th element inside the extent and undefined behaviour
  outside it; a range \<open>p + off .. p + off + cnt\<close> has to lie inside the extent as a whole.
\<close>

definition ptr_read :: "'a list \<Rightarrow> nat \<Rightarrow> 'a result" where
  "ptr_read xs i = (if i < length xs then Inr (xs ! i) else Inl Undefined_behaviour)"

definition ptr_write :: "'a list \<Rightarrow> nat \<Rightarrow> 'a \<Rightarrow> 'a list result" where
  "ptr_write xs i v = (if i < length xs then Inr (xs[i := v]) else Inl Undefined_behaviour)"

definition ptr_read_range :: "'a list \<Rightarrow> nat \<Rightarrow> nat \<Rightarrow> 'a list result" where
  "ptr_read_range xs off cnt =
     (if off + cnt \<le> length xs then Inr (take cnt (drop off xs)) else Inl Undefined_behaviour)"

definition ptr_copy :: "'a list \<Rightarrow> nat \<Rightarrow> 'a list \<Rightarrow> 'a list result" where
  "ptr_copy xs off ys =
     (if off + length ys \<le> length xs
      then Inr (take off xs @ ys @ drop (off + length ys) xs) else Inl Undefined_behaviour)"

lemma ptr_in_range [simp]:
  "i < length xs \<Longrightarrow> ptr_read xs i = Inr (xs ! i)"
  "i < length xs \<Longrightarrow> ptr_write xs i v = Inr (xs[i := v])"
  "off + cnt \<le> length xs \<Longrightarrow> ptr_read_range xs off cnt = Inr (take cnt (drop off xs))"
  "off + length ys \<le> length xs
    \<Longrightarrow> ptr_copy xs off ys = Inr (take off xs @ ys @ drop (off + length ys) xs)"
  by (simp_all add: ptr_read_def ptr_write_def ptr_read_range_def ptr_copy_def)

lemma ptr_out_of_range:
  "length xs \<le> i \<Longrightarrow> ptr_read xs i = Inl Undefined_behaviour"
  "length xs \<le> i \<Longrightarrow> ptr_write xs i v = Inl Undefined_behaviour"
  "length xs < off + cnt \<Longrightarrow> ptr_read_range xs off cnt = Inl Undefined_behaviour"
  "length xs < off + length ys \<Longrightarrow> ptr_copy xs off ys = Inl Undefined_behaviour"
  by (simp_all add: ptr_read_def ptr_write_def ptr_read_range_def ptr_copy_def)

lemma nth_overwrite:
  "off + length ys \<le> length xs \<Longrightarrow> i < length xs \<Longrightarrow>
   (take off xs @ ys @ drop (off + length ys) xs) ! i =
     (if off \<le> i \<and> i < off + length ys then ys ! (i - off) else xs ! i)"
  by (auto simp: nth_append)

section \<open>Numerals and quotes\<close>

definition single_quoted :: "string \<Rightarrow> string" where
  "single_quoted s = CHR 0x27 # s @ [CHR 0x27]"

definition double_quoted :: "string \<Rightarrow> string" where
  "double_quoted s = CHR 0x22 # s @ [CHR 0x22]"

definition digit_char :: "nat \<Rightarrow> char" where
  "digit_char d = ''0123456789abcdef'' ! d"

text \<open>Digits of a number to a base from 2 to 16, without leading zeros.\<close>

fun to_base :: "nat \<Rightarrow> nat \<Rightarrow> string" where
  "to_base b n =
     (if b < 2 \<or> n < b then [digit_char n] else to_base b (n div b) @ [digit_char (n mod b)])"

declare to_base.simps [simp del]

definition dec_string :: "nat \<Rightarrow> string" where
  "dec_string n = to_base 10 n"

definition hex_string :: "nat \<Rightarrow> string" where
  "hex_string n = to_base 16 n"

definition dec_string_int :: "int \<Rightarrow> string" where
  "dec_string_int k = (if k < 0 then ''-'' @ dec_string (nat (- k)) else dec_string (nat k))"

definition digit_val :: "char \<Rightarrow> nat" where
  "digit_val c = length (takeWhile (\<lambda>x. x \<noteq> c) ''0123456789abcdef'')"

definition from_base :: "nat \<Rightarrow> string \<Rightarrow> nat" where
  "from_base b s = foldl (\<lambda>v c. b * v + digit_val c) 0 s"

lemma less_16_cases:
  "(d::nat) < 16 \<Longrightarrow> d = 0 \<or> d = 1 \<or> d = 2 \<or> d = 3 \<or> d = 4 \<or> d = 5 \<or> d = 6 \<or> d = 7 \<or> d = 8
     \<or> d = 9 \<or> d = 10 \<or> d = 11 \<or> d = 12 \<or> d = 13 \<or> d = 14 \<or> d = 15"
  by arith

lemma digit_val_char: "d < 16 \<Longrightarrow> digit_val (digit_char d) = d"
  by (drule less_16_cases) (elim disjE; simp add: digit_val_def digit_char_def)

lemma from_base_to_base: "2 \<le> b \<Longrightarrow> b \<le> 16 \<Longrightarrow> from_base b (to_base b n) = n"
proof (induction b n rule: to_base.induct)
  case (1 b n)
  show ?case
  proof (cases "n < b")
    case True
    with 1 show ?thesis by (simp add: to_base.simps [of b n] from_base_def digit_val_char)
  next
    case False
    with 1 have "from_base b (to_base b (n div b)) = n div b" by simp
    moreover have "n mod b < 16" using 1(2,3) by (intro less_le_trans [OF mod_less_divisor]) auto
    ultimately show ?thesis
      using False 1(2) by (simp add: to_base.simps [of b n] from_base_def digit_val_char)
  qed
qed

lemma dec_string_inject [simp]: "dec_string m = dec_string n \<longleftrightarrow> m = n"
proof
  assume "dec_string m = dec_string n"
  then have "from_base 10 (to_base 10 m) = from_base 10 (to_base 10 n)"
    by (simp add: dec_string_def)
  then show "m = n" by (simp add: from_base_to_base)
qed simp

end
