(* ===== verification/Process_Image.thy ===== *)
theory Process_Image
  imports Aslc_Prelude
begin

text \<open>
  The contract between the process image and the code that runs on it. The scan logic reads and
  writes single bits; it relies on this: inside the image's range a read returns the bit that is
  there, and a write changes that bit and no other and keeps the image well formed. The bits are
  seen through an abstraction function \<open>view\<close>.
\<close>

text \<open>A run of bit writes that stops at the first failure.\<close>

fun put_seq :: "('m \<Rightarrow> 'r \<Rightarrow> bool \<Rightarrow> 'e + 'm) \<Rightarrow> 'm \<Rightarrow> ('r \<times> bool) list \<Rightarrow> 'e + 'm" where
  "put_seq put m [] = Inr m"
| "put_seq put m (w # ws) = res_bind (put m (fst w) (snd w)) (\<lambda>m'. put_seq put m' ws)"

text \<open>The value the last write of a run leaves, on top of what was there.\<close>

definition last_write :: "('r \<times> bool) list \<Rightarrow> ('r \<Rightarrow> bool) \<Rightarrow> 'r \<Rightarrow> bool" where
  "last_write ws v r = (case map_of (rev ws) r of None \<Rightarrow> v r | Some b \<Rightarrow> b)"

lemma last_write_Nil [simp]: "last_write [] v = v"
  by (rule ext) (simp add: last_write_def)

lemma last_write_Cons: "last_write ((r, b) # ws) v = last_write ws (v(r := b))"
  by (rule ext) (simp add: last_write_def map_add_def split: option.splits)

lemma last_write_cong: "v r = v' r \<Longrightarrow> last_write ws v r = last_write ws v' r"
  by (simp add: last_write_def split: option.split)

lemma last_write_other: "r \<notin> fst ` set ws \<Longrightarrow> last_write ws v r = v r"
  by (simp add: last_write_def map_of_eq_None_iff [THEN iffD2])

locale process_image =
  fixes valid :: "'m \<Rightarrow> bool"
    and in_range :: "'r \<Rightarrow> bool"
    and get :: "'m \<Rightarrow> 'r \<Rightarrow> 'e + bool"
    and put :: "'m \<Rightarrow> 'r \<Rightarrow> bool \<Rightarrow> 'e + 'm"
    and view :: "'m \<Rightarrow> 'r \<Rightarrow> bool"
  assumes get_view: "valid m \<Longrightarrow> in_range r \<Longrightarrow> get m r = Inr (view m r)"
    and put_total: "valid m \<Longrightarrow> in_range r \<Longrightarrow> \<exists>m'. put m r b = Inr m'"
    and put_valid: "valid m \<Longrightarrow> put m r b = Inr m' \<Longrightarrow> valid m'"
    and put_view: "valid m \<Longrightarrow> in_range r \<Longrightarrow> put m r b = Inr m' \<Longrightarrow> in_range r'
      \<Longrightarrow> view m' r' = (if r' = r then b else view m r')"
begin

lemma get_after_put:
  assumes "valid m" and "in_range r" and "in_range r'"
  shows "\<exists>m'. put m r b = Inr m' \<and> valid m' \<and> get m' r' = (if r' = r then Inr b else get m r')"
proof -
  from put_total [OF assms(1,2)] obtain m' where m': "put m r b = Inr m'" by blast
  have "valid m'" by (rule put_valid [OF assms(1) m'])
  with m' assms show ?thesis by (simp add: get_view put_view)
qed

lemma put_seq_total:
  "valid m \<Longrightarrow> (\<And>r. r \<in> fst ` set ws \<Longrightarrow> in_range r) \<Longrightarrow> \<exists>m'. put_seq put m ws = Inr m' \<and> valid m'"
proof (induction ws arbitrary: m)
  case Nil
  then show ?case by simp
next
  case (Cons w ws)
  from Cons.prems put_total [of m "fst w" "snd w"] obtain m1 where m1: "put m (fst w) (snd w) = Inr m1"
    by auto
  from Cons.prems(1) m1 have "valid m1" by (rule put_valid)
  from Cons.IH [OF this] Cons.prems(2) m1 show ?case by simp
qed

lemma put_seq_view:
  "valid m \<Longrightarrow> (\<And>r. r \<in> fst ` set ws \<Longrightarrow> in_range r) \<Longrightarrow> put_seq put m ws = Inr m' \<Longrightarrow> in_range r
    \<Longrightarrow> view m' r = last_write ws (view m) r"
proof (induction ws arbitrary: m)
  case Nil
  then show ?case by simp
next
  case (Cons w ws)
  obtain q b where w: "w = (q, b)" by (cases w)
  from Cons.prems(3) w obtain m1 where m1: "put m q b = Inr m1" and rest: "put_seq put m1 ws = Inr m'"
    by (auto simp: res_bind_iff)
  have q: "in_range q" using Cons.prems(2) w by simp
  have "valid m1" using Cons.prems(1) m1 by (rule put_valid)
  from Cons.IH [OF this _ rest Cons.prems(4)] Cons.prems(2)
  have "view m' r = last_write ws (view m1) r" by simp
  also have "\<dots> = last_write ws ((view m)(q := b)) r"
    by (rule last_write_cong) (use put_view [OF Cons.prems(1) q m1 Cons.prems(4)] in simp)
  finally show ?case by (simp add: w last_write_Cons)
qed

lemma put_seq_frame:
  assumes "valid m" and "\<And>r. r \<in> fst ` set ws \<Longrightarrow> in_range r" and "put_seq put m ws = Inr m'"
    and "in_range r" and "r \<notin> fst ` set ws"
  shows "view m' r = view m r"
proof -
  have "view m' r = last_write ws (view m) r"
    using assms(1-4) by (rule put_seq_view)
  with assms(5) show ?thesis by (simp add: last_write_other)
qed

end

end
