(* ===== verification/Memory_Map.thy ===== *)
theory Memory_Map
  imports Process_Image
begin

text \<open>
  The process image of \<open>memory_map.hpp\<close> and \<open>memory_map.cpp\<close>: three fixed byte arrays
  (\<open>%I\<close>, \<open>%Q\<close>, \<open>%M\<close>) with byte, bit, bulk and snapshot accesses. Offsets and counts are 64-bit
  words, so the sum in \<open>validate_bounds\<close> wraps as in C++. Every operation of the class holds the
  reader-writer lock while it touches the arrays, so it is one atomic step here.
\<close>

section \<open>State and operations\<close>

datatype memory_area = Input | Output | Memory

record memory_map =
  input_bytes :: "u8 list"
  output_bytes :: "u8 list"
  memory_bytes :: "u8 list"

definition INPUT_SIZE :: size_t where "INPUT_SIZE = 512"
definition OUTPUT_SIZE :: size_t where "OUTPUT_SIZE = 512"
definition MEMORY_SIZE :: size_t where "MEMORY_SIZE = 1024"

definition new_memory_map :: memory_map where
  "new_memory_map =
     \<lparr>input_bytes = replicate (unat INPUT_SIZE) 0, output_bytes = replicate (unat OUTPUT_SIZE) 0,
      memory_bytes = replicate (unat MEMORY_SIZE) 0\<rparr>"

fun get_size :: "memory_area \<Rightarrow> size_t" where
  "get_size Input = INPUT_SIZE"
| "get_size Output = OUTPUT_SIZE"
| "get_size Memory = MEMORY_SIZE"

text \<open>
  \<open>get_area_ptr\<close> as the array it points to: the overload on a const map reads it, the other one
  is written through, which gives the map with that array replaced.
\<close>

fun get_area :: "memory_map \<Rightarrow> memory_area \<Rightarrow> u8 list" where
  "get_area m Input = input_bytes m"
| "get_area m Output = output_bytes m"
| "get_area m Memory = memory_bytes m"

fun put_area :: "memory_map \<Rightarrow> memory_area \<Rightarrow> u8 list \<Rightarrow> memory_map" where
  "put_area m Input xs = m\<lparr>input_bytes := xs\<rparr>"
| "put_area m Output xs = m\<lparr>output_bytes := xs\<rparr>"
| "put_area m Memory xs = m\<lparr>memory_bytes := xs\<rparr>"

definition validate_bounds :: "memory_area \<Rightarrow> size_t \<Rightarrow> size_t \<Rightarrow> unit result" where
  "validate_bounds area offset count =
     (let max_size = get_size area in
      if offset + count > max_size then Inl (Out_of_range ''MemoryMap access out of bounds'')
      else Inr ())"

definition read_byte :: "memory_map \<Rightarrow> memory_area \<Rightarrow> size_t \<Rightarrow> u8 result" where
  "read_byte m area offset =
     res_bind (validate_bounds area offset 1) (\<lambda>_. ptr_read (get_area m area) (unat offset))"

definition write_byte :: "memory_map \<Rightarrow> memory_area \<Rightarrow> size_t \<Rightarrow> u8 \<Rightarrow> memory_map result" where
  "write_byte m area offset v =
     res_bind (validate_bounds area offset 1) (\<lambda>_.
     res_bind (ptr_write (get_area m area) (unat offset) v) (\<lambda>xs. Inr (put_area m area xs)))"

definition read_bit :: "memory_map \<Rightarrow> memory_area \<Rightarrow> size_t \<Rightarrow> u8 \<Rightarrow> bool result" where
  "read_bit m area byte_offset bit_index =
     (if bit_index > 7 then Inl (Invalid_argument ''Bit index must be 0..7'')
      else res_bind (read_byte m area byte_offset) (\<lambda>byte_val.
        Inr (u8_and byte_val (bit_mask bit_index) \<noteq> 0)))"

definition write_bit ::
  "memory_map \<Rightarrow> memory_area \<Rightarrow> size_t \<Rightarrow> u8 \<Rightarrow> bool \<Rightarrow> memory_map result" where
  "write_bit m area byte_offset bit_index v =
     (if bit_index > 7 then Inl (Invalid_argument ''Bit index must be 0..7'')
      else res_bind (validate_bounds area byte_offset 1) (\<lambda>_.
        let xs = get_area m area in
        res_bind (ptr_read xs (unat byte_offset)) (\<lambda>b.
        res_bind (ptr_write xs (unat byte_offset)
            (if v then u8_or_assign b (bit_mask bit_index)
             else u8_and_assign b (NOT (bit_mask bit_index)))) (\<lambda>xs'.
        Inr (put_area m area xs')))))"

definition read_bytes :: "memory_map \<Rightarrow> memory_area \<Rightarrow> size_t \<Rightarrow> size_t \<Rightarrow> u8 list result" where
  "read_bytes m area offset count =
     res_bind (validate_bounds area offset count) (\<lambda>_.
       ptr_read_range (get_area m area) (unat offset) (unat count))"

definition write_bytes ::
  "memory_map \<Rightarrow> memory_area \<Rightarrow> size_t \<Rightarrow> u8 list \<Rightarrow> memory_map result" where
  "write_bytes m area offset data =
     res_bind (validate_bounds area offset (word_of_nat (length data))) (\<lambda>_.
     res_bind (ptr_copy (get_area m area) (unat offset) data) (\<lambda>xs. Inr (put_area m area xs)))"

definition get_area_snapshot :: "memory_map \<Rightarrow> memory_area \<Rightarrow> u8 list result" where
  "get_area_snapshot m area = ptr_read_range (get_area m area) 0 (unat (get_size area))"

definition copy_snapshot_to ::
  "memory_map \<Rightarrow> memory_area \<Rightarrow> u8 list \<Rightarrow> memory_map result" where
  "copy_snapshot_to m area snapshot =
     res_bind (validate_bounds area 0 (word_of_nat (length snapshot))) (\<lambda>_.
     res_bind (ptr_copy (get_area m area) 0 snapshot) (\<lambda>xs. Inr (put_area m area xs)))"

section \<open>The class invariant\<close>

text \<open>The arrays have their declared extents.\<close>

definition valid_memory :: "memory_map \<Rightarrow> bool" where
  "valid_memory m \<longleftrightarrow>
     length (input_bytes m) = 512 \<and> length (output_bytes m) = 512 \<and> length (memory_bytes m) = 1024"

abbreviation area_bytes :: "memory_area \<Rightarrow> nat" where
  "area_bytes area \<equiv> unat (get_size area)"

lemmas area_sizes = INPUT_SIZE_def OUTPUT_SIZE_def MEMORY_SIZE_def

lemma area_bytes_simps [simp]:
  "unat INPUT_SIZE = 512" "unat OUTPUT_SIZE = 512" "unat MEMORY_SIZE = 1024"
  by (simp_all add: area_sizes)

lemma area_bytes_le: "area_bytes area \<le> 1024"
  by (cases area) (simp_all add: area_sizes)

lemma valid_memory_areas: "valid_memory m \<longleftrightarrow> (\<forall>area. length (get_area m area) = area_bytes area)"
proof
  assume "valid_memory m"
  then have "length (get_area m area) = area_bytes area" for area
    by (cases area) (simp_all add: valid_memory_def area_sizes)
  then show "\<forall>area. length (get_area m area) = area_bytes area" by blast
next
  assume all: "\<forall>area. length (get_area m area) = area_bytes area"
  show "valid_memory m"
    using all [rule_format, of Input] all [rule_format, of Output] all [rule_format, of Memory]
    by (simp add: valid_memory_def area_sizes)
qed

lemma length_get_area [simp]: "valid_memory m \<Longrightarrow> length (get_area m area) = area_bytes area"
  by (simp add: valid_memory_areas)

lemma get_put_area [simp]: "get_area (put_area m a xs) a' = (if a = a' then xs else get_area m a')"
  by (cases a; cases a') simp_all

lemma put_get_area [simp]: "put_area m a (get_area m a) = m"
  by (cases a) simp_all

lemma put_put_area [simp]: "put_area (put_area m a xs) a ys = put_area m a ys"
  by (cases a) simp_all

lemma memory_map_eqI: "(\<And>a. get_area m a = get_area m' a) \<Longrightarrow> m = m'"
  by (metis (full_types) get_area.simps memory_map.equality old.unit.exhaust)

lemma get_area_new [simp]: "get_area new_memory_map a = replicate (area_bytes a) 0"
  by (cases a) (simp_all add: new_memory_map_def)

text \<open>From here on the map is handled through \<open>get_area\<close> and \<open>put_area\<close> alone.\<close>

lemmas area_access = get_area.simps put_area.simps

lemma valid_new_memory_map [valid_intros]: "valid_memory new_memory_map"
  by (simp add: valid_memory_def new_memory_map_def area_sizes)

lemma valid_put_area [valid_intros]:
  "valid_memory m \<Longrightarrow> length xs = area_bytes a \<Longrightarrow> valid_memory (put_area m a xs)"
  by (simp add: valid_memory_areas)

declare area_access [simp del]

section \<open>What the bounds check admits\<close>

text \<open>
  The guard compares the wrapped sum. It is the intended guard exactly while offset plus count
  stays below \<open>2 ^ 64\<close>.
\<close>

lemma validate_bounds_no_wrap:
  assumes "unat off + unat cnt < 2 ^ 64"
  shows "validate_bounds a off cnt =
    (if unat off + unat cnt \<le> area_bytes a then Inr ()
     else Inl (Out_of_range ''MemoryMap access out of bounds''))"
proof -
  have "unat (off + cnt) = unat off + unat cnt"
    using assms unat_add_lem [of off cnt] by simp
  then show ?thesis by (simp add: validate_bounds_def word_less_nat_alt)
qed

lemma validate_bounds_one:
  "validate_bounds a off 1 =
    (if off = - 1 \<or> unat off < area_bytes a then Inr ()
     else Inl (Out_of_range ''MemoryMap access out of bounds''))"
proof (cases "off = - 1")
  case True
  then show ?thesis by (simp add: validate_bounds_def)
next
  case False
  have "unat off \<noteq> unat (- 1 :: size_t)"
    using False unsigned_word_eqI by blast
  moreover have "unat (- 1 :: size_t) = 2 ^ 64 - 1"
    by (rule unat_size_max)
  ultimately have "unat off + unat (1 :: size_t) < 2 ^ 64"
    using unsigned_less [of off, where ?'a = nat] by simp
  from validate_bounds_no_wrap [OF this, of a] False show ?thesis
    by (auto simp: Suc_le_eq)
qed

lemma size_max_out_of_extent:
  "valid_memory m \<Longrightarrow> length (get_area m a) \<le> unat (- 1 :: size_t)"
  using area_bytes_le [of a] by (simp add: unat_size_max)

lemma read_byte_cases:
  assumes "valid_memory m"
  shows "read_byte m a off =
    (if off = - 1 then Inl Undefined_behaviour
     else if unat off < area_bytes a then Inr (get_area m a ! unat off)
     else Inl (Out_of_range ''MemoryMap access out of bounds''))"
  using assms size_max_out_of_extent [OF assms, of a]
  by (auto simp: read_byte_def validate_bounds_one ptr_out_of_range)

lemma write_byte_cases:
  assumes "valid_memory m"
  shows "write_byte m a off v =
    (if off = - 1 then Inl Undefined_behaviour
     else if unat off < area_bytes a then Inr (put_area m a ((get_area m a)[unat off := v]))
     else Inl (Out_of_range ''MemoryMap access out of bounds''))"
  using assms size_max_out_of_extent [OF assms, of a]
  by (auto simp: write_byte_def validate_bounds_one ptr_out_of_range)

definition assign_bit :: "u8 \<Rightarrow> u8 \<Rightarrow> bool \<Rightarrow> u8" where
  "assign_bit b i v =
     (if v then u8_or_assign b (bit_mask i) else u8_and_assign b (NOT (bit_mask i)))"

lemma bit_assign_bit [byte_bits]:
  "i \<le> 7 \<Longrightarrow> bit (assign_bit b i v) n \<longleftrightarrow> (if n = unat i then v else bit b n)"
  by (simp add: assign_bit_def byte_bits)

lemma read_bit_cases:
  assumes "valid_memory m"
  shows "read_bit m a off i =
    (if i > 7 then Inl (Invalid_argument ''Bit index must be 0..7'')
     else if off = - 1 then Inl Undefined_behaviour
     else if unat off < area_bytes a then Inr (bit (get_area m a ! unat off) (unat i))
     else Inl (Out_of_range ''MemoryMap access out of bounds''))"
  using assms by (simp add: read_bit_def read_byte_cases byte_bits)

lemma write_bit_cases:
  assumes "valid_memory m"
  shows "write_bit m a off i v =
    (if i > 7 then Inl (Invalid_argument ''Bit index must be 0..7'')
     else if off = - 1 then Inl Undefined_behaviour
     else if unat off < area_bytes a
       then Inr (put_area m a ((get_area m a)[unat off := assign_bit (get_area m a ! unat off) i v]))
     else Inl (Out_of_range ''MemoryMap access out of bounds''))"
  using assms size_max_out_of_extent [OF assms, of a]
  by (auto simp: write_bit_def Let_def validate_bounds_one ptr_out_of_range assign_bit_def)

lemma read_bytes_no_wrap:
  assumes "valid_memory m" and "unat off + unat cnt < 2 ^ 64"
  shows "read_bytes m a off cnt =
    (if unat off + unat cnt \<le> area_bytes a then Inr (take (unat cnt) (drop (unat off) (get_area m a)))
     else Inl (Out_of_range ''MemoryMap access out of bounds''))"
  using assms by (simp add: read_bytes_def validate_bounds_no_wrap)

lemma write_bytes_no_wrap:
  assumes "valid_memory m" and "unat off + length data < 2 ^ 64"
  shows "write_bytes m a off data =
    (if unat off + length data \<le> area_bytes a
     then Inr (put_area m a (take (unat off) (get_area m a) @ data
                              @ drop (unat off + length data) (get_area m a)))
     else Inl (Out_of_range ''MemoryMap access out of bounds''))"
proof -
  have "unat (word_of_nat (length data) :: size_t) = length data"
    using assms(2) by (simp add: size_t_of_nat)
  then show ?thesis
    using assms by (simp add: write_bytes_def validate_bounds_no_wrap)
qed

lemma get_area_snapshot_valid [simp]:
  "valid_memory m \<Longrightarrow> get_area_snapshot m a = Inr (get_area m a)"
  by (simp add: get_area_snapshot_def)

lemma copy_snapshot_to_cases:
  assumes "valid_memory m" and "length s < 2 ^ 64"
  shows "copy_snapshot_to m a s =
    (if length s \<le> area_bytes a then Inr (put_area m a (s @ drop (length s) (get_area m a)))
     else Inl (Out_of_range ''MemoryMap access out of bounds''))"
  using write_bytes_no_wrap [OF assms(1), of 0 s a] assms(2)
  by (simp add: write_bytes_def copy_snapshot_to_def)

section \<open>Every operation keeps the invariant\<close>

lemma write_byte_valid [valid_intros]:
  "valid_memory m \<Longrightarrow> write_byte m a off v = Inr m' \<Longrightarrow> valid_memory m'"
  by (auto simp: write_byte_cases valid_put_area split: if_splits)

lemma write_bit_valid [valid_intros]:
  "valid_memory m \<Longrightarrow> write_bit m a off i v = Inr m' \<Longrightarrow> valid_memory m'"
  by (auto simp: write_bit_cases valid_put_area split: if_splits)

lemma ptr_copy_length: "ptr_copy xs off ys = Inr zs \<Longrightarrow> length zs = length xs"
  by (auto simp: ptr_copy_def split: if_splits)

lemma write_bytes_valid [valid_intros]:
  "valid_memory m \<Longrightarrow> write_bytes m a off data = Inr m' \<Longrightarrow> valid_memory m'"
  by (auto simp: write_bytes_def res_bind_iff intro!: valid_put_area dest!: ptr_copy_length)

lemma copy_snapshot_to_valid [valid_intros]:
  "valid_memory m \<Longrightarrow> copy_snapshot_to m a s = Inr m' \<Longrightarrow> valid_memory m'"
  by (auto simp: copy_snapshot_to_def res_bind_iff intro!: valid_put_area dest!: ptr_copy_length)

section \<open>The map as a process image\<close>

text \<open>A bit address \<open>%A[byte].bit\<close>, the addresses inside the map, and the bit it holds.\<close>

type_synonym bit_addr = "memory_area \<times> size_t \<times> u8"

fun bit_in_range :: "bit_addr \<Rightarrow> bool" where
  "bit_in_range (a, off, i) \<longleftrightarrow> unat off < area_bytes a \<and> i \<le> 7"

fun bit_view :: "memory_map \<Rightarrow> bit_addr \<Rightarrow> bool" where
  "bit_view m (a, off, i) = bit (get_area m a ! unat off) (unat i)"

fun get_bit_at :: "memory_map \<Rightarrow> bit_addr \<Rightarrow> bool result" where
  "get_bit_at m (a, off, i) = read_bit m a off i"

fun put_bit_at :: "memory_map \<Rightarrow> bit_addr \<Rightarrow> bool \<Rightarrow> memory_map result" where
  "put_bit_at m (a, off, i) v = write_bit m a off i v"

lemma in_extent_not_size_max: "unat off < area_bytes a \<Longrightarrow> off \<noteq> (- 1 :: size_t)"
  using area_bytes_le [of a] by (auto simp: unat_size_max)

lemma read_bit_in_range:
  "valid_memory m \<Longrightarrow> bit_in_range (a, off, i) \<Longrightarrow> read_bit m a off i = Inr (bit_view m (a, off, i))"
  using in_extent_not_size_max [of off a] by (auto simp: read_bit_cases)

lemma read_bit_new [simp]:
  "unat off < area_bytes a \<Longrightarrow> i \<le> 7 \<Longrightarrow> read_bit new_memory_map a off i = Inr False"
  using read_bit_in_range [OF valid_new_memory_map, of a off i] by simp

lemma write_bit_in_range:
  "valid_memory m \<Longrightarrow> bit_in_range (a, off, i) \<Longrightarrow> write_bit m a off i v =
    Inr (put_area m a ((get_area m a)[unat off := assign_bit (get_area m a ! unat off) i v]))"
  using in_extent_not_size_max [of off a] by (auto simp: write_bit_cases)

lemma write_bit_view:
  assumes "valid_memory m" and "bit_in_range (a, off, i)" and "write_bit m a off i v = Inr m'"
    and "bit_in_range (a', off', i')"
  shows "bit_view m' (a', off', i') =
    (if (a', off', i') = (a, off, i) then v else bit_view m (a', off', i'))"
proof -
  have m': "m' = put_area m a ((get_area m a)[unat off := assign_bit (get_area m a ! unat off) i v])"
    using assms(3) write_bit_in_range [OF assms(1,2)] by simp
  from assms(1,2,4) show ?thesis
    unfolding m' by (auto simp: nth_list_update byte_bits unat_inject split: if_splits)
qed

interpretation mm: process_image valid_memory bit_in_range get_bit_at put_bit_at bit_view
proof
  fix m r b
  assume "valid_memory m" "bit_in_range r"
  then show "get_bit_at m r = Inr (bit_view m r)"
    by (cases r) (simp only: get_bit_at.simps read_bit_in_range)
  from \<open>valid_memory m\<close> \<open>bit_in_range r\<close> show "\<exists>m'. put_bit_at m r b = Inr m'"
    by (cases r) (simp only: put_bit_at.simps write_bit_in_range, blast)
next
  fix m r b m'
  assume "valid_memory m" "put_bit_at m r b = Inr m'"
  then show "valid_memory m'" by (cases r) (simp add: write_bit_valid)
next
  fix m r b m' r'
  assume "valid_memory m" "bit_in_range r" "put_bit_at m r b = Inr m'" "bit_in_range r'"
  then show "bit_view m' r' = (if r' = r then b else bit_view m r')"
    by (cases r; cases r') (simp only: put_bit_at.simps write_bit_view)
qed

section \<open>Properties\<close>

text \<open>
  C2. Reading a bit back after writing it gives the written value; every other bit of the three
  areas reads as before, and the arrays keep their extents. Neither access fails inside the map.
\<close>

theorem read_bit_after_write_bit:
  assumes "valid_memory m" and "unat off < area_bytes a" and "i \<le> 7"
    and "unat off' < area_bytes a'" and "i' \<le> 7"
  shows "\<exists>m'. write_bit m a off i v = Inr m' \<and> valid_memory m' \<and>
    read_bit m' a' off' i' =
      (if (a', off', i') = (a, off, i) then Inr v else read_bit m a' off' i')"
proof -
  from assms have "bit_in_range (a, off, i)" "bit_in_range (a', off', i')" by simp_all
  from mm.get_after_put [OF assms(1) this, of v] show ?thesis
    by (simp only: get_bit_at.simps put_bit_at.simps)
qed

theorem read_bit_after_write_bit_witness:
  "\<exists>m'. write_bit new_memory_map Output 3 5 True = Inr m' \<and> valid_memory m' \<and>
    read_bit m' Output 3 5 = Inr True"
  using read_bit_after_write_bit [OF valid_new_memory_map, of 3 Output 5 3 Output 5 True] by simp

text \<open>
  C30. The single-byte and single-bit accesses on a well-formed map, on every offset and bit number: a bit
  number above 7 is \<open>invalid_argument\<close> before the offset is looked at; an offset inside the area gives the
  byte or the bit there, or the map in which that byte or bit alone has changed; every other offset is
  \<open>out_of_range\<close>, except \<open>SIZE_MAX\<close>: there the sum \<open>offset + count\<close> of the check wraps to 0 and the access is
  undefined behaviour.
\<close>

theorem single_access_bounds:
  assumes "valid_memory m"
  shows "let outside = (if off = - 1 then Undefined_behaviour else Out_of_range ''MemoryMap access out of bounds'');
      no_bit = Invalid_argument ''Bit index must be 0..7''; byte = get_area m a ! unat off in
    read_byte m a off = (if unat off < area_bytes a then Inr byte else Inl outside) \<and>
    (\<exists>m'. write_byte m a off v = (if unat off < area_bytes a then Inr m' else Inl outside) \<and>
       (\<forall>a'. get_area m' a' = (if a' = a then (get_area m a)[unat off := v] else get_area m a'))) \<and>
    read_bit m a off i =
      (if i > 7 then Inl no_bit else if unat off < area_bytes a then Inr (bit byte (unat i)) else Inl outside) \<and>
    (\<exists>m' new. write_bit m a off i b =
         (if i > 7 then Inl no_bit else if unat off < area_bytes a then Inr m' else Inl outside) \<and>
       (i \<le> 7 \<longrightarrow> (\<forall>k. bit new k \<longleftrightarrow> (if k = unat i then b else bit byte k))) \<and>
       (\<forall>a'. get_area m' a' = (if a' = a then (get_area m a)[unat off := new] else get_area m a')))"
proof -
  note cases = read_byte_cases [OF assms] write_byte_cases [OF assms] read_bit_cases [OF assms] write_bit_cases [OF assms]
  have inside: "unat off < area_bytes a \<Longrightarrow> off \<noteq> - 1" by (rule in_extent_not_size_max)
  let ?new = "assign_bit (get_area m a ! unat off) i b"
  have "\<exists>m'. write_byte m a off v = (if unat off < area_bytes a then Inr m' else Inl
        (if off = - 1 then Undefined_behaviour else Out_of_range ''MemoryMap access out of bounds'')) \<and>
      (\<forall>a'. get_area m' a' = (if a' = a then (get_area m a)[unat off := v] else get_area m a'))"
    using inside by (intro exI [of _ "put_area m a ((get_area m a)[unat off := v])"]) (auto simp: cases)
  moreover have "\<exists>m' new. write_bit m a off i b =
        (if i > 7 then Inl (Invalid_argument ''Bit index must be 0..7'') else if unat off < area_bytes a then Inr m' else Inl
          (if off = - 1 then Undefined_behaviour else Out_of_range ''MemoryMap access out of bounds'')) \<and>
      (i \<le> 7 \<longrightarrow> (\<forall>k. bit new k \<longleftrightarrow> (if k = unat i then b else bit (get_area m a ! unat off) k))) \<and>
      (\<forall>a'. get_area m' a' = (if a' = a then (get_area m a)[unat off := new] else get_area m a'))"
    using inside
    by (intro exI [of _ "put_area m a ((get_area m a)[unat off := ?new])"] exI [of _ ?new])
      (auto simp: cases byte_bits)
  ultimately show ?thesis unfolding Let_def using inside by (auto simp: cases)
qed

theorem single_access_bounds_witness:
  "read_byte new_memory_map Input (- 1) = Inl Undefined_behaviour \<and>
   read_byte new_memory_map Memory 1023 = Inr 0 \<and>
   write_byte new_memory_map Memory 1024 0 = Inl (Out_of_range ''MemoryMap access out of bounds'')"
  using single_access_bounds [OF valid_new_memory_map, of "- 1" Input 0 0 False]
    single_access_bounds [OF valid_new_memory_map, of 1023 Memory 0 0 False]
    single_access_bounds [OF valid_new_memory_map, of 1024 Memory 0 0 False] area_bytes_le [of Input]
  by (simp add: unat_size_max Let_def)

text \<open>
  The bulk accesses are exact too while offset plus count stays below \<open>2 ^ 64\<close>; they run into
  undefined behaviour precisely when that sum wraps to a value the area's size admits, and in no
  other case.
\<close>

theorem bulk_access_bounds:
  assumes "valid_memory m"
  shows "read_bytes m a off cnt =
    (if unat off + unat cnt < 2 ^ 64
     then if unat off + unat cnt \<le> area_bytes a
       then Inr (take (unat cnt) (drop (unat off) (get_area m a)))
       else Inl (Out_of_range ''MemoryMap access out of bounds'')
     else if unat off + unat cnt - 2 ^ 64 \<le> area_bytes a then Inl Undefined_behaviour
       else Inl (Out_of_range ''MemoryMap access out of bounds''))"
proof (cases "unat off + unat cnt < 2 ^ 64")
  case True
  then show ?thesis using assms by (simp add: read_bytes_no_wrap)
next
  case False
  have "unat (off + cnt) = unat off + unat cnt - 2 ^ 64"
    using False unat_size_t_wrap by (simp add: not_less)
  moreover have "area_bytes a < unat off + unat cnt"
    using False area_bytes_le [of a] by simp
  ultimately show ?thesis
    using False assms
    by (auto simp: read_bytes_def validate_bounds_def word_less_nat_alt ptr_out_of_range)
qed

theorem bulk_access_bounds_witness:
  "read_bytes new_memory_map Output (- 4) 4 = Inl Undefined_behaviour"
  using bulk_access_bounds [OF valid_new_memory_map, of Output "- 4" 4] by simp

text \<open>
  A bulk write that succeeds is read back unchanged by a bulk read of the same place; all bytes
  of the area outside the written range and both other areas are as before.
\<close>

theorem read_bytes_after_write_bytes:
  assumes "valid_memory m" and "write_bytes m a off data = Inr m'"
  shows "read_bytes m' a off (word_of_nat (length data)) = Inr data \<and> valid_memory m' \<and>
    unat off + length data \<le> area_bytes a \<and>
    (\<forall>a' j. \<not> (a' = a \<and> unat off \<le> j \<and> j < unat off + length data)
       \<longrightarrow> j < area_bytes a' \<longrightarrow> get_area m' a' ! j = get_area m a' ! j)"
proof -
  have fits: "unat off + length data \<le> area_bytes a"
    using assms by (auto simp: write_bytes_def res_bind_iff ptr_copy_def split: if_splits)
  then have len: "unat (word_of_nat (length data) :: size_t) = length data"
    and small: "unat off + length data < 2 ^ 64"
    using area_bytes_le [of a] by (auto intro!: size_t_of_nat)
  have m': "m' = put_area m a (take (unat off) (get_area m a) @ data
                                @ drop (unat off + length data) (get_area m a))"
    using assms fits write_bytes_no_wrap [OF assms(1) small, of a] by simp
  have "valid_memory m'" using assms by (rule write_bytes_valid)
  moreover have "read_bytes m' a off (word_of_nat (length data)) = Inr data"
    using fits len small assms(1) \<open>valid_memory m'\<close>
    by (simp add: read_bytes_no_wrap) (simp add: m')
  moreover have "get_area m' a' ! j = get_area m a' ! j"
    if "\<not> (a' = a \<and> unat off \<le> j \<and> j < unat off + length data)" "j < area_bytes a'" for a' j
    using that fits assms(1) by (auto simp: m' nth_overwrite)
  ultimately show ?thesis using fits by blast
qed

theorem read_bytes_after_write_bytes_witness:
  "\<exists>m'. write_bytes new_memory_map Memory 100 [1, 2, 3, 4] = Inr m' \<and>
        read_bytes m' Memory 100 4 = Inr [1, 2, 3, 4]"
proof -
  obtain m' where m': "write_bytes new_memory_map Memory 100 [1, 2, 3, 4] = Inr m'"
    using write_bytes_no_wrap [OF valid_new_memory_map, of 100 "[1, 2, 3, 4]" Memory] by simp
  from read_bytes_after_write_bytes [OF valid_new_memory_map this] m' show ?thesis by simp
qed

end
