(* ===== verification/Io_Driver.thy ===== *)
theory Io_Driver
  imports Memory_Map
begin

text \<open>
  The driver interface \<open>IIODriver\<close> of \<open>io_driver.hpp\<close>: a table of the three virtual methods over
  the state of the driver object, and the contract the scan engine relies on. A driver may change
  its own state in every method; \<open>read_inputs\<close> is the only one that is given a mutable map, and
  the contract is that it fills \<open>%I\<close> and leaves the other areas alone.
\<close>

record 'd driver_ops =
  op_initialize :: "'d \<Rightarrow> bool \<times> 'd"
  op_read_inputs :: "'d \<Rightarrow> memory_map \<Rightarrow> ('d \<times> memory_map) result"
  op_write_outputs :: "'d \<Rightarrow> memory_map \<Rightarrow> 'd result"

text \<open>Two maps that differ in \<open>%I\<close> at most.\<close>

definition same_but_inputs :: "memory_map \<Rightarrow> memory_map \<Rightarrow> bool" where
  "same_but_inputs m m' \<longleftrightarrow>
     get_area m' Output = get_area m Output \<and> get_area m' Memory = get_area m Memory"

lemma same_but_inputs_refl [simp]: "same_but_inputs m m"
  by (simp add: same_but_inputs_def)

lemma same_but_inputs_trans [trans]:
  "same_but_inputs m m' \<Longrightarrow> same_but_inputs m' m'' \<Longrightarrow> same_but_inputs m m''"
  by (simp add: same_but_inputs_def)

locale io_driver =
  fixes ops :: "'d driver_ops"
    and good :: "'d \<Rightarrow> bool"
  assumes initialize_good: "good d \<Longrightarrow> good (snd (op_initialize ops d))"
    and read_inputs_total: "good d \<Longrightarrow> valid_memory m \<Longrightarrow> \<exists>d' m'. op_read_inputs ops d m = Inr (d', m')"
    and read_inputs_good: "good d \<Longrightarrow> valid_memory m \<Longrightarrow> op_read_inputs ops d m = Inr (d', m')
      \<Longrightarrow> good d' \<and> valid_memory m' \<and> same_but_inputs m m'"
    and write_outputs_total: "good d \<Longrightarrow> valid_memory m \<Longrightarrow> \<exists>d'. op_write_outputs ops d m = Inr d'"
    and write_outputs_good: "good d \<Longrightarrow> valid_memory m \<Longrightarrow> op_write_outputs ops d m = Inr d' \<Longrightarrow> good d'"

end
