(* ===== verification/Aslc_Engine.thy ===== *)
theory Aslc_Engine
  imports Io_Driver "HOL-Library.Sublist"
begin

text \<open>
  The scan engine of \<open>aslc_engine.hpp\<close> and \<open>aslc_engine.cpp\<close>: the object with its drivers, callback and
  counters, the owner's \<open>start\<close> and \<open>stop\<close>, and the worker thread that repeats read, logic, write and
  sleep. What the worker and the other threads share (the process image, the driver objects behind
  their pointers, the state of the logic behind the callback) is the \<open>plant\<close>.
\<close>

section \<open>State\<close>

record ('d, 'c) plant =
  plant_drivers :: "nat \<Rightarrow> 'd"
  plant_map :: memory_map
  plant_logic :: 'c

type_synonym 'c cycle_callback = "'c \<Rightarrow> memory_map \<Rightarrow> u64 \<Rightarrow> unit result \<times> 'c \<times> memory_map"

text \<open>
  The points of \<open>run\<close> between which other threads can act: before the first clock reading, at the
  loop test, at a driver of the read or write loop, at the callback, at the counter, asleep,
  returned, or dead because an exception left the thread function (\<open>std::terminate\<close>).
\<close>

datatype worker_pc = No_thread | Worker_start | Loop_test | Reading nat | Logic | Writing nat
  | Counting | Sleeping | Finished | Terminated failure

record 'c aslc_engine =
  drivers :: "nat option list"
  cycle_period :: int
  is_running :: bool
  cycle_count :: u64
  cycle_callback :: "'c cycle_callback option"
  worker_thread :: worker_pc
  stop_requested :: bool
  next_cycle_time :: int

section \<open>The owner's operations\<close>

definition AslcEngine :: "memory_map option \<Rightarrow> int \<Rightarrow> 'c aslc_engine \<times> memory_map" where
  "AslcEngine mem period =
     (\<lparr>drivers = [], cycle_period = period, is_running = False, cycle_count = 0,
       cycle_callback = None, worker_thread = No_thread, stop_requested = False,
       next_cycle_time = 0\<rparr>,
      case mem of Some m \<Rightarrow> m | None \<Rightarrow> new_memory_map)"

definition add_driver :: "'c aslc_engine \<Rightarrow> nat option \<Rightarrow> 'c aslc_engine" where
  "add_driver e driver =
     (case driver of Some a \<Rightarrow> e\<lparr>drivers := drivers e @ [Some a]\<rparr> | None \<Rightarrow> e)"

definition set_cycle_callback :: "'c aslc_engine \<Rightarrow> 'c cycle_callback option \<Rightarrow> 'c aslc_engine" where
  "set_cycle_callback e f = e\<lparr>cycle_callback := f\<rparr>"

fun initialize_drivers :: "'d driver_ops \<Rightarrow> nat option list \<Rightarrow> (nat \<Rightarrow> 'd) \<Rightarrow> (nat \<Rightarrow> 'd)" where
  "initialize_drivers ops [] ds = ds"
| "initialize_drivers ops (None # ps) ds = initialize_drivers ops ps ds"
| "initialize_drivers ops (Some a # ps) ds =
     initialize_drivers ops ps (ds(a := snd (op_initialize ops (ds a))))"

definition start ::
  "'d driver_ops \<Rightarrow> 'c aslc_engine \<Rightarrow> ('d, 'c) plant \<Rightarrow> 'c aslc_engine \<times> ('d, 'c) plant" where
  "start ops e w =
     (if is_running e then (e, w)
      else (e\<lparr>is_running := True, worker_thread := Worker_start, stop_requested := False\<rparr>,
            w\<lparr>plant_drivers := initialize_drivers ops (drivers e) (plant_drivers w)\<rparr>))"

text \<open>
  \<open>stop\<close> in three steps of its caller: it clears the flag, asks the thread to stop, and waits for it.
  Without a running worker it returns at once.
\<close>

datatype owner_pc = Owner_free | Flag_cleared | Joining

definition stop_begin :: "'c aslc_engine \<Rightarrow> 'c aslc_engine \<times> owner_pc" where
  "stop_begin e =
     (if is_running e then (e\<lparr>is_running := False\<rparr>, Flag_cleared) else (e, Owner_free))"

definition stop_request :: "'c aslc_engine \<Rightarrow> 'c aslc_engine \<times> owner_pc" where
  "stop_request e =
     (if worker_thread e = No_thread then (e, Owner_free)
      else (e\<lparr>stop_requested := True\<rparr>, Joining))"

definition stop_join :: "'c aslc_engine \<Rightarrow> ('c aslc_engine \<times> owner_pc) option" where
  "stop_join e =
     (if worker_thread e = Finished then Some (e\<lparr>worker_thread := No_thread\<rparr>, Owner_free)
      else None)"

section \<open>The worker\<close>

text \<open>What the worker does that is visible outside: calls of the drivers and of the callback.\<close>

datatype event = Ev_read nat | Ev_logic u64 | Ev_write nat

text \<open>
  One step of \<open>run\<close> at clock time \<open>now\<close>: the engine and the plant after it and the event it causes, or
  \<open>None\<close> where the thread cannot move (it sleeps, or it is gone).
\<close>

definition worker_step ::
  "'d driver_ops \<Rightarrow> int \<Rightarrow> 'c aslc_engine \<Rightarrow> ('d, 'c) plant
     \<Rightarrow> ('c aslc_engine \<times> ('d, 'c) plant \<times> event list) option" where
  "worker_step ops now e w =
     (case worker_thread e of
        Worker_start \<Rightarrow> Some (e\<lparr>next_cycle_time := now, worker_thread := Loop_test\<rparr>, w, [])
      | Loop_test \<Rightarrow>
          if \<not> stop_requested e \<and> is_running e
          then Some (e\<lparr>next_cycle_time := next_cycle_time e + cycle_period e,
                       worker_thread := Reading 0\<rparr>, w, [])
          else Some (e\<lparr>worker_thread := Finished\<rparr>, w, [])
      | Reading i \<Rightarrow>
          if i < length (drivers e) then
            (case drivers e ! i of
               None \<Rightarrow> Some (e\<lparr>worker_thread := Reading (Suc i)\<rparr>, w, [])
             | Some a \<Rightarrow>
                 (case op_read_inputs ops (plant_drivers w a) (plant_map w) of
                    Inl err \<Rightarrow> Some (e\<lparr>worker_thread := Terminated err\<rparr>, w, [Ev_read a])
                  | Inr (d, m) \<Rightarrow> Some (e\<lparr>worker_thread := Reading (Suc i)\<rparr>,
                      w\<lparr>plant_drivers := (plant_drivers w)(a := d), plant_map := m\<rparr>, [Ev_read a])))
          else Some (e\<lparr>worker_thread := Logic\<rparr>, w, [])
      | Logic \<Rightarrow>
          (case cycle_callback e of
             None \<Rightarrow> Some (e\<lparr>worker_thread := Writing 0\<rparr>, w, [])
           | Some f \<Rightarrow>
               (case f (plant_logic w) (plant_map w) (cycle_count e) of
                  (res, l, m) \<Rightarrow>
                    Some (e\<lparr>worker_thread :=
                              (case res of Inl err \<Rightarrow> Terminated err | Inr _ \<Rightarrow> Writing 0)\<rparr>,
                          w\<lparr>plant_logic := l, plant_map := m\<rparr>, [Ev_logic (cycle_count e)])))
      | Writing i \<Rightarrow>
          if i < length (drivers e) then
            (case drivers e ! i of
               None \<Rightarrow> Some (e\<lparr>worker_thread := Writing (Suc i)\<rparr>, w, [])
             | Some a \<Rightarrow>
                 (case op_write_outputs ops (plant_drivers w a) (plant_map w) of
                    Inl err \<Rightarrow> Some (e\<lparr>worker_thread := Terminated err\<rparr>, w, [Ev_write a])
                  | Inr d \<Rightarrow> Some (e\<lparr>worker_thread := Writing (Suc i)\<rparr>,
                      w\<lparr>plant_drivers := (plant_drivers w)(a := d)\<rparr>, [Ev_write a])))
          else Some (e\<lparr>worker_thread := Counting\<rparr>, w, [])
      | Counting \<Rightarrow>
          Some (e\<lparr>cycle_count := cycle_count e + 1, worker_thread := Sleeping\<rparr>, w, [])
      | Sleeping \<Rightarrow>
          if now \<ge> next_cycle_time e then Some (e\<lparr>worker_thread := Loop_test\<rparr>, w, []) else None
      | No_thread \<Rightarrow> None
      | Finished \<Rightarrow> None
      | Terminated _ \<Rightarrow> None)"

section \<open>One cycle, as a function\<close>

fun read_drivers ::
  "'d driver_ops \<Rightarrow> nat option list \<Rightarrow> ('d, 'c) plant \<Rightarrow> ('d, 'c) plant result" where
  "read_drivers ops [] w = Inr w"
| "read_drivers ops (None # ps) w = read_drivers ops ps w"
| "read_drivers ops (Some a # ps) w =
     res_bind (op_read_inputs ops (plant_drivers w a) (plant_map w)) (\<lambda>(d, m).
       read_drivers ops ps (w\<lparr>plant_drivers := (plant_drivers w)(a := d), plant_map := m\<rparr>))"

fun write_drivers ::
  "'d driver_ops \<Rightarrow> nat option list \<Rightarrow> ('d, 'c) plant \<Rightarrow> ('d, 'c) plant result" where
  "write_drivers ops [] w = Inr w"
| "write_drivers ops (None # ps) w = write_drivers ops ps w"
| "write_drivers ops (Some a # ps) w =
     res_bind (op_write_outputs ops (plant_drivers w a) (plant_map w)) (\<lambda>d.
       write_drivers ops ps (w\<lparr>plant_drivers := (plant_drivers w)(a := d)\<rparr>))"

definition run_callback ::
  "'c cycle_callback option \<Rightarrow> u64 \<Rightarrow> ('d, 'c) plant \<Rightarrow> ('d, 'c) plant result" where
  "run_callback cb n w =
     (case cb of
        None \<Rightarrow> Inr w
      | Some f \<Rightarrow>
          (case f (plant_logic w) (plant_map w) n of
             (Inl err, l, m) \<Rightarrow> Inl err
           | (Inr _, l, m) \<Rightarrow> Inr (w\<lparr>plant_logic := l, plant_map := m\<rparr>)))"

definition run_cycle ::
  "'d driver_ops \<Rightarrow> nat option list \<Rightarrow> 'c cycle_callback option \<Rightarrow> u64
     \<Rightarrow> ('d, 'c) plant \<Rightarrow> ('d, 'c) plant result" where
  "run_cycle ops ps cb n w =
     res_bind (read_drivers ops ps w) (\<lambda>w1.
     res_bind (run_callback cb n w1) (\<lambda>w2.
       write_drivers ops ps w2))"

text \<open>The first \<open>n\<close> cycles of a run whose counter starts at \<open>c\<close>.\<close>

primrec run_cycles ::
  "'d driver_ops \<Rightarrow> nat option list \<Rightarrow> 'c cycle_callback option \<Rightarrow> u64 \<Rightarrow> nat
     \<Rightarrow> ('d, 'c) plant \<Rightarrow> ('d, 'c) plant result" where
  "run_cycles ops ps cb c 0 w = Inr w"
| "run_cycles ops ps cb c (Suc n) w =
     res_bind (run_cycles ops ps cb c n w) (run_cycle ops ps cb (c + of_nat n))"

text \<open>The events of one complete cycle.\<close>

definition pointers :: "nat option list \<Rightarrow> nat list" where
  "pointers ps = map the (filter (\<lambda>p. p \<noteq> None) ps)"

definition cycle_events :: "nat option list \<Rightarrow> bool \<Rightarrow> u64 \<Rightarrow> event list" where
  "cycle_events ps has_logic n =
     map Ev_read (pointers ps) @ (if has_logic then [Ev_logic n] else []) @ map Ev_write (pointers ps)"

definition run_events :: "nat option list \<Rightarrow> bool \<Rightarrow> u64 \<Rightarrow> nat \<Rightarrow> event list" where
  "run_events ps has_logic c n = concat (map (\<lambda>k. cycle_events ps has_logic (c + of_nat k)) [0..<n])"

section \<open>Threads interleaved\<close>

record ('d, 'c) engine_sys =
  sys_engine :: "'c aslc_engine"
  sys_plant :: "('d, 'c) plant"
  sys_clock :: int
  sys_owner :: owner_pc

text \<open>
  A step is one of the worker, one of the owner inside \<open>stop\<close>, time passing, or another thread
  changing the plant in a way \<open>env\<close> allows (the web server sets mock inputs and reloads the logic).
\<close>

inductive engine_step ::
  "'d driver_ops \<Rightarrow> (('d, 'c) plant \<Rightarrow> ('d, 'c) plant \<Rightarrow> bool)
     \<Rightarrow> ('d, 'c) engine_sys \<Rightarrow> event list \<Rightarrow> ('d, 'c) engine_sys \<Rightarrow> bool" for ops env where
  worker_moves: "worker_step ops (sys_clock s) (sys_engine s) (sys_plant s) = Some (e, w, evs) \<Longrightarrow>
     engine_step ops env s evs (s\<lparr>sys_engine := e, sys_plant := w\<rparr>)"
| stop_called: "sys_owner s = Owner_free \<Longrightarrow> stop_begin (sys_engine s) = (e, pc) \<Longrightarrow>
     engine_step ops env s [] (s\<lparr>sys_engine := e, sys_owner := pc\<rparr>)"
| stop_asks: "sys_owner s = Flag_cleared \<Longrightarrow> stop_request (sys_engine s) = (e, pc) \<Longrightarrow>
     engine_step ops env s [] (s\<lparr>sys_engine := e, sys_owner := pc\<rparr>)"
| stop_returns: "sys_owner s = Joining \<Longrightarrow> stop_join (sys_engine s) = Some (e, pc) \<Longrightarrow>
     engine_step ops env s [] (s\<lparr>sys_engine := e, sys_owner := pc\<rparr>)"
| time_passes: "sys_clock s \<le> now \<Longrightarrow> engine_step ops env s [] (s\<lparr>sys_clock := now\<rparr>)"
| others_move: "env (sys_plant s) w \<Longrightarrow> engine_step ops env s [] (s\<lparr>sys_plant := w\<rparr>)"

inductive engine_run ::
  "'d driver_ops \<Rightarrow> (('d, 'c) plant \<Rightarrow> ('d, 'c) plant \<Rightarrow> bool)
     \<Rightarrow> ('d, 'c) engine_sys \<Rightarrow> event list \<Rightarrow> ('d, 'c) engine_sys \<Rightarrow> bool" for ops env s where
  run_nil: "engine_run ops env s [] s"
| run_snoc: "engine_run ops env s evs t \<Longrightarrow> engine_step ops env t evs' u
    \<Longrightarrow> engine_run ops env s (evs @ evs') u"

text \<open>A system whose owner has just called \<open>start\<close> on a stopped engine.\<close>

definition just_started :: "('d, 'c) engine_sys \<Rightarrow> bool" where
  "just_started s \<longleftrightarrow> worker_thread (sys_engine s) = Worker_start \<and> is_running (sys_engine s) \<and>
     \<not> stop_requested (sys_engine s) \<and> sys_owner s = Owner_free"

section \<open>Lemmas on events and cycles\<close>

lemma pointers_simps [simp]:
  "pointers [] = []" "pointers (None # ps) = pointers ps" "pointers (Some a # ps) = a # pointers ps"
  "pointers (ps @ qs) = pointers ps @ pointers qs"
  by (simp_all add: pointers_def)

lemma pointers_take_Suc:
  "i < length ps \<Longrightarrow> pointers (take (Suc i) ps) =
     pointers (take i ps) @ (case ps ! i of None \<Rightarrow> [] | Some a \<Rightarrow> [a])"
  by (simp add: take_Suc_conv_app_nth split: option.split)

lemma run_events_Suc:
  "run_events ps hl c (Suc n) = run_events ps hl c n @ cycle_events ps hl (c + of_nat n)"
  by (simp add: run_events_def)

lemma run_events_0 [simp]: "run_events ps hl c 0 = []"
  by (simp add: run_events_def)

lemma read_drivers_append:
  "read_drivers ops (ps @ qs) w = res_bind (read_drivers ops ps w) (read_drivers ops qs)"
proof (induction ps arbitrary: w)
  case (Cons p ps)
  then show ?case
    by (cases p) (auto simp: res_bind_def split: sum.splits)
qed (simp add: res_bind_def)

lemma write_drivers_append:
  "write_drivers ops (ps @ qs) w = res_bind (write_drivers ops ps w) (write_drivers ops qs)"
proof (induction ps arbitrary: w)
  case (Cons p ps)
  then show ?case
    by (cases p) (auto simp: res_bind_def split: sum.splits)
qed (simp add: res_bind_def)

text \<open>A loop over the drivers, seen at its \<open>i\<close>-th round.\<close>

lemma read_drivers_round:
  assumes "i < length ps" and "read_drivers ops (take i ps) w = Inr w'"
  shows "read_drivers ops (take (Suc i) ps) w = read_drivers ops [ps ! i] w'"
    and "read_drivers ops ps w = read_drivers ops (ps ! i # drop (Suc i) ps) w'"
  using assms read_drivers_append [of ops "take i ps" "[ps ! i]" w]
    read_drivers_append [of ops "take i ps" "drop i ps" w]
  by (simp_all add: take_Suc_conv_app_nth res_bind_def Cons_nth_drop_Suc)

lemma write_drivers_round:
  assumes "i < length ps" and "write_drivers ops (take i ps) w = Inr w'"
  shows "write_drivers ops (take (Suc i) ps) w = write_drivers ops [ps ! i] w'"
    and "write_drivers ops ps w = write_drivers ops (ps ! i # drop (Suc i) ps) w'"
  using assms write_drivers_append [of ops "take i ps" "[ps ! i]" w]
    write_drivers_append [of ops "take i ps" "drop i ps" w]
  by (simp_all add: take_Suc_conv_app_nth res_bind_def Cons_nth_drop_Suc)

section \<open>Invariant of a run under any interference\<close>

text \<open>What the worker has done of the current cycle, by its place in the loop.\<close>

fun cycle_part :: "nat option list \<Rightarrow> bool \<Rightarrow> u64 \<Rightarrow> worker_pc \<Rightarrow> event list" where
  "cycle_part ps hl k (Reading i) = map Ev_read (pointers (take i ps))"
| "cycle_part ps hl k Logic = map Ev_read (pointers ps)"
| "cycle_part ps hl k (Writing i) = map Ev_read (pointers ps) @ (if hl then [Ev_logic k] else [])
     @ map Ev_write (pointers (take i ps))"
| "cycle_part ps hl k Counting = cycle_events ps hl k"
| "cycle_part ps hl k _ = []"

definition in_cycle :: "worker_pc \<Rightarrow> bool" where
  "in_cycle pc \<longleftrightarrow> pc = Logic \<or> pc = Counting \<or> (\<exists>i. pc = Reading i \<or> pc = Writing i)"

text \<open>
  After \<open>n\<close> complete cycles of a run whose clock was first read at \<open>t0\<close>: the deadline never drifts from
  \<open>t0 + n * period\<close>.
\<close>

definition run_at ::
  "'c aslc_engine \<Rightarrow> int \<Rightarrow> nat \<Rightarrow> event list \<Rightarrow> ('d, 'c) engine_sys \<Rightarrow> bool" where
  "run_at e0 t0 n evs s \<longleftrightarrow>
     (let e = sys_engine s; pc = worker_thread e; hl = cycle_callback e0 \<noteq> None;
          k = cycle_count e0 + of_nat n; due = t0 + int n * cycle_period e0 in
      drivers e = drivers e0 \<and> cycle_callback e = cycle_callback e0 \<and>
      cycle_period e = cycle_period e0 \<and> cycle_count e = k \<and>
      (case pc of
         Worker_start \<Rightarrow> n = 0 \<and> evs = [] \<and> t0 \<le> sys_clock s
       | Terminated _ \<Rightarrow> (\<exists>part rest. evs = run_events (drivers e0) hl (cycle_count e0) n @ part \<and>
           cycle_events (drivers e0) hl k = part @ rest)
       | _ \<Rightarrow> evs = run_events (drivers e0) hl (cycle_count e0) n @ cycle_part (drivers e0) hl k pc \<and>
           t0 \<le> sys_clock s \<and>
           (if in_cycle pc then next_cycle_time e = due + cycle_period e0 \<and> due \<le> sys_clock s
            else next_cycle_time e = due \<and> (pc \<noteq> Sleeping \<longrightarrow> due \<le> sys_clock s))))"

lemma pointers_split:
  "i < length ps \<Longrightarrow> ps ! i = Some a \<Longrightarrow>
     pointers ps = pointers (take i ps) @ a # pointers (drop (Suc i) ps)"
  by (metis id_take_nth_drop pointers_simps(3,4))

lemma cycle_events_read_split:
  "i < length ps \<Longrightarrow> ps ! i = Some a \<Longrightarrow>
     \<exists>rest. cycle_events ps hl k = map Ev_read (pointers (take i ps)) @ Ev_read a # rest"
  by (simp add: cycle_events_def pointers_split [of i ps a])

lemma cycle_events_write_split:
  "i < length ps \<Longrightarrow> ps ! i = Some a \<Longrightarrow>
     \<exists>rest. cycle_events ps hl k = map Ev_read (pointers ps) @ (if hl then [Ev_logic k] else [])
       @ map Ev_write (pointers (take i ps)) @ Ev_write a # rest"
  by (simp add: cycle_events_def pointers_split [of i ps a])

lemma in_cycle_simps [simp]:
  "in_cycle (Reading i)" "in_cycle Logic" "in_cycle (Writing i)" "in_cycle Counting"
  "\<not> in_cycle No_thread" "\<not> in_cycle Worker_start" "\<not> in_cycle Loop_test" "\<not> in_cycle Sleeping"
  "\<not> in_cycle Finished" "\<not> in_cycle (Terminated e)"
  by (simp_all add: in_cycle_def)

lemmas worker_step_splits = option.splits sum.splits prod.splits if_splits

text \<open>A step inside the cycle, and one that dies there, by the events they add.\<close>

lemma run_at_in_cycle:
  assumes "run_at e0 t0 n evs s" and "in_cycle (worker_thread (sys_engine s))" and "in_cycle pc"
    and "cycle_part (drivers e0) (cycle_callback e0 \<noteq> None) (cycle_count e0 + of_nat n) pc =
      cycle_part (drivers e0) (cycle_callback e0 \<noteq> None) (cycle_count e0 + of_nat n)
        (worker_thread (sys_engine s)) @ evs'"
  shows "run_at e0 t0 n (evs @ evs') (s\<lparr>sys_engine := (sys_engine s)\<lparr>worker_thread := pc\<rparr>, sys_plant := w\<rparr>)"
  using assms
  by (cases "worker_thread (sys_engine s)"; cases pc) (simp_all add: run_at_def Let_def)

lemma run_at_dies:
  assumes "run_at e0 t0 n evs s" and "in_cycle (worker_thread (sys_engine s))"
    and "\<exists>rest. cycle_events (drivers e0) (cycle_callback e0 \<noteq> None) (cycle_count e0 + of_nat n) =
      cycle_part (drivers e0) (cycle_callback e0 \<noteq> None) (cycle_count e0 + of_nat n)
        (worker_thread (sys_engine s)) @ evs' @ rest"
  shows "run_at e0 t0 n (evs @ evs')
    (s\<lparr>sys_engine := (sys_engine s)\<lparr>worker_thread := Terminated err\<rparr>, sys_plant := w\<rparr>)"
  using assms
  by (cases "worker_thread (sys_engine s)") (auto simp: run_at_def Let_def)

lemma run_at_object:
  assumes "run_at e0 t0 n evs s"
  shows "drivers (sys_engine s) = drivers e0" "cycle_callback (sys_engine s) = cycle_callback e0"
    "cycle_period (sys_engine s) = cycle_period e0"
    "cycle_count (sys_engine s) = cycle_count e0 + of_nat n"
  using assms by (simp_all add: run_at_def Let_def)

lemma reading_step_run_at:
  assumes inv: "run_at e0 t0 n evs s" and pc: "worker_thread (sys_engine s) = Reading i"
    and step: "worker_step ops (sys_clock s) (sys_engine s) (sys_plant s) = Some (e, w, evs')"
  shows "run_at e0 t0 n (evs @ evs') (s\<lparr>sys_engine := e, sys_plant := w\<rparr>)"
proof (cases "i < length (drivers e0)")
  case True
  have in_read: "in_cycle (worker_thread (sys_engine s))" by (simp add: pc)
  note defs = worker_step_def run_at_object [OF inv] pointers_take_Suc [OF True]
  show ?thesis
  proof (cases "drivers e0 ! i")
    case None
    with step pc True run_at_in_cycle [OF inv in_read, of "Reading (Suc i)" "[]"] show ?thesis
      by (auto simp: defs)
  next
    case (Some a)
    with step pc True cycle_events_read_split [OF True Some]
      run_at_in_cycle [OF inv in_read, of "Reading (Suc i)" "[Ev_read a]"]
      run_at_dies [OF inv in_read, where evs' = "[Ev_read a]" and w = "sys_plant s"] show ?thesis
      by (auto simp: defs split: sum.splits)
  qed
next
  case False
  then show ?thesis
    using step pc run_at_in_cycle [OF inv, of Logic]
    by (auto simp: worker_step_def run_at_object [OF inv])
qed

lemma writing_step_run_at:
  assumes inv: "run_at e0 t0 n evs s" and pc: "worker_thread (sys_engine s) = Writing i"
    and step: "worker_step ops (sys_clock s) (sys_engine s) (sys_plant s) = Some (e, w, evs')"
  shows "run_at e0 t0 n (evs @ evs') (s\<lparr>sys_engine := e, sys_plant := w\<rparr>)"
proof (cases "i < length (drivers e0)")
  case True
  have in_write: "in_cycle (worker_thread (sys_engine s))" by (simp add: pc)
  note defs = worker_step_def run_at_object [OF inv] pointers_take_Suc [OF True]
  show ?thesis
  proof (cases "drivers e0 ! i")
    case None
    with step pc True run_at_in_cycle [OF inv in_write, of "Writing (Suc i)" "[]"] show ?thesis
      by (auto simp: defs)
  next
    case (Some a)
    with step pc True cycle_events_write_split [OF True Some]
      run_at_in_cycle [OF inv in_write, of "Writing (Suc i)" "[Ev_write a]"]
      run_at_dies [OF inv in_write, where evs' = "[Ev_write a]" and w = "sys_plant s"] show ?thesis
      by (auto simp: defs split: sum.splits)
  qed
next
  case False
  then show ?thesis
    using step pc run_at_in_cycle [OF inv, of Counting]
    by (auto simp: worker_step_def run_at_object [OF inv] cycle_events_def)
qed

lemma logic_step_run_at:
  assumes inv: "run_at e0 t0 n evs s" and pc: "worker_thread (sys_engine s) = Logic"
    and step: "worker_step ops (sys_clock s) (sys_engine s) (sys_plant s) = Some (e, w, evs')"
  shows "run_at e0 t0 n (evs @ evs') (s\<lparr>sys_engine := e, sys_plant := w\<rparr>)"
proof -
  have in_logic: "in_cycle (worker_thread (sys_engine s))" by (simp add: pc)
  show ?thesis
    using step pc run_at_in_cycle [OF inv in_logic, of "Writing 0"] run_at_dies [OF inv in_logic]
    by (auto simp: worker_step_def run_at_object [OF inv] cycle_events_def split: worker_step_splits)
qed

lemma worker_step_run_at_from:
  assumes inv: "run_at e0 t0 n evs s"
    and step: "worker_step ops (sys_clock s) (sys_engine s) (sys_plant s) = Some (e, w, evs')"
  shows "if worker_thread (sys_engine s) = Worker_start
    then t0 \<le> sys_clock s \<and> run_at e0 (sys_clock s) 0 (evs @ evs') (s\<lparr>sys_engine := e, sys_plant := w\<rparr>)
    else \<exists>n'. run_at e0 t0 n' (evs @ evs') (s\<lparr>sys_engine := e, sys_plant := w\<rparr>)"
proof (cases "worker_thread (sys_engine s)")
  case Worker_start
  with assms have "run_at e0 (sys_clock s) 0 (evs @ evs') (s\<lparr>sys_engine := e, sys_plant := w\<rparr>)"
    by (auto simp: run_at_def worker_step_def Let_def)
  moreover have "t0 \<le> sys_clock s" using Worker_start assms(1) by (simp add: run_at_def Let_def)
  ultimately show ?thesis using Worker_start by simp
next
  case Counting
  with assms have "run_at e0 t0 (Suc n) (evs @ evs') (s\<lparr>sys_engine := e, sys_plant := w\<rparr>)"
    by (auto simp: run_at_def worker_step_def Let_def run_events_Suc algebra_simps)
  with Counting show ?thesis by auto
next
  case Loop_test
  with assms have "run_at e0 t0 n (evs @ evs') (s\<lparr>sys_engine := e, sys_plant := w\<rparr>)"
    by (auto simp: run_at_def worker_step_def Let_def split: if_splits)
  with Loop_test show ?thesis by auto
next
  case Sleeping
  with assms have "run_at e0 t0 n (evs @ evs') (s\<lparr>sys_engine := e, sys_plant := w\<rparr>)"
    by (auto simp: run_at_def worker_step_def Let_def split: if_splits)
  with Sleeping show ?thesis by auto
next
  case (Reading i)
  from reading_step_run_at [OF inv this step] Reading show ?thesis by auto
next
  case (Writing i)
  from writing_step_run_at [OF inv this step] Writing show ?thesis by auto
next
  case Logic
  from logic_step_run_at [OF inv this step] Logic show ?thesis by auto
qed (use step in \<open>simp_all add: worker_step_def\<close>)

lemma worker_step_run_at:
  assumes "run_at e0 t0 n evs s"
    and "worker_step ops (sys_clock s) (sys_engine s) (sys_plant s) = Some (e, w, evs')"
  shows "\<exists>t1 n'. t0 \<le> t1 \<and> run_at e0 t1 n' (evs @ evs') (s\<lparr>sys_engine := e, sys_plant := w\<rparr>)"
  using worker_step_run_at_from [OF assms] by (auto split: if_splits)

lemma run_at_owner:
  assumes "run_at e0 t0 n evs s"
  shows "run_at e0 t0 n evs (s\<lparr>sys_owner := pc\<rparr>)"
    and "run_at e0 t0 n evs (s\<lparr>sys_plant := w\<rparr>)"
    and "sys_clock s \<le> now \<Longrightarrow> run_at e0 t0 n evs (s\<lparr>sys_clock := now\<rparr>)"
    and "run_at e0 t0 n evs (s\<lparr>sys_engine := (sys_engine s)\<lparr>is_running := b\<rparr>, sys_owner := pc\<rparr>)"
    and "run_at e0 t0 n evs (s\<lparr>sys_engine := (sys_engine s)\<lparr>stop_requested := b\<rparr>, sys_owner := pc\<rparr>)"
  using assms by (auto simp: run_at_def Let_def split: worker_pc.splits if_splits)

lemma run_at_join:
  "run_at e0 t0 n evs s \<Longrightarrow> worker_thread (sys_engine s) = Finished \<Longrightarrow>
   run_at e0 t0 n evs (s\<lparr>sys_engine := (sys_engine s)\<lparr>worker_thread := No_thread\<rparr>, sys_owner := pc\<rparr>)"
  by (auto simp: run_at_def Let_def)

lemma engine_step_run_at:
  "engine_step ops env s evs' t \<Longrightarrow> run_at e0 t0 n evs s \<Longrightarrow>
   \<exists>t1 n'. t0 \<le> t1 \<and> run_at e0 t1 n' (evs @ evs') t"
proof (induction rule: engine_step.induct)
  case (worker_moves s e w evs')
  then show ?case by (blast intro: worker_step_run_at)
next
  case (stop_called s e pc)
  then have "run_at e0 t0 n (evs @ []) (s\<lparr>sys_engine := e, sys_owner := pc\<rparr>)"
    using run_at_owner(1) [of e0 t0 n evs s]
    by (auto simp: stop_begin_def intro: run_at_owner run_at_join split: if_splits)
  then show ?case by blast
next
  case (stop_asks s e pc)
  then have "run_at e0 t0 n (evs @ []) (s\<lparr>sys_engine := e, sys_owner := pc\<rparr>)"
    using run_at_owner(1) [of e0 t0 n evs s]
    by (auto simp: stop_request_def intro: run_at_owner run_at_join split: if_splits)
  then show ?case by blast
next
  case (stop_returns s e pc)
  then have "run_at e0 t0 n (evs @ []) (s\<lparr>sys_engine := e, sys_owner := pc\<rparr>)"
    using run_at_owner(1) [of e0 t0 n evs s]
    by (auto simp: stop_join_def intro: run_at_owner run_at_join split: if_splits)
  then show ?case by blast
qed (auto intro: run_at_owner)

text \<open>Once the clock has been read, its reading stays the origin of all deadlines.\<close>

lemma worker_step_origin:
  assumes "run_at e0 t0 n evs s" and "worker_thread (sys_engine s) \<noteq> Worker_start"
    and "worker_step ops (sys_clock s) (sys_engine s) (sys_plant s) = Some (e, w, evs')"
  shows "worker_thread e \<noteq> Worker_start \<and> (\<exists>n'. run_at e0 t0 n' (evs @ evs') (s\<lparr>sys_engine := e, sys_plant := w\<rparr>))"
proof
  show "worker_thread e \<noteq> Worker_start"
    using assms(3) by (auto simp: worker_step_def split: worker_pc.splits worker_step_splits)
  show "\<exists>n'. run_at e0 t0 n' (evs @ evs') (s\<lparr>sys_engine := e, sys_plant := w\<rparr>)"
    using worker_step_run_at_from [OF assms(1,3)] assms(2) by simp
qed

lemma engine_step_origin:
  assumes "engine_step ops env s evs' t" and "run_at e0 t0 n evs s" and "worker_thread (sys_engine s) \<noteq> Worker_start"
  shows "worker_thread (sys_engine t) \<noteq> Worker_start \<and> (\<exists>n'. run_at e0 t0 n' (evs @ evs') t)"
  using assms
proof (induction rule: engine_step.induct)
  case (worker_moves s e w evs')
  then show ?case using worker_step_origin by simp blast
next
  case (stop_called s e pc)
  then have "run_at e0 t0 n (evs @ []) (s\<lparr>sys_engine := e, sys_owner := pc\<rparr>)"
    using run_at_owner(1) [of e0 t0 n evs s] by (auto simp: stop_begin_def intro: run_at_owner split: if_splits)
  with stop_called show ?case by (auto simp: stop_begin_def split: if_splits)
next
  case (stop_asks s e pc)
  then have "run_at e0 t0 n (evs @ []) (s\<lparr>sys_engine := e, sys_owner := pc\<rparr>)"
    using run_at_owner(1) [of e0 t0 n evs s] by (auto simp: stop_request_def intro: run_at_owner split: if_splits)
  with stop_asks show ?case by (auto simp: stop_request_def split: if_splits)
next
  case (stop_returns s e pc)
  then have "run_at e0 t0 n (evs @ []) (s\<lparr>sys_engine := e, sys_owner := pc\<rparr>)"
    by (auto simp: stop_join_def intro: run_at_join split: if_splits)
  with stop_returns show ?case by (auto simp: stop_join_def split: if_splits)
qed (auto intro: run_at_owner)

lemma engine_run_origin:
  assumes "engine_run ops env s evs t" and "run_at e0 t0 n0 [] s" and "worker_thread (sys_engine s) \<noteq> Worker_start"
  shows "worker_thread (sys_engine t) \<noteq> Worker_start \<and> (\<exists>n. run_at e0 t0 n evs t)"
  using assms
proof (induction rule: engine_run.induct)
  case (run_snoc evs t evs' u)
  then show ?case using engine_step_origin by blast
qed auto

lemma engine_run_run_at:
  assumes "engine_run ops env s evs t" and "just_started s"
  shows "\<exists>t0 n. sys_clock s \<le> t0 \<and> run_at (sys_engine s) t0 n evs t"
  using assms
proof (induction rule: engine_run.induct)
  case run_nil
  then have "run_at (sys_engine s) (sys_clock s) 0 [] s" by (simp add: run_at_def just_started_def Let_def)
  then show ?case by blast
next
  case (run_snoc evs t evs' u)
  then show ?case using engine_step_run_at by (metis order.trans)
qed

lemma cycle_part_prefix:
  assumes "in_cycle pc"
  shows "\<exists>rest. cycle_events ps hl k = cycle_part ps hl k pc @ rest"
proof -
  have split: "pointers ps = pointers (take i ps) @ pointers (drop i ps)" for i
    by (metis append_take_drop_id pointers_simps(4))
  show ?thesis
  proof (cases pc)
    case (Reading i)
    with split [of i] show ?thesis by (simp add: cycle_events_def)
  next
    case (Writing i)
    with split [of i] show ?thesis by (simp add: cycle_events_def)
  qed (use assms in \<open>simp_all add: cycle_events_def\<close>)
qed

lemma run_at_prefix:
  assumes "run_at e0 t0 n evs s"
  shows "\<exists>part rest. evs = run_events (drivers e0) (cycle_callback e0 \<noteq> None) (cycle_count e0) n @ part \<and>
    cycle_events (drivers e0) (cycle_callback e0 \<noteq> None) (cycle_count e0 + of_nat n) = part @ rest \<and>
    ((\<exists>err. worker_thread (sys_engine s) = Terminated err) \<or> in_cycle (worker_thread (sys_engine s)) \<or> part = [])"
proof (cases "in_cycle (worker_thread (sys_engine s))")
  case True
  with assms show ?thesis
    using cycle_part_prefix [OF True]
    by (cases "worker_thread (sys_engine s)") (force simp: run_at_def Let_def)+
next
  case False
  with assms show ?thesis
    by (cases "worker_thread (sys_engine s)") (force simp: run_at_def Let_def)+
qed

section \<open>The owner inside \<open>stop\<close>\<close>

definition owner_ok :: "('d, 'c) engine_sys \<Rightarrow> bool" where
  "owner_ok s \<longleftrightarrow>
     (let e = sys_engine s; joinable = (worker_thread e \<noteq> No_thread) in
      case sys_owner s of
        Owner_free \<Rightarrow> is_running e = joinable
      | Flag_cleared \<Rightarrow> joinable \<and> \<not> is_running e
      | Joining \<Rightarrow> joinable \<and> \<not> is_running e \<and> stop_requested e)"

lemma worker_step_keeps:
  assumes "worker_step ops now e w = Some (e', w', evs)"
  shows "is_running e' = is_running e" "stop_requested e' = stop_requested e" "drivers e' = drivers e"
    "cycle_callback e' = cycle_callback e" "worker_thread e \<noteq> No_thread" "worker_thread e' \<noteq> No_thread"
  using assms by (auto simp: worker_step_def split: worker_pc.splits worker_step_splits)

lemma owner_ok_step: "engine_step ops env s evs t \<Longrightarrow> owner_ok s \<Longrightarrow> owner_ok t"
proof (induction rule: engine_step.induct)
  case (worker_moves s e w evs)
  then show ?case
    using worker_step_keeps [OF worker_moves(1)]
    by (cases "sys_owner s") (simp_all add: owner_ok_def Let_def)
qed (auto simp: owner_ok_def Let_def stop_begin_def stop_request_def stop_join_def
      split: owner_pc.splits if_splits)

lemma owner_ok_run: "engine_run ops env s evs t \<Longrightarrow> just_started s \<Longrightarrow> owner_ok t"
  by (induction rule: engine_run.induct)
    (auto simp: just_started_def owner_ok_def Let_def dest: owner_ok_step)

section \<open>The worker left alone\<close>

primrec worker_runs ::
  "'d driver_ops \<Rightarrow> nat \<Rightarrow> ('d, 'c) engine_sys \<Rightarrow> event list \<times> ('d, 'c) engine_sys" where
  "worker_runs ops 0 s = ([], s)"
| "worker_runs ops (Suc k) s =
     (case worker_step ops (sys_clock s) (sys_engine s) (sys_plant s) of
        None \<Rightarrow> ([], s)
      | Some (e, w, evs) \<Rightarrow>
          (case worker_runs ops k (s\<lparr>sys_engine := e, sys_plant := w\<rparr>) of
             (evs', t) \<Rightarrow> (evs @ evs', t)))"

lemma engine_run_append:
  assumes "engine_run ops env t evs2 u" and "engine_run ops env s evs1 t"
  shows "engine_run ops env s (evs1 @ evs2) u"
  using assms
proof (induction rule: engine_run.induct)
  case (run_snoc evs t' evs' u)
  then show ?case
    using engine_run.run_snoc [of ops env s "evs1 @ evs" t' evs' u] by simp
qed simp

lemma engine_run_step: "engine_step ops env s evs t \<Longrightarrow> engine_run ops env s evs t"
  using engine_run.run_snoc [OF engine_run.run_nil, of ops env s evs t] by simp

lemma worker_runs_engine_run:
  "worker_runs ops k s = (evs, t) \<Longrightarrow> engine_run ops env s evs t"
proof (induction k arbitrary: s evs)
  case 0
  then show ?case by (simp add: engine_run.run_nil)
next
  case (Suc k)
  then show ?case
    by (auto split: option.splits prod.splits intro: engine_run.run_nil
        engine_run_append [OF _ engine_run_step [OF engine_step.worker_moves]])
qed

text \<open>The steps the worker still takes once it has been told to stop.\<close>

fun steps_left :: "nat \<Rightarrow> worker_pc \<Rightarrow> nat" where
  "steps_left n Worker_start = 2"
| "steps_left n Loop_test = 1"
| "steps_left n (Reading i) = (n - i) + n + 6"
| "steps_left n Logic = n + 5"
| "steps_left n (Writing i) = (n - i) + 4"
| "steps_left n Counting = 3"
| "steps_left n Sleeping = 2"
| "steps_left n _ = 0"

definition told_to_stop :: "'c aslc_engine \<Rightarrow> bool" where
  "told_to_stop e \<longleftrightarrow> stop_requested e \<or> \<not> is_running e"

definition worker_gone :: "worker_pc \<Rightarrow> bool" where
  "worker_gone pc \<longleftrightarrow> pc = Finished \<or> (\<exists>err. pc = Terminated err)"

lemma stopping_step:
  assumes "told_to_stop e" and "next_cycle_time e \<le> now" and "worker_thread e \<noteq> No_thread"
    and "\<not> worker_gone (worker_thread e)"
  shows "\<exists>e' w' evs. worker_step ops now e w = Some (e', w', evs) \<and> told_to_stop e' \<and>
    next_cycle_time e' \<le> now \<and> drivers e' = drivers e \<and> worker_thread e' \<noteq> No_thread \<and>
    steps_left (length (drivers e)) (worker_thread e') < steps_left (length (drivers e)) (worker_thread e)"
proof (cases "worker_thread e")
  case (Reading i)
  note defs = Reading worker_step_def told_to_stop_def
  show ?thesis
  proof (cases "i < length (drivers e)")
    case True
    then show ?thesis
      using assms
      by (cases "drivers e ! i";
          cases "op_read_inputs ops (plant_drivers w (the (drivers e ! i))) (plant_map w)")
        (auto simp: defs)
  qed (use assms in \<open>simp add: defs\<close>)
next
  case (Writing i)
  note defs = Writing worker_step_def told_to_stop_def
  show ?thesis
  proof (cases "i < length (drivers e)")
    case True
    then show ?thesis
      using assms
      by (cases "drivers e ! i";
          cases "op_write_outputs ops (plant_drivers w (the (drivers e ! i))) (plant_map w)")
        (auto simp: defs)
  qed (use assms in \<open>simp add: defs\<close>)
next
  case Logic
  obtain res l m where call: "the (cycle_callback e) (plant_logic w) (plant_map w) (cycle_count e) = (res, l, m)"
    using prod_cases3 by blast
  show ?thesis
    using assms Logic call
    by (cases "cycle_callback e"; cases res) (auto simp: worker_step_def told_to_stop_def)
qed (use assms in \<open>auto simp: worker_step_def told_to_stop_def worker_gone_def\<close>)

lemma stopping_runs:
  assumes "told_to_stop (sys_engine s)" and "next_cycle_time (sys_engine s) \<le> sys_clock s"
    and "worker_thread (sys_engine s) \<noteq> No_thread"
    and "steps_left (length (drivers (sys_engine s))) (worker_thread (sys_engine s)) \<le> k"
  shows "worker_gone (worker_thread (sys_engine (snd (worker_runs ops k s))))"
  using assms
proof (induction k arbitrary: s)
  case 0
  then show ?case by (cases "worker_thread (sys_engine s)") (simp_all add: worker_gone_def)
next
  case (Suc k)
  show ?case
  proof (cases "worker_gone (worker_thread (sys_engine s))")
    case True
    then show ?thesis by (auto simp: worker_gone_def worker_step_def)
  next
    case False
    from stopping_step [OF Suc.prems(1-3) False] obtain e' w' evs where
      "worker_step ops (sys_clock s) (sys_engine s) (sys_plant s) = Some (e', w', evs)"
      "told_to_stop e'" "next_cycle_time e' \<le> sys_clock s" "drivers e' = drivers (sys_engine s)"
      "worker_thread e' \<noteq> No_thread"
      "steps_left (length (drivers (sys_engine s))) (worker_thread e') <
        steps_left (length (drivers (sys_engine s))) (worker_thread (sys_engine s))"
      by blast
    then show ?thesis
      using Suc.IH [of "s\<lparr>sys_engine := e', sys_plant := w'\<rparr>"] Suc.prems(4)
      by (simp add: case_prod_beta)
  qed
qed

lemma steps_left_bound: "steps_left n pc \<le> 2 * n + 6"
  by (cases pc) auto

end
