(* ===== verification/Engine_Cycles.thy ===== *)
theory Engine_Cycles
  imports Aslc_Engine
begin

text \<open>
  What a run of the scan engine does to the plant: step by step it computes the composition of complete
  cycles, and with drivers and logic that keep their contracts it never fails.
\<close>

section \<open>The plant along an undisturbed run\<close>

text \<open>The plant at a point of cycle \<open>k\<close>, from the plant \<open>w\<close> at the start of the cycle.\<close>

fun plant_at ::
  "'d driver_ops \<Rightarrow> nat option list \<Rightarrow> 'c cycle_callback option \<Rightarrow> u64 \<Rightarrow> ('d, 'c) plant
     \<Rightarrow> worker_pc \<Rightarrow> ('d, 'c) plant \<Rightarrow> bool" where
  "plant_at ops ps cb k w (Reading i) w' \<longleftrightarrow> read_drivers ops (take i ps) w = Inr w'"
| "plant_at ops ps cb k w Logic w' \<longleftrightarrow> read_drivers ops ps w = Inr w'"
| "plant_at ops ps cb k w (Writing i) w' \<longleftrightarrow>
     (\<exists>w2. res_bind (read_drivers ops ps w) (run_callback cb k) = Inr w2 \<and>
        write_drivers ops (take i ps) w2 = Inr w')"
| "plant_at ops ps cb k w Counting w' \<longleftrightarrow> run_cycle ops ps cb k w = Inr w'"
| "plant_at ops ps cb k w (Terminated err) w' \<longleftrightarrow> run_cycle ops ps cb k w = Inl err"
| "plant_at ops ps cb k w _ w' \<longleftrightarrow> w' = w"

definition cycles_at ::
  "'d driver_ops \<Rightarrow> 'c aslc_engine \<Rightarrow> ('d, 'c) plant \<Rightarrow> nat \<Rightarrow> 'c aslc_engine \<Rightarrow> ('d, 'c) plant \<Rightarrow> bool" where
  "cycles_at ops e0 w0 n e w' \<longleftrightarrow>
     (\<exists>w. run_cycles ops (drivers e0) (cycle_callback e0) (cycle_count e0) n w0 = Inr w \<and>
        drivers e = drivers e0 \<and> cycle_callback e = cycle_callback e0 \<and>
        cycle_count e = cycle_count e0 + of_nat n \<and>
        plant_at ops (drivers e0) (cycle_callback e0) (cycle_count e0 + of_nat n) w (worker_thread e) w')"

lemma run_cycle_alt:
  "run_cycle ops ps cb k w =
     res_bind (res_bind (read_drivers ops ps w) (run_callback cb k)) (write_drivers ops ps)"
  by (simp add: run_cycle_def res_bind_def split: sum.split)

lemma reading_step_plant:
  assumes pc: "worker_thread e = Reading i" and w: "plant_at ops (drivers e) cb k w0 (Reading i) w"
    and step: "worker_step ops now e w = Some (e', w', evs)"
  shows "plant_at ops (drivers e) cb k w0 (worker_thread e') w'"
proof (cases "i < length (drivers e)")
  case True
  note round = read_drivers_round [OF True w [unfolded plant_at.simps]]
  show ?thesis
  proof (cases "drivers e ! i")
    case None
    with step pc round True show ?thesis by (auto simp: worker_step_def)
  next
    case (Some a)
    with step pc round True show ?thesis
      by (auto simp: worker_step_def res_bind_def run_cycle_def split: sum.splits)
  qed
qed (use step pc w in \<open>auto simp: worker_step_def\<close>)

lemma writing_step_plant:
  assumes pc: "worker_thread e = Writing i" and w: "plant_at ops (drivers e) cb k w0 (Writing i) w"
    and step: "worker_step ops now e w = Some (e', w', evs)"
  shows "plant_at ops (drivers e) cb k w0 (worker_thread e') w'"
proof -
  from w obtain w2 where w2: "res_bind (read_drivers ops (drivers e) w0) (run_callback cb k) = Inr w2"
    and part: "write_drivers ops (take i (drivers e)) w2 = Inr w" by auto
  have cycle: "run_cycle ops (drivers e) cb k w0 = write_drivers ops (drivers e) w2"
    by (simp add: run_cycle_alt w2)
  show ?thesis
  proof (cases "i < length (drivers e)")
    case True
    note round = write_drivers_round [OF True part]
    show ?thesis
    proof (cases "drivers e ! i")
      case None
      with step pc round True w2 show ?thesis by (auto simp: worker_step_def)
    next
      case (Some a)
      with step pc round True w2 cycle show ?thesis
        by (auto simp: worker_step_def res_bind_def split: sum.splits)
    qed
  qed (use step pc part cycle in \<open>auto simp: worker_step_def\<close>)
qed

lemma logic_step_plant:
  assumes pc: "worker_thread e = Logic"
    and w: "plant_at ops (drivers e) (cycle_callback e) (cycle_count e) w0 Logic w"
    and step: "worker_step ops now e w = Some (e', w', evs)"
  shows "plant_at ops (drivers e) (cycle_callback e) (cycle_count e) w0 (worker_thread e') w'"
proof (cases "cycle_callback e")
  case None
  with assms show ?thesis by (auto simp: worker_step_def run_callback_def)
next
  case (Some f)
  obtain res l m where call: "f (plant_logic w) (plant_map w) (cycle_count e) = (res, l, m)"
    using prod_cases3 by blast
  from assms Some call show ?thesis
    by (cases res) (auto simp: worker_step_def run_callback_def run_cycle_alt)
qed

lemma worker_step_cycles_at:
  assumes inv: "cycles_at ops e0 w0 n e w" and step: "worker_step ops now e w = Some (e', w', evs)"
  shows "\<exists>n'. cycles_at ops e0 w0 n' e' w'"
proof -
  note keeps = worker_step_keeps [OF step]
  have same: "cycles_at ops e0 w0 n e' w'"
    if "cycle_count e' = cycle_count e" and
      "\<And>w1. plant_at ops (drivers e) (cycle_callback e) (cycle_count e) w1 (worker_thread e) w \<Longrightarrow>
         plant_at ops (drivers e) (cycle_callback e) (cycle_count e) w1 (worker_thread e') w'"
    using inv that keeps by (auto simp: cycles_at_def)
  show ?thesis
  proof (cases "worker_thread e")
    case (Reading i)
    then have "cycle_count e' = cycle_count e"
      using step by (auto simp: worker_step_def split: worker_step_splits)
    with same reading_step_plant [OF Reading _ step] Reading show ?thesis by auto
  next
    case (Writing i)
    then have "cycle_count e' = cycle_count e"
      using step by (auto simp: worker_step_def split: worker_step_splits)
    with same writing_step_plant [OF Writing _ step] Writing show ?thesis by auto
  next
    case Logic
    then have "cycle_count e' = cycle_count e"
      using step by (auto simp: worker_step_def split: worker_step_splits)
    with same logic_step_plant [OF Logic _ step] Logic show ?thesis by auto
  next
    case Counting
    with inv step have "cycles_at ops e0 w0 (Suc n) e' w'"
      by (auto simp: cycles_at_def worker_step_def algebra_simps)
    then show ?thesis ..
  qed (use inv step same in \<open>auto simp: worker_step_def split: if_splits\<close>)
qed

text \<open>Without interference the owner and the clock do not touch the plant.\<close>

abbreviation undisturbed :: "('d, 'c) plant \<Rightarrow> ('d, 'c) plant \<Rightarrow> bool" where
  "undisturbed \<equiv> (\<lambda>w w'. False)"

lemma engine_step_cycles_at:
  assumes "engine_step ops undisturbed s evs t"
    and "cycles_at ops e0 w0 n (sys_engine s) (sys_plant s)"
  shows "\<exists>n'. cycles_at ops e0 w0 n' (sys_engine t) (sys_plant t)"
  using assms
proof (induction rule: engine_step.induct)
  case (worker_moves s e w evs)
  then show ?case using worker_step_cycles_at by simp blast
next
  case (stop_called s e pc)
  then have "cycles_at ops e0 w0 n e (sys_plant s)" by (auto simp: stop_begin_def cycles_at_def split: if_splits)
  then show ?case by auto
next
  case (stop_asks s e pc)
  then have "cycles_at ops e0 w0 n e (sys_plant s)" by (auto simp: stop_request_def cycles_at_def split: if_splits)
  then show ?case by auto
next
  case (stop_returns s e pc)
  then have "cycles_at ops e0 w0 n e (sys_plant s)" by (auto simp: stop_join_def cycles_at_def split: if_splits)
  then show ?case by auto
qed auto

lemma engine_run_cycles_at:
  assumes "engine_run ops undisturbed s evs t" and "just_started s"
  shows "\<exists>n. cycles_at ops (sys_engine s) (sys_plant s) n (sys_engine t) (sys_plant t)"
  using assms
proof (induction rule: engine_run.induct)
  case run_nil
  then have "cycles_at ops (sys_engine s) (sys_plant s) 0 (sys_engine s) (sys_plant s)"
    by (simp add: cycles_at_def just_started_def)
  then show ?case ..
qed (blast intro: engine_step_cycles_at)

section \<open>Drivers and logic that keep their contracts\<close>

text \<open>
  The contract of the cycle callback, on top of that of the drivers: on sound logic state and a valid
  map it returns, keeps both sound, and leaves \<open>%I\<close> alone.
\<close>

locale scan_engine = io_driver ops good
  for ops :: "'d driver_ops" and good :: "'d \<Rightarrow> bool" +
  fixes logic :: "'c cycle_callback" and sound :: "'c \<Rightarrow> bool"
  assumes logic_total: "sound c \<Longrightarrow> valid_memory m \<Longrightarrow> \<exists>c' m'. logic c m n = (Inr (), c', m')"
    and logic_good: "sound c \<Longrightarrow> valid_memory m \<Longrightarrow> logic c m n = (Inr (), c', m') \<Longrightarrow>
      sound c' \<and> valid_memory m' \<and> get_area m' Input = get_area m Input"
begin

definition plant_good :: "('d, 'c) plant \<Rightarrow> bool" where
  "plant_good w \<longleftrightarrow> (\<forall>a. good (plant_drivers w a)) \<and> valid_memory (plant_map w) \<and> sound (plant_logic w)"

definition engine_good :: "('d, 'c) engine_sys \<Rightarrow> bool" where
  "engine_good s \<longleftrightarrow> plant_good (sys_plant s) \<and> (\<forall>err. worker_thread (sys_engine s) \<noteq> Terminated err) \<and>
     (\<forall>f. cycle_callback (sys_engine s) = Some f \<longrightarrow> f = logic)"

lemma read_step_good:
  assumes "plant_good w"
  shows "\<exists>d m. op_read_inputs ops (plant_drivers w a) (plant_map w) = Inr (d, m) \<and>
    plant_good (w\<lparr>plant_drivers := (plant_drivers w)(a := d), plant_map := m\<rparr>) \<and>
    same_but_inputs (plant_map w) m"
  using assms read_inputs_total [of "plant_drivers w a" "plant_map w"]
    read_inputs_good [of "plant_drivers w a" "plant_map w"]
  by (fastforce simp: plant_good_def)

lemma write_step_good:
  assumes "plant_good w"
  shows "\<exists>d. op_write_outputs ops (plant_drivers w a) (plant_map w) = Inr d \<and>
    plant_good (w\<lparr>plant_drivers := (plant_drivers w)(a := d)\<rparr>)"
  using assms write_outputs_total [of "plant_drivers w a" "plant_map w"]
    write_outputs_good [of "plant_drivers w a" "plant_map w"]
  by (fastforce simp: plant_good_def)

lemma logic_step_good:
  assumes "plant_good w"
  shows "\<exists>l m. logic (plant_logic w) (plant_map w) n = (Inr (), l, m) \<and>
    plant_good (w\<lparr>plant_logic := l, plant_map := m\<rparr>) \<and> get_area m Input = get_area (plant_map w) Input"
  using assms logic_total [of "plant_logic w" "plant_map w" n]
    logic_good [of "plant_logic w" "plant_map w" n]
  by (fastforce simp: plant_good_def)

lemma worker_step_good:
  assumes good: "engine_good s"
    and step: "worker_step ops (sys_clock s) (sys_engine s) (sys_plant s) = Some (e, w, evs)"
  shows "engine_good (s\<lparr>sys_engine := e, sys_plant := w\<rparr>)"
proof -
  have plant: "plant_good (sys_plant s)" using good by (simp add: engine_good_def)
  have "plant_good w \<and> (\<forall>err. worker_thread e \<noteq> Terminated err)"
  proof (cases "worker_thread (sys_engine s)")
    case (Reading i)
    with step plant read_step_good [OF plant, of "the (drivers (sys_engine s) ! i)"] show ?thesis
      by (cases "drivers (sys_engine s) ! i") (auto simp: worker_step_def split: if_splits)
  next
    case (Writing i)
    with step plant write_step_good [OF plant, of "the (drivers (sys_engine s) ! i)"] show ?thesis
      by (cases "drivers (sys_engine s) ! i") (auto simp: worker_step_def split: if_splits)
  next
    case Logic
    with step plant good logic_step_good [OF plant, of "cycle_count (sys_engine s)"] show ?thesis
      by (cases "cycle_callback (sys_engine s)") (auto simp: worker_step_def engine_good_def)
  qed (use step plant good in \<open>auto simp: worker_step_def split: if_splits\<close>)
  with good worker_step_keeps(4) [OF step] show ?thesis by (simp add: engine_good_def)
qed

text \<open>Whatever other threads do to drivers and logic, if they keep them sound the worker never dies.\<close>

lemma engine_step_good:
  assumes "engine_step ops env s evs t" and "engine_good s"
    and "\<And>w w'. env w w' \<Longrightarrow> plant_good w \<Longrightarrow> plant_good w'"
  shows "engine_good t"
  using assms
proof (induction rule: engine_step.induct)
  case (worker_moves s e w evs)
  then show ?case using worker_step_good by blast
qed (auto simp: engine_good_def stop_begin_def stop_request_def stop_join_def split: if_splits)

lemma engine_run_good:
  assumes "engine_run ops env s evs t" and "engine_good s"
    and "\<And>w w'. env w w' \<Longrightarrow> plant_good w \<Longrightarrow> plant_good w'"
  shows "engine_good t"
  using assms by (induction rule: engine_run.induct) (blast intro: engine_step_good)+

lemma read_drivers_good:
  assumes "plant_good w"
  shows "\<exists>w'. read_drivers ops ps w = Inr w' \<and> plant_good w' \<and> same_but_inputs (plant_map w) (plant_map w') \<and>
    plant_logic w' = plant_logic w"
  using assms
proof (induction ps arbitrary: w)
  case (Cons p ps)
  show ?case
  proof (cases p)
    case None
    with Cons show ?thesis by simp
  next
    case (Some a)
    from read_step_good [OF Cons.prems, of a] obtain d m where
      step: "op_read_inputs ops (plant_drivers w a) (plant_map w) = Inr (d, m)"
      and good: "plant_good (w\<lparr>plant_drivers := (plant_drivers w)(a := d), plant_map := m\<rparr>)"
      and same: "same_but_inputs (plant_map w) m" by blast
    from Cons.IH [OF good] step same show ?thesis
      by (auto simp: Some res_bind_def intro: same_but_inputs_trans)
  qed
qed simp

lemma write_drivers_good:
  assumes "plant_good w"
  shows "\<exists>w'. write_drivers ops ps w = Inr w' \<and> plant_good w' \<and> plant_map w' = plant_map w \<and>
    plant_logic w' = plant_logic w"
  using assms
proof (induction ps arbitrary: w)
  case (Cons p ps)
  show ?case
  proof (cases p)
    case None
    with Cons show ?thesis by simp
  next
    case (Some a)
    from write_step_good [OF Cons.prems, of a] obtain d where
      step: "op_write_outputs ops (plant_drivers w a) (plant_map w) = Inr d"
      and good: "plant_good (w\<lparr>plant_drivers := (plant_drivers w)(a := d)\<rparr>)" by blast
    from Cons.IH [OF good] step show ?thesis by (auto simp: Some res_bind_def)
  qed
qed simp

text \<open>One cycle: the map afterwards is what the logic made of the map with fresh inputs.\<close>

lemma run_cycle_good:
  assumes "plant_good w"
  shows "\<exists>w1 l m w'. read_drivers ops ps w = Inr w1 \<and> same_but_inputs (plant_map w) (plant_map w1) \<and>
    logic (plant_logic w) (plant_map w1) n = (Inr (), l, m) \<and>
    get_area m Input = get_area (plant_map w1) Input \<and>
    run_cycle ops ps (Some logic) n w = Inr w' \<and> plant_map w' = m \<and> plant_logic w' = l \<and> plant_good w'"
proof -
  from read_drivers_good [OF assms, of ps] obtain w1 where w1: "read_drivers ops ps w = Inr w1"
    "plant_good w1" "same_but_inputs (plant_map w) (plant_map w1)" "plant_logic w1 = plant_logic w" by blast
  from logic_step_good [OF w1(2), of n] obtain l m where lm:
    "logic (plant_logic w1) (plant_map w1) n = (Inr (), l, m)"
    "plant_good (w1\<lparr>plant_logic := l, plant_map := m\<rparr>)"
    "get_area m Input = get_area (plant_map w1) Input" by blast
  from write_drivers_good [OF lm(2), of ps] w1 lm show ?thesis
    by (auto simp: run_cycle_def run_callback_def res_bind_def)
qed

lemma run_cycles_good:
  "plant_good w \<Longrightarrow> \<exists>w'. run_cycles ops ps (Some logic) c n w = Inr w' \<and> plant_good w'"
proof (induction n)
  case (Suc n)
  then obtain w' where "run_cycles ops ps (Some logic) c n w = Inr w'" "plant_good w'" by blast
  with run_cycle_good [of w' ps "c + of_nat n"] show ?case by (auto simp: res_bind_def)
qed simp

end

end
