(* ===== verification/Mock_Driver.thy ===== *)
theory Mock_Driver
  imports Io_Driver
begin

text \<open>
  The simulated hardware of \<open>mock_driver.hpp\<close> and \<open>mock_driver.cpp\<close>. The record holds the three
  members of the class and, as \<open>console\<close>, the lines this driver has written to \<open>std::cout\<close>.
\<close>

section \<open>State and operations\<close>

record mock_driver =
  print_changes :: bool
  mock_inputs :: "u8 list"
  previous_outputs :: "u8 list"
  console :: "string list"

definition MockDriver :: "bool \<Rightarrow> mock_driver" where
  "MockDriver prt =
     \<lparr>print_changes = prt, mock_inputs = replicate (unat INPUT_SIZE) 0,
      previous_outputs = replicate (unat OUTPUT_SIZE) 0, console = []\<rparr>"

definition mock_initialize :: "mock_driver \<Rightarrow> bool \<times> mock_driver" where
  "mock_initialize d =
     (True, d\<lparr>previous_outputs := replicate (length (previous_outputs d)) 0\<rparr>)"

definition mock_read_inputs :: "mock_driver \<Rightarrow> memory_map \<Rightarrow> (mock_driver \<times> memory_map) result" where
  "mock_read_inputs d m = res_bind (write_bytes m Input 0 (mock_inputs d)) (\<lambda>m'. Inr (d, m'))"

definition change_line :: "nat \<Rightarrow> u8 \<Rightarrow> u8 \<Rightarrow> string" where
  "change_line i old new =
     ''[MockDriver Output Change] %Q['' @ dec_string i @ '']: 0x'' @ hex_string (unat old)
       @ '' -> 0x'' @ hex_string (unat new)"

text \<open>The reporting loop from index \<open>i\<close> on; \<open>previous_outputs_[i]\<close> past its end is undefined.\<close>

fun report_changes :: "nat \<Rightarrow> u8 list \<Rightarrow> u8 list \<Rightarrow> string list result" where
  "report_changes i [] prev = Inr []"
| "report_changes i (c # cs) prev =
     res_bind (ptr_read prev i) (\<lambda>p.
     res_bind (report_changes (Suc i) cs prev) (\<lambda>rest.
       Inr (if c \<noteq> p then change_line i p c # rest else rest)))"

definition mock_write_outputs :: "mock_driver \<Rightarrow> memory_map \<Rightarrow> mock_driver result" where
  "mock_write_outputs d m =
     res_bind (get_area_snapshot m Output) (\<lambda>current_outputs.
     res_bind (if print_changes d then report_changes 0 current_outputs (previous_outputs d)
               else Inr []) (\<lambda>out.
       Inr (d\<lparr>previous_outputs := current_outputs, console := console d @ out\<rparr>)))"

definition set_mock_input_bit :: "mock_driver \<Rightarrow> size_t \<Rightarrow> u8 \<Rightarrow> bool \<Rightarrow> mock_driver" where
  "set_mock_input_bit d byte_offset bit_index v =
     (if unat byte_offset \<ge> length (mock_inputs d) \<or> bit_index > 7 then d
      else let b = mock_inputs d ! unat byte_offset in
        d\<lparr>mock_inputs := (mock_inputs d)[unat byte_offset :=
            (if v then u8_or_assign b (bit_mask bit_index)
             else u8_and_assign b (NOT (bit_mask bit_index)))]\<rparr>)"

definition toggle_mock_input_bit :: "mock_driver \<Rightarrow> size_t \<Rightarrow> u8 \<Rightarrow> mock_driver" where
  "toggle_mock_input_bit d byte_offset bit_index =
     (if unat byte_offset \<ge> length (mock_inputs d) \<or> bit_index > 7 then d
      else d\<lparr>mock_inputs := (mock_inputs d)[unat byte_offset :=
            u8_xor_assign (mock_inputs d ! unat byte_offset) (bit_mask bit_index)]\<rparr>)"

definition mock_ops :: "mock_driver driver_ops" where
  "mock_ops = \<lparr>op_initialize = mock_initialize, op_read_inputs = mock_read_inputs,
     op_write_outputs = mock_write_outputs\<rparr>"

section \<open>Invariant and behaviour\<close>

definition valid_mock :: "mock_driver \<Rightarrow> bool" where
  "valid_mock d \<longleftrightarrow> length (mock_inputs d) = 512 \<and> length (previous_outputs d) = 512"

lemma valid_MockDriver [valid_intros]: "valid_mock (MockDriver prt)"
  by (simp add: valid_mock_def MockDriver_def)

lemma valid_set_mock_input_bit [valid_intros]:
  "valid_mock d \<Longrightarrow> valid_mock (set_mock_input_bit d off i v)"
  by (simp add: valid_mock_def set_mock_input_bit_def Let_def)

lemma valid_toggle_mock_input_bit [valid_intros]:
  "valid_mock d \<Longrightarrow> valid_mock (toggle_mock_input_bit d off i)"
  by (simp add: valid_mock_def toggle_mock_input_bit_def)

lemma mock_read_inputs_eq:
  "valid_mock d \<Longrightarrow> valid_memory m
    \<Longrightarrow> mock_read_inputs d m = Inr (d, put_area m Input (mock_inputs d))"
  by (simp add: mock_read_inputs_def valid_mock_def write_bytes_no_wrap)

lemma filter_map_upt_shift:
  "map (\<lambda>j. f j ((c # cs) ! (j - i))) (filter (\<lambda>j. P j ((c # cs) ! (j - i))) [Suc i..<n]) =
   map (\<lambda>j. f j (cs ! (j - Suc i))) (filter (\<lambda>j. P j (cs ! (j - Suc i))) [Suc i..<n])"
proof -
  have shift: "(c # cs) ! (j - i) = cs ! (j - Suc i)" if "Suc i \<le> j" for j
    using that by (simp add: nth_Cons')
  show ?thesis by (rule map_cong [OF filter_cong]) (auto simp: shift)
qed

lemma report_changes_eq:
  assumes "i + length cs \<le> length prev"
  shows "report_changes i cs prev =
    Inr (map (\<lambda>j. change_line j (prev ! j) (cs ! (j - i)))
           (filter (\<lambda>j. cs ! (j - i) \<noteq> prev ! j) [i..<i + length cs]))"
  using assms
proof (induction cs arbitrary: i)
  case Nil
  then show ?case by simp
next
  case (Cons c cs)
  let ?line = "\<lambda>j x. change_line j (prev ! j) x" and ?differs = "\<lambda>j x. x \<noteq> prev ! j"
  have "[i..<i + length (c # cs)] = i # [Suc i..<Suc i + length cs]"
    by (simp add: upt_conv_Cons del: upt_Suc)
  then show ?case
    using Cons.prems Cons.IH [of "Suc i"]
      filter_map_upt_shift [of ?line c cs i ?differs "Suc i + length cs"]
    by (auto simp del: upt_Suc)
qed

lemma mock_write_outputs_eq:
  assumes "valid_mock d" and "valid_memory m"
  shows "mock_write_outputs d m =
    Inr (d\<lparr>previous_outputs := get_area m Output,
           console := console d @ (if print_changes d
             then map (\<lambda>j. change_line j (previous_outputs d ! j) (get_area m Output ! j))
               (filter (\<lambda>j. get_area m Output ! j \<noteq> previous_outputs d ! j) [0..<512]) else [])\<rparr>)"
  using assms report_changes_eq [of 0 "get_area m Output" "previous_outputs d"]
  by (simp add: mock_write_outputs_def valid_mock_def)

interpretation mock: io_driver mock_ops valid_mock
proof
  fix d :: mock_driver and m :: memory_map
  assume d: "valid_mock d"
  then show "valid_mock (snd (op_initialize mock_ops d))"
    by (simp add: mock_ops_def mock_initialize_def valid_mock_def)
  assume m: "valid_memory m"
  from d m show "\<exists>d' m'. op_read_inputs mock_ops d m = Inr (d', m')"
    by (simp add: mock_ops_def mock_read_inputs_eq)
  from d m show "\<exists>d'. op_write_outputs mock_ops d m = Inr d'"
    by (simp add: mock_ops_def mock_write_outputs_eq)
next
  fix d d' :: mock_driver and m m' :: memory_map
  assume d: "valid_mock d" and m: "valid_memory m"
  { assume "op_read_inputs mock_ops d m = Inr (d', m')"
    with d m show "valid_mock d' \<and> valid_memory m' \<and> same_but_inputs m m'"
      by (auto simp: mock_ops_def mock_read_inputs_eq same_but_inputs_def valid_mock_def
          intro!: valid_put_area) }
  { assume "op_write_outputs mock_ops d m = Inr d'"
    with d m show "valid_mock d'"
      by (auto simp: mock_ops_def mock_write_outputs_eq valid_mock_def) }
qed

section \<open>Properties\<close>

text \<open>
  A simulated input bit that is set inside the input area is what the logic reads after the
  driver's next \<open>read_inputs\<close>; every other input bit carries the simulated value it had, and \<open>%Q\<close>
  and \<open>%M\<close> are untouched.
\<close>

lemma set_input_then_read_inputs:
  assumes "valid_mock d" and "valid_memory m" and "unat off < 512" and "i \<le> 7"
    and "unat off' < 512" and "i' \<le> 7"
  shows "\<exists>m'. mock_read_inputs (set_mock_input_bit d off i v) m
        = Inr (set_mock_input_bit d off i v, m') \<and> same_but_inputs m m' \<and>
      read_bit m' Input off' i' =
        Inr (if off' = off \<and> i' = i then v else bit (mock_inputs d ! unat off') (unat i'))"
proof -
  let ?d = "set_mock_input_bit d off i v"
  let ?m = "put_area m Input (mock_inputs ?d)"
  have d: "valid_mock ?d" by (rule valid_set_mock_input_bit [OF assms(1)])
  have m: "valid_memory ?m"
    using assms(2) d by (auto simp: valid_mock_def intro!: valid_put_area)
  have inputs: "mock_inputs ?d = (mock_inputs d)[unat off := assign_bit (mock_inputs d ! unat off) i v]"
    using assms(1,3,4) by (auto simp: set_mock_input_bit_def valid_mock_def assign_bit_def Let_def)
  have "read_bit ?m Input off' i' = Inr (bit_view ?m (Input, off', i'))"
    using m by (rule read_bit_in_range) (use assms in simp)
  also have "bit_view ?m (Input, off', i') =
      (if off' = off \<and> i' = i then v else bit (mock_inputs d ! unat off') (unat i'))"
    using assms(1,3-6)
    by (auto simp: inputs valid_mock_def nth_list_update byte_bits unat_inject)
  finally show ?thesis
    using mock_read_inputs_eq [OF d assms(2)] by (auto simp: same_but_inputs_def)
qed

text \<open>
  \<open>write_outputs\<close> with reporting on prints one line per changed output byte, in ascending order
  of the byte, with the old and the new value, and remembers the outputs: a second call on the
  same map prints nothing and changes nothing.
\<close>

theorem write_outputs_reports_changes:
  assumes "valid_mock d" and "valid_memory m" and "print_changes d"
  shows "\<exists>d'. mock_write_outputs d m = Inr d' \<and> previous_outputs d' = get_area m Output \<and>
    console d' = console d @
      map (\<lambda>j. change_line j (previous_outputs d ! j) (get_area m Output ! j))
        (filter (\<lambda>j. get_area m Output ! j \<noteq> previous_outputs d ! j) [0..<512]) \<and>
    mock_write_outputs d' m = Inr d'"
proof -
  obtain d' where d': "mock_write_outputs d m = Inr d'"
    using mock_write_outputs_eq [OF assms(1,2)] by blast
  have v: "valid_mock d'"
    using mock.write_outputs_good [of d m d'] assms d' by (simp add: mock_ops_def)
  from d' assms show ?thesis
    using mock_write_outputs_eq [OF v assms(2)] by (auto simp: mock_write_outputs_eq)
qed

theorem write_outputs_reports_changes_witness:
  "\<exists>d'. mock_write_outputs (MockDriver True) new_memory_map = Inr d' \<and>
     mock_write_outputs d' new_memory_map = Inr d'"
  using write_outputs_reports_changes [OF valid_MockDriver [of True] valid_new_memory_map]
  by (auto simp: MockDriver_def)

text \<open>
  Toggling a simulated input bit twice is the identity, and \<open>set\<close> and \<open>toggle\<close> ignore a byte
  offset outside the input area and a bit index above 7.
\<close>

theorem toggle_twice_and_ignored:
  "toggle_mock_input_bit (toggle_mock_input_bit d off i) off i = d \<and>
   (unat off < length (mock_inputs d) \<and> i \<le> 7
     \<or> set_mock_input_bit d off i v = d \<and> toggle_mock_input_bit d off i = d)"
proof -
  have "u8_xor_assign (u8_xor_assign b (bit_mask i)) (bit_mask i) = b" if "i \<le> 7" for b
    using that by (intro u8_eq_by_bits) (auto simp: byte_bits)
  then show ?thesis
    by (auto simp: toggle_mock_input_bit_def set_mock_input_bit_def not_less not_le)
qed

end
