(* ===== verification/Json_Value.thy ===== *)
theory Json_Value
  imports Aslc_Prelude
begin

text \<open>
  JSON documents as the code sees them. The sources use nlohmann's library for them; its value kinds
  (null, boolean, signed and unsigned 64-bit integer, floating point, string, array, object) are the
  constructors here, and the queries the parser makes (\<open>is_object\<close>, \<open>contains\<close>, \<open>at\<close>, ...) read them
  off. Turning text into a value and back is the library's own work: where the code calls it,
  it is a parameter of the model. A floating-point number is kept as its bit pattern and is never
  looked into.
\<close>

datatype json =
    J_null
  | J_bool bool
  | J_int u64
  | J_uint u64
  | J_float u64
  | J_string string
  | J_array "json list"
  | J_object "(string \<times> json) list"

fun is_object :: "json \<Rightarrow> bool" where
  "is_object (J_object _) = True"
| "is_object _ = False"

fun is_array :: "json \<Rightarrow> bool" where
  "is_array (J_array _) = True"
| "is_array _ = False"

fun is_string :: "json \<Rightarrow> bool" where
  "is_string (J_string _) = True"
| "is_string _ = False"

fun is_number_integer :: "json \<Rightarrow> bool" where
  "is_number_integer (J_int _) = True"
| "is_number_integer (J_uint _) = True"
| "is_number_integer _ = False"

text \<open>The fields of an object, the elements of an array, and none of a value of another kind.\<close>

fun json_fields :: "json \<Rightarrow> (string \<times> json) list" where
  "json_fields (J_object kvs) = kvs"
| "json_fields _ = []"

fun json_elems :: "json \<Rightarrow> json list" where
  "json_elems (J_array js) = js"
| "json_elems _ = []"

definition contains :: "json \<Rightarrow> string \<Rightarrow> bool" where
  "contains j key \<longleftrightarrow> key \<in> fst ` set (json_fields j)"

definition json_at :: "json \<Rightarrow> string \<Rightarrow> json" where
  "json_at j key = the (map_of (json_fields j) key)"

fun get_string :: "json \<Rightarrow> string" where
  "get_string (J_string s) = s"
| "get_string _ = []"

text \<open>\<open>get<int64_t>()\<close> of an integer: an unsigned value is converted like a cast, so it may turn negative.\<close>

fun get_int64 :: "json \<Rightarrow> int" where
  "get_int64 (J_int w) = sint w"
| "get_int64 (J_uint w) = sint w"
| "get_int64 _ = 0"

lemma contains_at: "contains j key \<Longrightarrow> (key, json_at j key) \<in> set (json_fields j)"
  by (metis contains_def json_at_def map_of_SomeD map_of_eq_None_iff option.collapse)

lemma size_field: "(key, v) \<in> set kvs \<Longrightarrow> size v < size (J_object kvs)"
  by (induction kvs) auto

lemma size_json_at: "contains j key \<Longrightarrow> size (json_at j key) < size j"
  using contains_at [of j key] size_field by (cases j) auto

lemma size_json_elems: "size_list size (json_elems j) \<le> size j"
  by (cases j) simp_all

lemma get_int64_range: "- (2 ^ 63) \<le> get_int64 j \<and> get_int64 j < 2 ^ 63"
proof -
  have "- (2 ^ 63) \<le> sint w \<and> sint w < 2 ^ 63" for w :: u64
    using sint_greater_eq [of w] sint_less [of w] by simp
  then show ?thesis by (cases j) simp_all
qed

end
