(* ===== verification/Logic_Nodes.thy ===== *)
theory Logic_Nodes
  imports Memory_Map
begin

text \<open>
  The condition trees of \<open>logic_interpreter.hpp\<close> and \<open>logic_interpreter.cpp\<close> and the execution of a
  program's rules. \<open>evaluate\<close> is a non-const method: it returns the outcome together with the node
  as the call leaves it, also when the call ends in an exception half way through the tree.
\<close>

section \<open>Nodes, rules, programs\<close>

record signal_ref =
  sr_node :: "string option"
  sr_area :: memory_area
  sr_byte :: size_t
  sr_bit :: u8

text \<open>
  \<open>TonTimerNode input preset_ms period_ms elapsed_cycles\<close>; the other constructors hold the members
  of the classes of the same names.
\<close>

datatype logic_node =
    SignalRefNode signal_ref
  | AndNode "logic_node list"
  | OrNode "logic_node list"
  | NotNode logic_node
  | TonTimerNode logic_node u64 u64 u64

definition new_ton_timer :: "logic_node \<Rightarrow> u64 \<Rightarrow> int \<Rightarrow> logic_node" where
  "new_ton_timer input preset_ms period = TonTimerNode input preset_ms (word_of_int period) 0"

record rule =
  rule_id :: string
  rule_output :: signal_ref
  rule_condition :: logic_node

type_synonym logic_program = "rule list"

section \<open>Evaluation\<close>

fun evaluate :: "logic_node \<Rightarrow> memory_map \<Rightarrow> bool result \<times> logic_node"
  and eval_and :: "logic_node list \<Rightarrow> bool \<Rightarrow> memory_map \<Rightarrow> bool result \<times> logic_node list"
  and eval_or :: "logic_node list \<Rightarrow> bool \<Rightarrow> memory_map \<Rightarrow> bool result \<times> logic_node list"
  where
  "evaluate (SignalRefNode r) mem = (read_bit mem (sr_area r) (sr_byte r) (sr_bit r), SignalRefNode r)"
| "evaluate (AndNode inputs) mem =
     (case eval_and inputs True mem of (res, inputs') \<Rightarrow> (res, AndNode inputs'))"
| "evaluate (OrNode inputs) mem =
     (case eval_or inputs False mem of (res, inputs') \<Rightarrow> (res, OrNode inputs'))"
| "evaluate (NotNode input) mem =
     (case evaluate input mem of
        (Inl e, input') \<Rightarrow> (Inl e, NotNode input')
      | (Inr b, input') \<Rightarrow> (Inr (\<not> b), NotNode input'))"
| "evaluate (TonTimerNode input preset_ms period_ms elapsed_cycles) mem =
     (case evaluate input mem of
        (Inl e, input') \<Rightarrow> (Inl e, TonTimerNode input' preset_ms period_ms elapsed_cycles)
      | (Inr b, input') \<Rightarrow>
          if \<not> b then (Inr False, TonTimerNode input' preset_ms period_ms 0)
          else let elapsed = elapsed_cycles + 1 in
            (Inr (elapsed * period_ms \<ge> preset_ms),
             TonTimerNode input' preset_ms period_ms elapsed))"
| "eval_and [] result mem = (Inr result, [])"
| "eval_and (c # cs) result mem =
     (case evaluate c mem of
        (Inl e, c') \<Rightarrow> (Inl e, c' # cs)
      | (Inr b, c') \<Rightarrow>
          (case eval_and cs (b \<and> result) mem of (res, cs') \<Rightarrow> (res, c' # cs')))"
| "eval_or [] result mem = (Inr result, [])"
| "eval_or (c # cs) result mem =
     (case evaluate c mem of
        (Inl e, c') \<Rightarrow> (Inl e, c' # cs)
      | (Inr b, c') \<Rightarrow>
          (case eval_or cs (b \<or> result) mem of (res, cs') \<Rightarrow> (res, c' # cs')))"

text \<open>
  \<open>LogicProgram::execute\<close>: the outcome, the program with its nodes as the run leaves them, and the
  map. An exception leaves the writes of the rules before it in place.
\<close>

fun execute :: "logic_program \<Rightarrow> memory_map \<Rightarrow> unit result \<times> logic_program \<times> memory_map" where
  "execute [] mem = (Inr (), [], mem)"
| "execute (r # rs) mem =
     (case evaluate (rule_condition r) mem of (res, cond) \<Rightarrow>
       let r' = r\<lparr>rule_condition := cond\<rparr>; out = rule_output r in
       (case res of
          Inl e \<Rightarrow> (Inl e, r' # rs, mem)
        | Inr b \<Rightarrow>
            (case write_bit mem (sr_area out) (sr_byte out) (sr_bit out) b of
               Inl e \<Rightarrow> (Inl e, r' # rs, mem)
             | Inr mem' \<Rightarrow>
                 (case execute rs mem' of (res', rs', mem'') \<Rightarrow> (res', r' # rs', mem'')))))"

definition rule_count :: "logic_program \<Rightarrow> nat" where
  "rule_count p = length p"

section \<open>The reference semantics\<close>

text \<open>
  What a condition means, without an order of evaluation: its value over a valuation of the bits,
  and the tree after one scan, in which every timer has moved.
\<close>

type_synonym bit_env = "bit_addr \<Rightarrow> bool"

definition ref_addr :: "signal_ref \<Rightarrow> bit_addr" where
  "ref_addr r = (sr_area r, sr_byte r, sr_bit r)"

fun node_value :: "bit_env \<Rightarrow> logic_node \<Rightarrow> bool" where
  "node_value env (SignalRefNode r) = env (ref_addr r)"
| "node_value env (AndNode cs) = list_all (node_value env) cs"
| "node_value env (OrNode cs) = list_ex (node_value env) cs"
| "node_value env (NotNode c) = (\<not> node_value env c)"
| "node_value env (TonTimerNode c preset period elapsed) =
     (node_value env c \<and> preset \<le> (elapsed + 1) * period)"

fun node_tick :: "bit_env \<Rightarrow> logic_node \<Rightarrow> logic_node" where
  "node_tick env (SignalRefNode r) = SignalRefNode r"
| "node_tick env (AndNode cs) = AndNode (map (node_tick env) cs)"
| "node_tick env (OrNode cs) = OrNode (map (node_tick env) cs)"
| "node_tick env (NotNode c) = NotNode (node_tick env c)"
| "node_tick env (TonTimerNode c preset period elapsed) =
     TonTimerNode (node_tick env c) preset period (if node_value env c then elapsed + 1 else 0)"

text \<open>Signal references inside the map; a program may not write the input area.\<close>

definition wf_ref :: "signal_ref \<Rightarrow> bool" where
  "wf_ref r \<longleftrightarrow> bit_in_range (ref_addr r)"

fun wf_node :: "logic_node \<Rightarrow> bool" where
  "wf_node (SignalRefNode r) = wf_ref r"
| "wf_node (AndNode cs) = list_all wf_node cs"
| "wf_node (OrNode cs) = list_all wf_node cs"
| "wf_node (NotNode c) = wf_node c"
| "wf_node (TonTimerNode c preset period elapsed) = wf_node c"

definition wf_rule :: "rule \<Rightarrow> bool" where
  "wf_rule r \<longleftrightarrow> wf_ref (rule_output r) \<and> sr_area (rule_output r) \<noteq> Input \<and> wf_node (rule_condition r)"

definition wf_program :: "logic_program \<Rightarrow> bool" where
  "wf_program p \<longleftrightarrow> list_all wf_rule p"

text \<open>One scan over a valuation: each rule sees the bits the rules before it have written.\<close>

definition out_addr :: "rule \<Rightarrow> bit_addr" where
  "out_addr r = ref_addr (rule_output r)"

fun rule_results :: "logic_program \<Rightarrow> bit_env \<Rightarrow> bool list" where
  "rule_results [] env = []"
| "rule_results (r # rs) env =
     (let b = node_value env (rule_condition r) in b # rule_results rs (env(out_addr r := b)))"

fun scan_env :: "logic_program \<Rightarrow> bit_env \<Rightarrow> bit_env" where
  "scan_env [] env = env"
| "scan_env (r # rs) env =
     scan_env rs (env(out_addr r := node_value env (rule_condition r)))"

fun scan_tick :: "logic_program \<Rightarrow> bit_env \<Rightarrow> logic_program" where
  "scan_tick [] env = []"
| "scan_tick (r # rs) env =
     r\<lparr>rule_condition := node_tick env (rule_condition r)\<rparr>
       # scan_tick rs (env(out_addr r := node_value env (rule_condition r)))"

section \<open>Evaluation implements the reference semantics\<close>

lemma evaluate_refines:
  "valid_memory mem \<Longrightarrow> wf_node n \<Longrightarrow>
    evaluate n mem = (Inr (node_value (bit_view mem) n), node_tick (bit_view mem) n)"
  "valid_memory mem \<Longrightarrow> list_all wf_node cs \<Longrightarrow>
    eval_and cs b mem =
      (Inr (list_all (node_value (bit_view mem)) cs \<and> b), map (node_tick (bit_view mem)) cs)"
  "valid_memory mem \<Longrightarrow> list_all wf_node cs \<Longrightarrow>
    eval_or cs b mem =
      (Inr (list_ex (node_value (bit_view mem)) cs \<or> b), map (node_tick (bit_view mem)) cs)"
proof (induction n mem and cs b mem and cs b mem rule: evaluate_eval_and_eval_or.induct)
  case (1 r mem)
  then show ?case
    using read_bit_in_range [of mem "sr_area r" "sr_byte r" "sr_bit r"]
    by (simp add: wf_ref_def ref_addr_def)
qed (auto simp: Let_def)

lemma node_value_cong:
  "wf_node n \<Longrightarrow> (\<And>a. bit_in_range a \<Longrightarrow> env a = env' a) \<Longrightarrow> node_value env n = node_value env' n"
  by (induction n) (auto simp: wf_ref_def list_all_iff list_ex_iff)

lemma node_tick_cong:
  "wf_node n \<Longrightarrow> (\<And>a. bit_in_range a \<Longrightarrow> env a = env' a) \<Longrightarrow> node_tick env n = node_tick env' n"
  by (induction n) (auto simp: list_all_iff node_value_cong [of _ env env'])

lemma wf_node_tick [simp]: "wf_node (node_tick env n) = wf_node n"
  by (induction n) (auto simp: list_all_iff)

end
