(* ===== verification/Logic_Parser.thy ===== *)
theory Logic_Parser
  imports Json_Value Logic_Nodes
begin

text \<open>
  The parser of logic documents in \<open>logic_interpreter.cpp\<close>, with its error messages and the order in
  which it looks at the fields. \<open>path\<close> is the position in the document the messages start with.
  The loop over an \<open>inputs\<close> array is \<open>parse_children\<close>, the loop over the rules \<open>parse_rules\<close>.
\<close>

section \<open>Fields and signal references\<close>

definition parse_error :: "string \<Rightarrow> 'a result" where
  "parse_error msg = Inl (Logic_parse_error msg)"

definition parse_area :: "string \<Rightarrow> string \<Rightarrow> memory_area result" where
  "parse_area s path =
     (if s = ''I'' then Inr Input
      else if s = ''Q'' then Inr Output
      else if s = ''M'' then Inr Memory
      else parse_error (path @ '': unknown area '' @ single_quoted s @ '' (expected ''
        @ double_quoted ''I'' @ '', '' @ double_quoted ''Q'' @ '', or '' @ double_quoted ''M'' @ '')''))"

fun area_size :: "memory_area \<Rightarrow> size_t" where
  "area_size Input = INPUT_SIZE"
| "area_size Output = OUTPUT_SIZE"
| "area_size Memory = MEMORY_SIZE"

definition is_alnum :: "char \<Rightarrow> bool" where
  "is_alnum c \<longleftrightarrow> (let n = (of_char c :: nat) in
     48 \<le> n \<and> n \<le> 57 \<or> 65 \<le> n \<and> n \<le> 90 \<or> 97 \<le> n \<and> n \<le> 122)"

definition is_valid_node_uid_format :: "string \<Rightarrow> bool" where
  "is_valid_node_uid_format s \<longleftrightarrow>
     \<not> (length s \<noteq> 2 \<and> length s \<noteq> 4 \<and> length s \<noteq> 8) \<and> list_all is_alnum s"

definition require_field :: "json \<Rightarrow> string \<Rightarrow> string \<Rightarrow> json result" where
  "require_field j key path =
     (if \<not> contains j key
      then parse_error (path @ '': missing required field '' @ single_quoted key)
      else Inr (json_at j key))"

definition require_int :: "json \<Rightarrow> string \<Rightarrow> string \<Rightarrow> int result" where
  "require_int j key path =
     res_bind (require_field j key path) (\<lambda>field.
       if \<not> is_number_integer field
       then parse_error (path @ ''.'' @ key @ '': expected an integer'')
       else Inr (get_int64 field))"

definition require_string :: "json \<Rightarrow> string \<Rightarrow> string \<Rightarrow> string result" where
  "require_string j key path =
     res_bind (require_field j key path) (\<lambda>field.
       if \<not> is_string field
       then parse_error (path @ ''.'' @ key @ '': expected a string'')
       else Inr (get_string field))"

text \<open>The part of \<open>parse_signal_ref\<close> that looks at a \<open>node\<close> field: it never lets one pass.\<close>

definition reject_node :: "json \<Rightarrow> string \<Rightarrow> 'a result" where
  "reject_node node_field path =
     (if \<not> is_string node_field then parse_error (path @ ''.node: expected a string'')
      else let node_id = get_string node_field in
        if \<not> is_valid_node_uid_format node_id
        then parse_error (path @ ''.node: '' @ single_quoted node_id
          @ '' is not a valid node UID (expected 2, 4, or 8 alphanumeric characters)'')
        else parse_error (path @ ''.node: remote signal references are not supported yet -- ''
          @ ''hive IO forwarding is a future feature; omit '' @ single_quoted ''node''
          @ '' to reference this board'' @ [CHR 0x27] @ ''s own memory map''))"

definition parse_signal_ref :: "json \<Rightarrow> string \<Rightarrow> bool \<Rightarrow> signal_ref result" where
  "parse_signal_ref j path allow_input_area =
     (if \<not> is_object j then parse_error (path @ '': expected a signal reference object'')
      else if contains j ''node'' then reject_node (json_at j ''node'') path
      else
        res_bind (require_string j ''area'' path) (\<lambda>area_str.
        res_bind (parse_area area_str (path @ ''.area'')) (\<lambda>area.
        if \<not> allow_input_area \<and> area = Input
        then parse_error (path @ ''.area: rule outputs cannot target %I (reserved for driver writes)'')
        else
        res_bind (require_int j ''byte'' path) (\<lambda>byte.
        if byte < 0 \<or> (word_of_int byte :: size_t) \<ge> area_size area
        then parse_error (path @ ''.byte: '' @ dec_string_int byte
          @ '' is out of range for this area (0..'' @ dec_string (unat (area_size area - 1)) @ '')'')
        else
        res_bind (require_int j ''bit'' path) (\<lambda>bit.
        if bit < 0 \<or> bit > 7
        then parse_error (path @ ''.bit: '' @ dec_string_int bit @ '' must be 0..7'')
        else Inr \<lparr>sr_node = None, sr_area = area, sr_byte = word_of_int byte,
                  sr_bit = word_of_int bit\<rparr>)))))"

section \<open>Conditions\<close>

lemma size_require_field: "require_field j key path = Inr v \<Longrightarrow> size v < size j"
  by (auto simp: require_field_def parse_error_def size_json_at split: if_splits)

definition child_path :: "string \<Rightarrow> nat \<Rightarrow> string" where
  "child_path path i = path @ ''.inputs['' @ dec_string i @ '']''"

function parse_condition_node :: "json \<Rightarrow> int \<Rightarrow> string \<Rightarrow> logic_node result"
  and parse_bool_combinator :: "json \<Rightarrow> int \<Rightarrow> string \<Rightarrow> bool \<Rightarrow> logic_node result"
  and parse_children :: "json list \<Rightarrow> nat \<Rightarrow> int \<Rightarrow> string \<Rightarrow> logic_node list result"
  where
  "parse_condition_node j period path =
     (if \<not> is_object j then parse_error (path @ '': expected a condition node object'')
      else
        res_bind (require_string j ''type'' path) (\<lambda>type.
        if type = ''INPUT'' then
          res_bind (parse_signal_ref j path True) (\<lambda>r. Inr (SignalRefNode r))
        else if type = ''AND'' then parse_bool_combinator j period path True
        else if type = ''OR'' then parse_bool_combinator j period path False
        else if type = ''NOT'' then
          res_bind (require_field j ''input'' path) (\<lambda>field.
          res_bind (parse_condition_node field period (path @ ''.input'')) (\<lambda>child.
            Inr (NotNode child)))
        else if type = ''TON_TIMER'' then
          res_bind (require_field j ''input'' path) (\<lambda>field.
          res_bind (parse_condition_node field period (path @ ''.input'')) (\<lambda>child.
          res_bind (require_int j ''preset_ms'' path) (\<lambda>preset_ms.
            if preset_ms < 0 then parse_error (path @ ''.preset_ms: must be >= 0'')
            else Inr (new_ton_timer child (word_of_int preset_ms) period))))
        else parse_error (path @ ''.type: unknown node type '' @ single_quoted type)))"
| "parse_bool_combinator j period path is_and =
     res_bind (require_field j ''inputs'' path) (\<lambda>inputs_field.
       if \<not> is_array inputs_field \<or> json_elems inputs_field = []
       then parse_error (path @ ''.inputs: expected a non-empty array'')
       else
         res_bind (parse_children (json_elems inputs_field) 0 period path) (\<lambda>children.
           if is_and then Inr (AndNode children) else Inr (OrNode children)))"
| "parse_children [] i period path = Inr []"
| "parse_children (j # js) i period path =
     res_bind (parse_condition_node j period (child_path path i)) (\<lambda>child.
     res_bind (parse_children js (Suc i) period path) (\<lambda>children. Inr (child # children)))"
  by pat_completeness auto

termination
  by (relation "measure (\<lambda>x. case x of
        Inl (j, _) \<Rightarrow> 2 * size j + 1
      | Inr (Inl (j, _)) \<Rightarrow> 2 * size j
      | Inr (Inr (js, _)) \<Rightarrow> 2 * size_list size js + 1)")
    (auto dest!: size_require_field dest: le_less_trans [OF size_json_elems])

declare parse_condition_node.simps [simp del] parse_bool_combinator.simps [simp del]

section \<open>Rules and documents\<close>

definition rule_path :: "nat \<Rightarrow> string" where
  "rule_path index = ''rules['' @ dec_string index @ '']''"

definition parse_rule :: "json \<Rightarrow> nat \<Rightarrow> int \<Rightarrow> rule result" where
  "parse_rule j index period =
     (let path = rule_path index in
      if \<not> is_object j then parse_error (path @ '': expected a rule object'')
      else
        res_bind (if contains j ''id'' then require_string j ''id'' path else Inr path) (\<lambda>id.
        res_bind (require_field j ''output'' path) (\<lambda>output_field.
        res_bind (parse_signal_ref output_field (path @ ''.output'') False) (\<lambda>output.
        res_bind (require_field j ''condition'' path) (\<lambda>condition_field.
        res_bind (parse_condition_node condition_field period (path @ ''.condition'')) (\<lambda>condition.
          Inr \<lparr>rule_id = id, rule_output = output, rule_condition = condition\<rparr>))))))"

fun parse_rules :: "json list \<Rightarrow> nat \<Rightarrow> int \<Rightarrow> rule list result" where
  "parse_rules [] i period = Inr []"
| "parse_rules (j # js) i period =
     res_bind (parse_rule j i period) (\<lambda>r.
     res_bind (parse_rules js (Suc i) period) (\<lambda>rs. Inr (r # rs)))"

definition from_json :: "json \<Rightarrow> int \<Rightarrow> logic_program result" where
  "from_json doc period =
     (if \<not> is_object doc then parse_error ''document: expected a JSON object''
      else
        res_bind (require_field doc ''rules'' ''document'') (\<lambda>rules_field.
          if \<not> is_array rules_field then parse_error ''document.rules: expected an array''
          else parse_rules (json_elems rules_field) 0 period))"

text \<open>
  \<open>LogicProgram::from_file\<close>. Reading the file and parsing its text are parameters: \<open>open_file\<close> gives
  the contents of a file that can be opened, \<open>json_parse\<close> a document or the parser's message.
\<close>

definition from_file ::
  "(string \<Rightarrow> string option) \<Rightarrow> (string \<Rightarrow> string + json) \<Rightarrow> string \<Rightarrow> int \<Rightarrow> logic_program result" where
  "from_file open_file json_parse path period =
     (case open_file path of
        None \<Rightarrow> parse_error (''could not open logic file: '' @ path)
      | Some txt \<Rightarrow>
          (case json_parse txt of
             Inl what \<Rightarrow> parse_error (''failed to parse '' @ path @ '': '' @ what)
           | Inr doc \<Rightarrow> from_json doc period))"

end
