(* ===== verification/Logic_Scan.thy ===== *)
theory Logic_Scan
  imports Logic_Nodes
begin

text \<open>
  Execution of a whole program implements one scan of the reference semantics, bit by bit; what a
  scan leaves alone; the on-delay timer over a run of scans.
\<close>

section \<open>One scan\<close>

lemma rule_results_cong:
  "wf_program p \<Longrightarrow> (\<And>a. bit_in_range a \<Longrightarrow> env a = env' a) \<Longrightarrow> rule_results p env = rule_results p env'"
proof (induction p arbitrary: env env')
  case Nil
  then show ?case by simp
next
  case (Cons r rs)
  from Cons.prems have v: "node_value env (rule_condition r) = node_value env' (rule_condition r)"
    by (intro node_value_cong) (auto simp: wf_program_def wf_rule_def)
  have "rule_results rs (env(out_addr r := b)) = rule_results rs (env'(out_addr r := b))" for b
    by (rule Cons.IH) (use Cons.prems in \<open>auto simp: wf_program_def\<close>)
  with v show ?case by (simp add: Let_def)
qed

lemma scan_tick_cong:
  "wf_program p \<Longrightarrow> (\<And>a. bit_in_range a \<Longrightarrow> env a = env' a) \<Longrightarrow> scan_tick p env = scan_tick p env'"
proof (induction p arbitrary: env env')
  case Nil
  then show ?case by simp
next
  case (Cons r rs)
  from Cons.prems have v: "node_value env (rule_condition r) = node_value env' (rule_condition r)"
    and t: "node_tick env (rule_condition r) = node_tick env' (rule_condition r)"
    by (auto intro!: node_value_cong node_tick_cong simp: wf_program_def wf_rule_def)
  have "scan_tick rs (env(out_addr r := b)) = scan_tick rs (env'(out_addr r := b))" for b
    by (rule Cons.IH) (use Cons.prems in \<open>auto simp: wf_program_def\<close>)
  with v t show ?case by simp
qed

lemma length_rule_results [simp]: "length (rule_results p env) = length p"
  by (induction p arbitrary: env) (simp_all add: Let_def)

lemma scan_env_last_write: "scan_env p env = last_write (zip (map out_addr p) (rule_results p env)) env"
  by (induction p arbitrary: env) (simp_all add: Let_def last_write_Cons)

lemma scan_env_other: "a \<notin> out_addr ` set p \<Longrightarrow> scan_env p env a = env a"
  by (induction p arbitrary: env) auto

lemma scan_tick_outputs [simp]: "map rule_output (scan_tick p env) = map rule_output p"
  by (induction p arbitrary: env) simp_all

lemma wf_scan_tick [simp]: "wf_program (scan_tick p env) = wf_program p"
  by (induction p arbitrary: env) (simp_all add: wf_program_def wf_rule_def)

text \<open>
  The run of a well-formed program is the run of its output writes, with the values of the
  reference semantics.
\<close>

lemma execute_put_seq:
  "valid_memory mem \<Longrightarrow> wf_program p \<Longrightarrow>
    \<exists>mem'. put_seq put_bit_at mem (zip (map out_addr p) (rule_results p (bit_view mem))) = Inr mem' \<and>
      execute p mem = (Inr (), scan_tick p (bit_view mem), mem')"
proof (induction p arbitrary: mem)
  case Nil
  then show ?case by simp
next
  case (Cons r rs)
  let ?b = "node_value (bit_view mem) (rule_condition r)"
  from Cons.prems have wf: "wf_rule r" "wf_program rs" by (simp_all add: wf_program_def)
  then have range: "bit_in_range (out_addr r)" and cond: "wf_node (rule_condition r)"
    by (simp_all add: wf_rule_def wf_ref_def out_addr_def)
  obtain mem1 where put: "put_bit_at mem (out_addr r) ?b = Inr mem1" and v1: "valid_memory mem1"
    using mm.put_total [OF Cons.prems(1) range] mm.put_valid [OF Cons.prems(1)] by metis
  have view: "bit_view mem1 a = ((bit_view mem)(out_addr r := ?b)) a" if "bit_in_range a" for a
    using mm.put_view [OF Cons.prems(1) range put that] by simp
  have "rule_results rs (bit_view mem1) = rule_results rs ((bit_view mem)(out_addr r := ?b))"
    by (rule rule_results_cong [OF wf(2)]) (rule view)
  moreover have "scan_tick rs (bit_view mem1) = scan_tick rs ((bit_view mem)(out_addr r := ?b))"
    by (rule scan_tick_cong [OF wf(2)]) (rule view)
  ultimately show ?case
    using Cons.IH [OF v1 wf(2)] put evaluate_refines(1) [OF Cons.prems(1) cond]
    by (auto simp: Let_def out_addr_def ref_addr_def)
qed

lemma out_addrs_in_range:
  assumes "wf_program p" and "a \<in> fst ` set (zip (map out_addr p) bs)"
  shows "bit_in_range a"
proof -
  from assms(2) have "a \<in> set (map out_addr p)" by (auto dest: set_zip_leftD simp del: set_map)
  with assms(1) show ?thesis
    by (auto simp del: bit_in_range.simps
        simp add: wf_program_def wf_rule_def wf_ref_def out_addr_def list_all_iff)
qed

lemma execute_refines:
  assumes "valid_memory mem" and "wf_program p"
  shows "\<exists>mem'. execute p mem = (Inr (), scan_tick p (bit_view mem), mem') \<and> valid_memory mem' \<and>
    (\<forall>a. bit_in_range a \<longrightarrow> bit_view mem' a = scan_env p (bit_view mem) a)"
proof -
  let ?ws = "zip (map out_addr p) (rule_results p (bit_view mem))"
  have range: "\<And>a. a \<in> fst ` set ?ws \<Longrightarrow> bit_in_range a"
    by (rule out_addrs_in_range [OF assms(2)])
  obtain mem' where put: "put_seq put_bit_at mem ?ws = Inr mem'"
    and ex: "execute p mem = (Inr (), scan_tick p (bit_view mem), mem')"
    using execute_put_seq [OF assms] by blast
  have "valid_memory mem'"
    using mm.put_seq_total [OF assms(1), of ?ws, OF range] put by auto
  moreover have "bit_view mem' a = scan_env p (bit_view mem) a" if "bit_in_range a" for a
    using mm.put_seq_view [OF assms(1) range put that] by (simp add: scan_env_last_write)
  ultimately show ?thesis using ex by blast
qed

text \<open>A write outside \<open>%I\<close> leaves the input area alone.\<close>

lemma write_bit_other_area:
  "valid_memory m \<Longrightarrow> write_bit m a off i v = Inr m' \<Longrightarrow> a \<noteq> a' \<Longrightarrow> get_area m' a' = get_area m a'"
  by (auto simp: write_bit_cases split: if_splits)

lemma execute_keeps_inputs:
  "valid_memory mem \<Longrightarrow> wf_program p \<Longrightarrow> execute p mem = (res, p', mem')
    \<Longrightarrow> get_area mem' Input = get_area mem Input"
proof (induction p arbitrary: mem res p' mem')
  case Nil
  then show ?case by simp
next
  case (Cons r rs)
  from Cons.prems have wf: "wf_rule r" "wf_program rs" by (simp_all add: wf_program_def)
  then have out: "sr_area (rule_output r) \<noteq> Input" "bit_in_range (out_addr r)"
    and cond: "wf_node (rule_condition r)"
    by (simp_all add: wf_rule_def wf_ref_def out_addr_def)
  obtain mem1 where w: "put_bit_at mem (out_addr r)
      (node_value (bit_view mem) (rule_condition r)) = Inr mem1"
    using mm.put_total [OF Cons.prems(1) out(2)] by blast
  have v1: "valid_memory mem1" by (rule mm.put_valid [OF Cons.prems(1) w])
  from w have w': "write_bit mem (sr_area (rule_output r)) (sr_byte (rule_output r))
      (sr_bit (rule_output r)) (node_value (bit_view mem) (rule_condition r)) = Inr mem1"
    by (simp add: out_addr_def ref_addr_def)
  obtain res1 rs1 mem2 where rest: "execute rs mem1 = (res1, rs1, mem2)" by (cases "execute rs mem1")
  from Cons.prems(3) rest w' evaluate_refines(1) [OF Cons.prems(1) cond] have "mem' = mem2"
    by (simp add: Let_def)
  with Cons.IH [OF v1 wf(2) rest] write_bit_other_area [OF Cons.prems(1) w'] out(1)
  show ?case by simp
qed

section \<open>The on-delay timer over several scans\<close>

text \<open>The outcomes of a node over a sequence of maps, one call per scan.\<close>

fun eval_seq :: "logic_node \<Rightarrow> memory_map list \<Rightarrow> bool result list \<times> logic_node" where
  "eval_seq n [] = ([], n)"
| "eval_seq n (m # ms) =
     (case evaluate n m of (r, n') \<Rightarrow> (case eval_seq n' ms of (rs, n'') \<Rightarrow> (r # rs, n'')))"

definition trailing_trues :: "bool list \<Rightarrow> nat" where
  "trailing_trues bs = length (takeWhile (\<lambda>b. b) (rev bs))"

lemma trailing_trues_snoc:
  "trailing_trues (bs @ [b]) = (if b then Suc (trailing_trues bs) else 0)"
  by (simp add: trailing_trues_def)

lemma trailing_trues_le: "trailing_trues bs \<le> length bs"
  by (simp add: trailing_trues_def) (metis length_rev length_takeWhile_le)

lemma trailing_trues_replicate [simp]: "trailing_trues (replicate n True) = n"
  by (simp add: trailing_trues_def)

lemma eval_seq_replicate:
  "evaluate n m = (r, n) \<Longrightarrow> eval_seq n (replicate k m) = (replicate k r, n)"
  by (induction k) simp_all

lemma eval_seq_append:
  "eval_seq n (ms @ [m]) =
    (case eval_seq n ms of (rs, n') \<Rightarrow> (case evaluate n' m of (r, n'') \<Rightarrow> (rs @ [r], n'')))"
  by (induction ms arbitrary: n) (simp_all split: prod.split)

lemma unat_mult_no_wrap:
  "n * unat p < 2 ^ 64 \<Longrightarrow> unat (word_of_nat n * p :: u64) = n * unat p"
  by (cases "p = 0")
    (auto simp: unat_word_ariths unsigned_of_nat take_bit_nat_def mod_mult_left_eq)

lemma eval_seq_total:
  "\<forall>m \<in> set ms. valid_memory m \<Longrightarrow> wf_node n \<Longrightarrow>
    \<exists>bs n'. eval_seq n ms = (map Inr bs, n') \<and> length bs = length ms \<and> wf_node n'"
proof (induction ms rule: rev_induct)
  case Nil
  then show ?case by simp
next
  case (snoc m ms)
  then obtain bs n' where run: "eval_seq n ms = (map Inr bs, n')" "length bs = length ms" "wf_node n'"
    by auto
  have "valid_memory m" using snoc.prems(1) by simp
  from evaluate_refines(1) [OF this run(3)] run
  have "eval_seq n (ms @ [m]) =
      (map Inr (bs @ [node_value (bit_view m) n']), node_tick (bit_view m) n')"
    by (simp add: eval_seq_append)
  with run show ?case
    by (intro exI [of _ "bs @ [node_value (bit_view m) n']"]) simp
qed

text \<open>
  The outcomes of a fresh timer over its input's outcomes \<open>bs\<close>, as long as the product of scans and
  period fits 64 bits; and its state, which counts the trailing run of true inputs.
\<close>

definition timer_trace :: "nat \<Rightarrow> nat \<Rightarrow> bool list \<Rightarrow> bool list" where
  "timer_trace preset period bs =
     map (\<lambda>k. bs ! k \<and> preset \<le> trailing_trues (take (Suc k) bs) * period) [0..<length bs]"

lemma timer_trace_snoc:
  "timer_trace preset period (bs @ [b]) =
    timer_trace preset period bs @ [b \<and> preset \<le> trailing_trues (bs @ [b]) * period]"
proof -
  have "map (\<lambda>k. (bs @ [b]) ! k \<and> preset \<le> trailing_trues (take (Suc k) (bs @ [b])) * period)
      [0..<length bs] = timer_trace preset period bs"
    unfolding timer_trace_def by (rule map_cong) (auto simp: nth_append)
  then show ?thesis by (simp add: timer_trace_def)
qed

lemma eval_seq_timer:
  "\<forall>m \<in> set ms. valid_memory m \<Longrightarrow> wf_node c \<Longrightarrow> eval_seq c ms = (map Inr bs, c') \<Longrightarrow>
    length ms * unat period < 2 ^ 64 \<Longrightarrow>
    eval_seq (TonTimerNode c preset period 0) ms =
      (map Inr (timer_trace (unat preset) (unat period) bs),
       TonTimerNode c' preset period (word_of_nat (trailing_trues bs)))"
proof (induction ms arbitrary: bs c' rule: rev_induct)
  case Nil
  then show ?case by (simp add: trailing_trues_def timer_trace_def)
next
  case (snoc m ms)
  have valid: "\<forall>m \<in> set ms. valid_memory m" "valid_memory m" using snoc.prems(1) by simp_all
  obtain bs1 c1 where run: "eval_seq c ms = (map Inr bs1, c1)" "length bs1 = length ms" "wf_node c1"
    using eval_seq_total [OF valid(1) snoc.prems(2)] by auto
  let ?b = "node_value (bit_view m) c1"
  have ev: "evaluate c1 m = (Inr ?b, node_tick (bit_view m) c1)"
    by (rule evaluate_refines(1) [OF valid(2) run(3)])
  with run snoc.prems(3) have "(map Inr bs :: bool result list) = map Inr (bs1 @ [?b])" and c': "c' = node_tick (bit_view m) c1"
    by (auto simp: eval_seq_append)
  from this(1) have bs: "bs = bs1 @ [?b]" by (rule map_Inr_inject [THEN iffD1])
  have "length ms * unat period < 2 ^ 64"
    using snoc.prems(4) by (simp add: add_lessD1 [of _ "unat period", simplified add.commute])
  note IH = snoc.IH [OF valid(1) snoc.prems(2) run(1) this]
  let ?n = "Suc (trailing_trues bs1)"
  have "?n * unat period \<le> length (ms @ [m]) * unat period"
    by (rule mult_le_mono1) (use trailing_trues_le [of bs1] run(2) in simp)
  then have "unat (word_of_nat ?n * period) = ?n * unat period"
    using snoc.prems(4) by (intro unat_mult_no_wrap) (rule le_less_trans)
  then have "preset \<le> (word_of_nat (trailing_trues bs1) + 1) * period \<longleftrightarrow>
      unat preset \<le> ?n * unat period"
    by (simp add: word_le_nat_alt add.commute)
  with IH ev show ?case
    unfolding bs c' timer_trace_snoc
    by (simp add: eval_seq_append trailing_trues_snoc Let_def add.commute)
qed

section \<open>Programs that fail\<close>

text \<open>
  A program put together by hand may hold references outside the map. Its execution ends at the
  first rule that fails: the rules before it have run and written, the rules after it have not.
\<close>

lemma execute_append:
  "execute (p @ q) mem =
    (case execute p mem of
       (Inl e, p', mem') \<Rightarrow> (Inl e, p' @ q, mem')
     | (Inr _, p', mem') \<Rightarrow> (case execute q mem' of (res, q', mem'') \<Rightarrow> (res, p' @ q', mem'')))"
  by (induction p arbitrary: mem) (auto simp: Let_def split: prod.splits sum.splits)

section \<open>Properties\<close>

text \<open>A small program used below: a gated timer and a copy of its output bit.\<close>

definition demo_ref :: "memory_area \<Rightarrow> u8 \<Rightarrow> signal_ref" where
  "demo_ref a i = \<lparr>sr_node = None, sr_area = a, sr_byte = 0, sr_bit = i\<rparr>"

definition demo_program :: logic_program where
  "demo_program =
     [\<lparr>rule_id = ''gated_timer'', rule_output = demo_ref Memory 0,
       rule_condition = AndNode [SignalRefNode (demo_ref Input 1),
         new_ton_timer (SignalRefNode (demo_ref Input 0)) 80 20]\<rparr>,
      \<lparr>rule_id = ''copy'', rule_output = demo_ref Output 0,
       rule_condition = SignalRefNode (demo_ref Memory 0)\<rparr>]"

lemma wf_demo_ref [simp]: "i \<le> 7 \<Longrightarrow> wf_ref (demo_ref a i)"
  by (cases a) (simp_all add: wf_ref_def ref_addr_def demo_ref_def)

lemma wf_demo_program: "wf_program demo_program"
  by (simp add: demo_program_def wf_program_def wf_rule_def new_ton_timer_def)
    (simp add: demo_ref_def)

text \<open>
  On a well-formed map, evaluating a well-formed condition never fails, and gives the value of
  the order-free reference semantics together with the tree in which every timer has moved by one
  scan, wherever it stands.
\<close>

theorem evaluate_implements_reference:
  assumes "valid_memory mem" and "wf_node n"
  shows "evaluate n mem = (Inr (node_value (bit_view mem) n), node_tick (bit_view mem) n)"
  using assms by (rule evaluate_refines)

theorem evaluate_implements_reference_witness:
  "evaluate (NotNode (SignalRefNode (demo_ref Input 0))) new_memory_map =
    (Inr True, NotNode (SignalRefNode (demo_ref Input 0)))"
  using evaluate_implements_reference
    [OF valid_new_memory_map, of "NotNode (SignalRefNode (demo_ref Input 0))"]
  by (simp add: demo_ref_def ref_addr_def wf_ref_def)

text \<open>
  AND and OR do not short-circuit: whatever their values, all children are evaluated and left in
  the state their own evaluation gives them, so a timer behind a false sibling still counts.
\<close>

theorem combinators_evaluate_every_child:
  assumes "valid_memory mem" and "\<forall>c \<in> set cs. wf_node c"
  shows "snd (evaluate (AndNode cs) mem) = AndNode (map (\<lambda>c. snd (evaluate c mem)) cs) \<and>
    fst (evaluate (AndNode cs) mem) = Inr (\<forall>c \<in> set cs. fst (evaluate c mem) = Inr True) \<and>
    snd (evaluate (OrNode cs) mem) = OrNode (map (\<lambda>c. snd (evaluate c mem)) cs) \<and>
    fst (evaluate (OrNode cs) mem) = Inr (\<exists>c \<in> set cs. fst (evaluate c mem) = Inr True)"
  using assms evaluate_refines(1) [OF assms(1)] evaluate_refines(2,3) [OF assms(1), of cs]
  by (auto simp: list_all_iff list_ex_iff)

theorem combinators_evaluate_every_child_witness:
  "snd (evaluate (AndNode [SignalRefNode (demo_ref Input 1), TonTimerNode
      (NotNode (SignalRefNode (demo_ref Input 0))) 80 20 2]) new_memory_map) =
    AndNode [SignalRefNode (demo_ref Input 1),
      TonTimerNode (NotNode (SignalRefNode (demo_ref Input 0))) 80 20 3]"
  using combinators_evaluate_every_child [OF valid_new_memory_map,
      of "[SignalRefNode (demo_ref Input 1),
           TonTimerNode (NotNode (SignalRefNode (demo_ref Input 0))) 80 20 2]"]
  by (simp add: demo_ref_def wf_ref_def ref_addr_def)

text \<open>
  C1. One execution of a well-formed program on a well-formed map never fails; every bit of the map
  then has the value of the reference scan, in which each rule sees the writes of the rules above
  it, and the program's timers are those of the reference scan.
\<close>

theorem execute_implements_scan:
  assumes "valid_memory mem" and "wf_program p"
  shows "\<exists>mem'. execute p mem = (Inr (), scan_tick p (bit_view mem), mem') \<and> valid_memory mem' \<and>
    (\<forall>a. bit_in_range a \<longrightarrow> bit_view mem' a = scan_env p (bit_view mem) a)"
  using assms by (rule execute_refines)

theorem execute_implements_scan_witness:
  "\<exists>mem'. execute demo_program new_memory_map =
     (Inr (), scan_tick demo_program (bit_view new_memory_map), mem') \<and> valid_memory mem'"
  using execute_implements_scan [OF valid_new_memory_map wf_demo_program] by blast

text \<open>
  Same-scan chaining and last writer wins: after an execution the output bit of a rule that no
  later rule writes again holds the value its condition had on the bits left by the rules above it.
\<close>

theorem output_bit_after_scan:
  assumes "valid_memory mem" and "wf_program (p @ r # q)" and "out_addr r \<notin> out_addr ` set q"
    and "execute (p @ r # q) mem = (res, prog', mem')"
  shows "read_bit mem' (sr_area (rule_output r)) (sr_byte (rule_output r)) (sr_bit (rule_output r))
    = Inr (node_value (scan_env p (bit_view mem)) (rule_condition r))"
proof -
  have range: "bit_in_range (out_addr r)"
    using assms(2) by (simp add: wf_program_def wf_rule_def wf_ref_def out_addr_def)
  obtain mem1 where ex: "execute (p @ r # q) mem = (Inr (), scan_tick (p @ r # q) (bit_view mem), mem1)"
    and v: "valid_memory mem1"
    and bits: "\<forall>a. bit_in_range a \<longrightarrow> bit_view mem1 a = scan_env (p @ r # q) (bit_view mem) a"
    using execute_refines [OF assms(1,2)] by blast
  have append: "scan_env (xs @ ys) env = scan_env ys (scan_env xs env)" for xs ys env
    by (induction xs arbitrary: env) simp_all
  have "bit_view mem1 (out_addr r) = node_value (scan_env p (bit_view mem)) (rule_condition r)"
    using assms(3) by (simp add: bits [rule_format, OF range] append scan_env_other)
  with ex assms(4) read_bit_in_range [OF v, of "sr_area (rule_output r)" "sr_byte (rule_output r)"
      "sr_bit (rule_output r)"] range
  show ?thesis by (simp add: out_addr_def ref_addr_def)
qed

theorem output_bit_after_scan_witness:
  "\<exists>mem'. read_bit mem' Memory 0 0 = Inr False \<and>
     execute demo_program new_memory_map =
       (Inr (), scan_tick demo_program (bit_view new_memory_map), mem')"
proof -
  obtain mem' where ex: "execute demo_program new_memory_map =
      (Inr (), scan_tick demo_program (bit_view new_memory_map), mem')"
    using execute_refines [OF valid_new_memory_map wf_demo_program] by blast
  from output_bit_after_scan [of new_memory_map "[]" "hd demo_program" "tl demo_program"] ex
    wf_demo_program valid_new_memory_map
  have "read_bit mem' Memory 0 0 = Inr False"
    by (simp add: demo_program_def out_addr_def ref_addr_def) (simp add: demo_ref_def)
  with ex show ?thesis by blast
qed

text \<open>
  A scan writes nothing but the output bits of its rules: the input area is unchanged as a whole,
  and so is every bit that is no rule's output.
\<close>

theorem execute_frame:
  assumes "valid_memory mem" and "wf_program p" and "execute p mem = (res, p', mem')"
  shows "get_area mem' Input = get_area mem Input \<and>
    (\<forall>a. bit_in_range a \<longrightarrow> a \<notin> out_addr ` set p \<longrightarrow> bit_view mem' a = bit_view mem a)"
proof -
  have "bit_view mem' a = bit_view mem a" if "bit_in_range a" "a \<notin> out_addr ` set p" for a
  proof -
    obtain mem1 where "execute p mem = (Inr (), scan_tick p (bit_view mem), mem1)"
      and bits: "\<forall>a. bit_in_range a \<longrightarrow> bit_view mem1 a = scan_env p (bit_view mem) a"
      using execute_refines [OF assms(1,2)] by blast
    with assms(3) have "mem1 = mem'" by simp
    with bits that(1) scan_env_other [OF that(2)] show ?thesis by metis
  qed
  with execute_keeps_inputs [OF assms] show ?thesis by blast
qed

theorem execute_frame_witness:
  "get_area (snd (snd (execute demo_program new_memory_map))) Input = get_area new_memory_map Input"
proof -
  obtain mem' where ex: "execute demo_program new_memory_map =
      (Inr (), scan_tick demo_program (bit_view new_memory_map), mem')"
    using execute_refines [OF valid_new_memory_map wf_demo_program] by blast
  from execute_frame [OF valid_new_memory_map wf_demo_program this] ex show ?thesis by simp
qed

text \<open>
  C15. The on-delay timer: evaluated once per scan from its initial state, its output in a scan is true
  exactly when its input has been true in the last \<open>n\<close> scans for some \<open>n\<close> with
  \<open>n * period \<ge> preset\<close>; any false input sets the count back. This holds while the number of scans
  times the period stays below \<open>2 ^ 64\<close> milliseconds.
\<close>

theorem ton_timer_outputs:
  assumes "\<forall>m \<in> set ms. valid_memory m" and "wf_node c" and "eval_seq c ms = (map Inr bs, c')"
    and "length ms * unat (word_of_int period :: u64) < 2 ^ 64" and "k < length ms"
  shows "fst (eval_seq (new_ton_timer c preset period) ms) ! k =
    Inr (bs ! k \<and>
      unat preset \<le> trailing_trues (take (Suc k) bs) * unat (word_of_int period :: u64))"
proof -
  have "length bs = length ms"
    using eval_seq_total [OF assms(1,2)] assms(3) by (auto simp: map_Inr_inject)
  with eval_seq_timer [OF assms(1-4)] assms(5) show ?thesis
    by (simp add: new_ton_timer_def timer_trace_def)
qed

theorem ton_timer_outputs_witness:
  "fst (eval_seq (new_ton_timer (NotNode (SignalRefNode (demo_ref Input 0))) 100 20)
     (replicate 5 new_memory_map)) ! 3 = Inr False \<and>
   fst (eval_seq (new_ton_timer (NotNode (SignalRefNode (demo_ref Input 0))) 100 20)
     (replicate 5 new_memory_map)) ! 4 = Inr True"
proof -
  let ?c = "NotNode (SignalRefNode (demo_ref Input 0))"
  have valid: "\<forall>m \<in> set (replicate 5 new_memory_map). valid_memory m"
    by (simp add: valid_new_memory_map)
  have ev: "evaluate ?c new_memory_map = (Inr True, ?c)"
    by (simp add: evaluate_refines(1) [OF valid_new_memory_map] ref_addr_def) (simp add: demo_ref_def)
  have run: "eval_seq ?c (replicate 5 new_memory_map) = (map Inr (replicate 5 True), ?c)"
    using eval_seq_replicate [OF ev] by simp
  show ?thesis
    using ton_timer_outputs [OF valid _ run, of 20 3 100] ton_timer_outputs [OF valid _ run, of 20 4 100]
    by (simp add: trailing_trues_replicate)
qed

text \<open>
  When a rule's condition or its output write fails, the execution ends there with that failure:
  the writes of the rules above are in the map, the failing rule has written nothing, and the rules
  below are untouched.
\<close>

theorem execute_stops_at_failure:
  assumes "execute p mem = (Inr (), p', mem')"
    and "fst (evaluate (rule_condition r) mem') = Inl e"
  shows "execute (p @ r # q) mem =
    (Inl e, p' @ r\<lparr>rule_condition := snd (evaluate (rule_condition r) mem')\<rparr> # q, mem')"
  using assms by (cases "evaluate (rule_condition r) mem'") (simp add: execute_append Let_def)

theorem execute_stops_at_failure_witness:
  "execute ([] @ \<lparr>rule_id = ''r'', rule_output = demo_ref Output 0,
      rule_condition = SignalRefNode (demo_ref Input 9)\<rparr> # demo_program) new_memory_map =
    (Inl (Invalid_argument ''Bit index must be 0..7''),
     [\<lparr>rule_id = ''r'', rule_output = demo_ref Output 0,
      rule_condition = SignalRefNode (demo_ref Input 9)\<rparr>] @ demo_program, new_memory_map)"
  by (subst execute_stops_at_failure [where p' = "[]" and mem' = new_memory_map
        and e = "Invalid_argument ''Bit index must be 0..7''"])
    (simp_all add: demo_ref_def read_bit_def)

end
