(* ===== verification/Logic_Documents.thy ===== *)
theory Logic_Documents
  imports Logic_Parser Logic_Scan
begin

text \<open>
  What the parser of logic documents promises: it accepts exactly the documents that describe a program, the
  programs it returns are well formed with fresh timers, its errors name the place in the document, the first
  offending rule decides, and every program of the accepted form has a document.
\<close>

section \<open>The programs the parser can produce\<close>

fun parsed_node :: "int \<Rightarrow> logic_node \<Rightarrow> bool" where
  "parsed_node period (SignalRefNode r) \<longleftrightarrow> wf_ref r \<and> sr_node r = None"
| "parsed_node period (AndNode cs) \<longleftrightarrow> cs \<noteq> [] \<and> list_all (parsed_node period) cs"
| "parsed_node period (OrNode cs) \<longleftrightarrow> cs \<noteq> [] \<and> list_all (parsed_node period) cs"
| "parsed_node period (NotNode c) \<longleftrightarrow> parsed_node period c"
| "parsed_node period (TonTimerNode c preset per elapsed) \<longleftrightarrow>
     parsed_node period c \<and> preset < 2 ^ 63 \<and> per = word_of_int period \<and> elapsed = 0"

definition parsed_rule :: "int \<Rightarrow> rule \<Rightarrow> bool" where
  "parsed_rule period r \<longleftrightarrow>
     wf_ref (rule_output r) \<and> sr_area (rule_output r) \<noteq> Input \<and> sr_node (rule_output r) = None \<and>
     parsed_node period (rule_condition r)"

definition parsed_program :: "int \<Rightarrow> logic_program \<Rightarrow> bool" where
  "parsed_program period p \<longleftrightarrow> list_all (parsed_rule period) p"

lemma parsed_node_wf: "parsed_node period n \<Longrightarrow> wf_node n"
  by (induction n) (auto simp: list_all_iff)

lemma parsed_program_wf: "parsed_program period p \<Longrightarrow> wf_program p"
  by (auto simp: parsed_program_def wf_program_def parsed_rule_def wf_rule_def list_all_iff
      intro: parsed_node_wf)

lemma area_size_eq [simp]: "area_size a = get_size a"
  by (cases a) simp_all

lemma word_of_int_small: "0 \<le> k \<Longrightarrow> k \<le> 7 \<Longrightarrow> (word_of_int k :: u8) \<le> 7"
  by (simp add: word_le_def uint_word_of_int_eq take_bit_int_eq_self)

lemma parse_signal_ref_sound:
  assumes "parse_signal_ref j path allow = Inr r"
  shows "wf_ref r \<and> sr_node r = None \<and> (allow \<or> sr_area r \<noteq> Input)"
  using assms
  by (auto simp: parse_signal_ref_def parse_error_def reject_node_def res_bind_iff wf_ref_def
      ref_addr_def Let_def not_le word_less_nat_alt intro!: word_of_int_small split: if_splits)

lemma preset_range: "0 \<le> k \<Longrightarrow> k < 2 ^ 63 \<Longrightarrow> (word_of_int k :: u64) < 2 ^ 63"
  by (simp add: word_less_def uint_word_of_int_eq take_bit_int_eq_self)

lemma require_int_range: "require_int j key path = Inr k \<Longrightarrow> - (2 ^ 63) \<le> k \<and> k < 2 ^ 63"
  using get_int64_range by (auto simp: require_int_def parse_error_def res_bind_iff split: if_splits)

lemma preset_in_range:
  "require_int j key path = Inr k \<Longrightarrow> \<not> k < 0 \<Longrightarrow> (word_of_int k :: u64) < 2 ^ 63"
  by (drule require_int_range) (rule preset_range; simp)

lemma parse_condition_sound:
  "parse_condition_node j period path = Inr n \<Longrightarrow> parsed_node period n"
  "parse_bool_combinator j period path is_and = Inr n \<Longrightarrow> parsed_node period n"
  "parse_children js i period path = Inr ns \<Longrightarrow>
    list_all (parsed_node period) ns \<and> length ns = length js"
proof (induction j period path and j period path is_and and js i period path
    arbitrary: n and n and ns rule: parse_condition_node_parse_bool_combinator_parse_children.induct)
  case (1 j period path)
  from 1(5) show ?case
    by (auto simp: parse_condition_node.simps [of j] res_bind_iff parse_error_def new_ton_timer_def
        split: if_splits intro: 1(1-3) dest: parse_signal_ref_sound)
      (use 1(4) in simp, use preset_in_range in force)
next
  case (2 j period path is_and)
  from 2(2) show ?case
    by (auto simp: parse_bool_combinator.simps [of j] res_bind_iff parse_error_def
        split: if_splits dest!: 2(1))
next
  case (3 i period path)
  then show ?case by simp
next
  case (4 j js i period path)
  from 4(3) show ?case by (auto simp: res_bind_iff dest: 4(1,2))
qed

lemma parse_rule_sound: "parse_rule j i period = Inr r \<Longrightarrow> parsed_rule period r"
  by (auto simp: parse_rule_def Let_def res_bind_iff parse_error_def parsed_rule_def
      split: if_splits dest!: parse_signal_ref_sound parse_condition_sound(1))

lemma parse_rules_sound:
  "parse_rules js i period = Inr rs \<Longrightarrow> parsed_program period rs \<and> length rs = length js"
  by (induction js arbitrary: i rs)
    (auto simp: parsed_program_def res_bind_iff dest: parse_rule_sound)

lemma from_json_sound:
  "from_json doc period = Inr p \<Longrightarrow>
    parsed_program period p \<and> length p = length (json_elems (json_at doc ''rules''))"
  by (auto simp: from_json_def require_field_def parse_error_def res_bind_iff split: if_splits
      dest: parse_rules_sound)

section \<open>Errors name their place\<close>

definition located :: "string \<Rightarrow> 'a result \<Rightarrow> bool" where
  "located path r \<longleftrightarrow> (\<forall>e. r = Inl e \<longrightarrow> (\<exists>msg. e = Logic_parse_error (path @ msg)))"

named_theorems located_intros "results whose errors start with a path"

lemma located_Inr [located_intros]: "located path (Inr x)"
  by (simp add: located_def)

lemma located_parse_error [located_intros]: "located path (parse_error (path @ msg))"
  by (simp add: located_def parse_error_def)

lemma located_bind [located_intros]:
  "located path r \<Longrightarrow> (\<And>x. r = Inr x \<Longrightarrow> located path (f x)) \<Longrightarrow> located path (res_bind r f)"
  by (cases r) (simp_all add: located_def)

lemma located_if [located_intros]:
  "(b \<Longrightarrow> located path r) \<Longrightarrow> (\<not> b \<Longrightarrow> located path r') \<Longrightarrow> located path (if b then r else r')"
  by simp

lemma located_longer: "located (path @ suffix_path) r \<Longrightarrow> located path r"
  by (force simp: located_def)

lemma located_require [located_intros]:
  "located path (require_field j key path)"
  "located path (require_int j key path)"
  "located path (require_string j key path)"
  unfolding require_field_def require_int_def require_string_def by (intro located_intros)+

lemma located_parse_area [located_intros]: "located path (parse_area s (path @ ''.area''))"
  unfolding parse_area_def by (intro located_intros located_longer [of path "''.area''"])

lemma located_signal_ref [located_intros]: "located path (parse_signal_ref j path allow)"
  unfolding parse_signal_ref_def reject_node_def Let_def by (intro located_intros)

lemma located_condition:
  "located path (parse_condition_node j period path)"
  "located path (parse_bool_combinator j period path is_and)"
  "located path (parse_children js i period path)"
proof (induction j period path and j period path is_and and js i period path
    rule: parse_condition_node_parse_bool_combinator_parse_children.induct)
  case (1 j period path)
  have input: "located path (parse_condition_node field period (path @ ''.input''))"
    if "located (path @ ''.input'') (parse_condition_node field period (path @ ''.input''))" for field
    using that by (rule located_longer)
  show ?case
    unfolding parse_condition_node.simps [of j]
    by (intro located_intros 1(1,2) input 1(3,4)) simp_all
next
  case (2 j period path is_and)
  show ?case
    unfolding parse_bool_combinator.simps [of j] by (intro located_intros 2) simp_all
next
  case (3 i period path)
  show ?case by (simp add: located_Inr)
next
  case (4 j js i period path)
  have "located path (parse_condition_node j period (child_path path i))"
    using 4(1) unfolding child_path_def by (rule located_longer)
  then show ?case by (auto intro!: located_intros 4(2))
qed

lemmas located_condition_node [located_intros] = located_condition(1)

lemma located_rule: "located (rule_path i) (parse_rule j i period)"
proof -
  have sub: "located (rule_path i) r" if "located (rule_path i @ s) r" for r :: "'a result" and s
    using that by (rule located_longer)
  show ?thesis
    unfolding parse_rule_def Let_def
    by (intro located_intros sub [of "''.output''"] sub [of "''.condition''"])
qed

lemma parse_rules_first_error:
  assumes "k < length js" and "\<And>i. i < k \<Longrightarrow> \<exists>r. parse_rule (js ! i) (n + i) period = Inr r"
    and "parse_rule (js ! k) (n + k) period = Inl e"
  shows "parse_rules js n period = Inl e"
  using assms
proof (induction js arbitrary: k n)
  case Nil
  then show ?case by simp
next
  case (Cons j js)
  show ?case
  proof (cases k)
    case 0
    with Cons.prems(3) show ?thesis by simp
  next
    case (Suc k')
    obtain r where r: "parse_rule j n period = Inr r"
      using Cons.prems(2) [of 0] Suc by auto
    have "parse_rules js (Suc n) period = Inl e"
    proof (rule Cons.IH [of k'])
      show "k' < length js" using Cons.prems(1) Suc by simp
      show "\<exists>r. parse_rule (js ! i) (Suc n + i) period = Inr r" if "i < k'" for i
        using Cons.prems(2) [of "Suc i"] that Suc by simp
      show "parse_rule (js ! k') (Suc n + k') period = Inl e" using Cons.prems(3) Suc by simp
    qed
    with r show ?thesis by simp
  qed
qed

lemma parse_rules_error_inv:
  "parse_rules js n period = Inl e \<Longrightarrow>
    \<exists>k < length js. (\<forall>i < k. \<exists>r. parse_rule (js ! i) (n + i) period = Inr r) \<and>
      parse_rule (js ! k) (n + k) period = Inl e"
proof (induction js arbitrary: n)
  case Nil
  then show ?case by simp
next
  case (Cons j js)
  show ?case
  proof (cases "parse_rule j n period")
    case (Inl e')
    with Cons.prems show ?thesis by (intro exI [of _ 0]) simp
  next
    case (Inr r)
    with Cons.prems have "parse_rules js (Suc n) period = Inl e" by (auto simp: res_bind_iff)
    from Cons.IH [OF this] obtain k where k: "k < length js"
      and before: "\<forall>i < k. \<exists>r. parse_rule (js ! i) (Suc n + i) period = Inr r"
      and at: "parse_rule (js ! k) (Suc n + k) period = Inl e" by blast
    have "\<exists>r. parse_rule ((j # js) ! i) (n + i) period = Inr r" if "i < Suc k" for i
      using that before Inr by (cases i) auto
    with k at show ?thesis by (intro exI [of _ "Suc k"]) simp
  qed
qed

section \<open>Every accepted program has a document\<close>

fun area_name :: "memory_area \<Rightarrow> string" where
  "area_name Input = ''I''"
| "area_name Output = ''Q''"
| "area_name Memory = ''M''"

definition ref_fields :: "signal_ref \<Rightarrow> (string \<times> json) list" where
  "ref_fields r = [(''area'', J_string (area_name (sr_area r))), (''byte'', J_uint (sr_byte r)),
     (''bit'', J_uint (ucast (sr_bit r)))]"

fun node_doc :: "logic_node \<Rightarrow> json" where
  "node_doc (SignalRefNode r) = J_object ((''type'', J_string ''INPUT'') # ref_fields r)"
| "node_doc (AndNode cs) =
     J_object [(''type'', J_string ''AND''), (''inputs'', J_array (map node_doc cs))]"
| "node_doc (OrNode cs) =
     J_object [(''type'', J_string ''OR''), (''inputs'', J_array (map node_doc cs))]"
| "node_doc (NotNode c) = J_object [(''type'', J_string ''NOT''), (''input'', node_doc c)]"
| "node_doc (TonTimerNode c preset period elapsed) =
     J_object [(''type'', J_string ''TON_TIMER''), (''preset_ms'', J_uint preset),
       (''input'', node_doc c)]"

definition rule_doc :: "rule \<Rightarrow> json" where
  "rule_doc r = J_object [(''id'', J_string (rule_id r)),
     (''output'', J_object (ref_fields (rule_output r))),
     (''condition'', node_doc (rule_condition r))]"

definition program_doc :: "logic_program \<Rightarrow> json" where
  "program_doc p = J_object [(''version'', J_uint 1), (''rules'', J_array (map rule_doc p))]"

lemmas field_access = contains_def json_at_def require_field_def require_string_def require_int_def

lemma sint_small: "unat (w :: u64) < 2 ^ 63 \<Longrightarrow> sint w = int (unat w)"
proof -
  assume "unat w < 2 ^ 63"
  then have "int (unat w) < int (2 ^ 63)" by (simp only: of_nat_less_iff)
  then have "uint w < 2 ^ 63" by simp
  moreover have "- (2 ^ 63) \<le> uint w" using unsigned_greater_eq [of w] by (rule order_trans [rotated]) simp
  ultimately have "signed_take_bit 63 (uint w) = uint w"
    by (intro signed_take_bit_int_eq_self)
  then show ?thesis by (simp add: sint_uint)
qed

lemma unat_ucast_u8 [simp]: "unat (ucast (b :: u8) :: u64) = unat b"
proof -
  have "unat b < 2 ^ 64" using unsigned_less [of b, where ?'a = nat] by simp
  then show ?thesis by (simp add: unsigned_ucast_eq take_bit_nat_eq_self)
qed

lemma parse_ref_fields:
  assumes "wf_ref r" and "sr_node r = None" and "allow \<or> sr_area r \<noteq> Input"
    and "map_of kvs ''node'' = None" and "map_of kvs ''area'' = Some (J_string (area_name (sr_area r)))"
    and "map_of kvs ''byte'' = Some (J_uint (sr_byte r))"
    and "map_of kvs ''bit'' = Some (J_uint (ucast (sr_bit r)))"
  shows "parse_signal_ref (J_object kvs) path allow = Inr r"
proof -
  have has: "contains (J_object kvs) key \<longleftrightarrow> map_of kvs key \<noteq> None" for key
    by (simp add: contains_def map_of_eq_None_iff)
  have "unat (sr_byte r) < area_bytes (sr_area r)" and bit: "sr_bit r \<le> 7"
    using assms(1) by (simp_all add: wf_ref_def ref_addr_def)
  moreover have "sint (sr_byte r) = int (unat (sr_byte r))"
    using calculation(1) area_bytes_le [of "sr_area r"] by (intro sint_small) simp
  moreover have "sint (ucast (sr_bit r) :: u64) = int (unat (sr_bit r))"
    using unsigned_less [of "sr_bit r", where ?'a = nat] by (subst sint_small) simp_all
  moreover have "parse_area (area_name (sr_area r)) p = Inr (sr_area r)" for p
    by (cases "sr_area r") (simp_all add: parse_area_def)
  moreover have "uint (sr_bit r) \<le> 7" using bit by (simp add: word_le_def)
  ultimately show ?thesis
    using assms(2-7) by (auto simp add: parse_signal_ref_def has require_string_def require_int_def
        require_field_def json_at_def word_le_nat_alt not_le)
qed

lemma parse_children_docs:
  "(\<And>c path. c \<in> set cs \<Longrightarrow> parse_condition_node (node_doc c) period path = Inr c) \<Longrightarrow>
    parse_children (map node_doc cs) i period path = Inr cs"
  by (induction cs arbitrary: i) simp_all

lemma parse_node_doc:
  "parsed_node period n \<Longrightarrow> parse_condition_node (node_doc n) period path = Inr n"
proof (induction n arbitrary: path)
  case (SignalRefNode r)
  then have "parse_signal_ref (node_doc (SignalRefNode r)) path True = Inr r"
    by (auto intro!: parse_ref_fields simp: ref_fields_def)
  then show ?case
    by (simp add: parse_condition_node.simps [of "J_object _"] field_access)
next
  case (AndNode cs)
  have "parse_children (map node_doc cs) i period path = Inr cs" for i
    using AndNode by (intro parse_children_docs) (auto simp: list_all_iff)
  with AndNode.prems show ?case
    by (simp add: parse_condition_node.simps [of "J_object _"] field_access
        parse_bool_combinator.simps)
next
  case (OrNode cs)
  have "parse_children (map node_doc cs) i period path = Inr cs" for i
    using OrNode by (intro parse_children_docs) (auto simp: list_all_iff)
  with OrNode.prems show ?case
    by (simp add: parse_condition_node.simps [of "J_object _"] field_access
        parse_bool_combinator.simps)
next
  case (NotNode c)
  then show ?case by (simp add: parse_condition_node.simps [of "J_object _"] field_access)
next
  case (TonTimerNode c preset per elapsed)
  then have "sint preset = int (unat preset)"
    by (intro sint_small) (simp add: word_less_nat_alt)
  with TonTimerNode show ?case
    by (simp add: parse_condition_node.simps [of "J_object _"] field_access new_ton_timer_def)
qed

lemma parse_rule_doc: "parsed_rule period r \<Longrightarrow> parse_rule (rule_doc r) i period = Inr r"
  by (auto simp: parsed_rule_def rule_doc_def parse_rule_def Let_def field_access parse_node_doc
      ref_fields_def parse_ref_fields)

lemma parse_rules_doc: "parsed_program period p \<Longrightarrow> parse_rules (map rule_doc p) i period = Inr p"
  by (induction p arbitrary: i) (simp_all add: parsed_program_def parse_rule_doc)

section \<open>What a document says\<close>

text \<open>
  The format of the documents, as a relation on its own that knows no order of checks: which
  references, conditions, rules and programs a value describes. A field is looked up by its name; an
  integer is a signed or unsigned number of the library whose 64 bits are read as an \<open>int64_t\<close>.
\<close>

definition field :: "json \<Rightarrow> string \<Rightarrow> json option" where
  "field j key = map_of (json_fields j) key"

definition says_int :: "json option \<Rightarrow> int \<Rightarrow> bool" where
  "says_int v k \<longleftrightarrow> (\<exists>w. (v = Some (J_int w) \<or> v = Some (J_uint w)) \<and> k = sint w)"

definition describes_ref :: "bool \<Rightarrow> json \<Rightarrow> signal_ref \<Rightarrow> bool" where
  "describes_ref writable j r \<longleftrightarrow>
     field j ''node'' = None \<and> sr_node r = None \<and>
     field j ''area'' = Some (J_string (area_name (sr_area r))) \<and> (writable \<longrightarrow> sr_area r \<noteq> Input) \<and>
     says_int (field j ''byte'') (int (unat (sr_byte r))) \<and> unat (sr_byte r) < area_bytes (sr_area r) \<and>
     says_int (field j ''bit'') (int (unat (sr_bit r))) \<and> unat (sr_bit r) \<le> 7"

inductive describes_node :: "int \<Rightarrow> json \<Rightarrow> logic_node \<Rightarrow> bool" for period where
  says_input: "field j ''type'' = Some (J_string ''INPUT'') \<Longrightarrow> describes_ref False j r \<Longrightarrow>
     describes_node period j (SignalRefNode r)"
| says_and: "field j ''type'' = Some (J_string ''AND'') \<Longrightarrow> field j ''inputs'' = Some (J_array js) \<Longrightarrow> js \<noteq> [] \<Longrightarrow>
     list_all2 (describes_node period) js ns \<Longrightarrow> describes_node period j (AndNode ns)"
| says_or: "field j ''type'' = Some (J_string ''OR'') \<Longrightarrow> field j ''inputs'' = Some (J_array js) \<Longrightarrow> js \<noteq> [] \<Longrightarrow>
     list_all2 (describes_node period) js ns \<Longrightarrow> describes_node period j (OrNode ns)"
| says_not: "field j ''type'' = Some (J_string ''NOT'') \<Longrightarrow> field j ''input'' = Some j' \<Longrightarrow>
     describes_node period j' n \<Longrightarrow> describes_node period j (NotNode n)"
| says_timer: "field j ''type'' = Some (J_string ''TON_TIMER'') \<Longrightarrow> field j ''input'' = Some j' \<Longrightarrow>
     describes_node period j' n \<Longrightarrow> says_int (field j ''preset_ms'') (int k) \<Longrightarrow>
     describes_node period j (TonTimerNode n (of_nat k) (word_of_int period) 0)"
monos list.rel_mono_strong

definition describes_rule :: "int \<Rightarrow> nat \<Rightarrow> json \<Rightarrow> rule \<Rightarrow> bool" where
  "describes_rule period index j r \<longleftrightarrow>
     (field j ''id'' = Some (J_string (rule_id r)) \<or> field j ''id'' = None \<and> rule_id r = rule_path index) \<and>
     (\<exists>out. field j ''output'' = Some out \<and> describes_ref True out (rule_output r)) \<and>
     (\<exists>cond. field j ''condition'' = Some cond \<and> describes_node period cond (rule_condition r))"

definition describes_program :: "int \<Rightarrow> json \<Rightarrow> logic_program \<Rightarrow> bool" where
  "describes_program period doc p \<longleftrightarrow>
     (\<exists>js. field doc ''rules'' = Some (J_array js) \<and> length p = length js \<and>
        (\<forall>i < length js. describes_rule period i (js ! i) (p ! i)))"

section \<open>The parser reads exactly this\<close>

lemma field_object: "field j key = Some v \<Longrightarrow> is_object j"
  by (cases j) (simp_all add: field_def)

lemma contains_field: "contains j key \<longleftrightarrow> field j key \<noteq> None"
  by (simp add: contains_def field_def map_of_eq_None_iff)

lemma require_field_iff: "require_field j key path = Inr v \<longleftrightarrow> field j key = Some v"
  by (auto simp: require_field_def contains_field json_at_def field_def parse_error_def)

lemma is_string_iff: "is_string v \<longleftrightarrow> (\<exists>s. v = J_string s)"
  by (cases v) simp_all

lemma is_array_iff: "is_array v \<longleftrightarrow> (\<exists>js. v = J_array js)"
  by (cases v) simp_all

lemma require_string_iff: "require_string j key path = Inr s \<longleftrightarrow> field j key = Some (J_string s)"
  by (auto simp: require_string_def res_bind_iff require_field_iff is_string_iff parse_error_def)

lemma require_int_iff: "require_int j key path = Inr k \<longleftrightarrow> says_int (field j key) k"
proof -
  have "is_number_integer v \<and> get_int64 v = k \<longleftrightarrow> says_int (Some v) k" for v
    by (cases v) (auto simp: says_int_def)
  then show ?thesis
    by (cases "field j key") (auto simp: require_int_def res_bind_iff require_field_iff parse_error_def says_int_def)
qed

lemma parse_area_iff: "parse_area s path = Inr a \<longleftrightarrow> s = area_name a"
  by (cases a) (auto simp: parse_area_def parse_error_def)

lemma byte_of_int:
  assumes "- (2 ^ 63) \<le> k" and "k < 2 ^ 63"
  shows "\<not> (k < 0 \<or> (word_of_int k :: size_t) \<ge> area_size a) \<longleftrightarrow> 0 \<le> k \<and> nat k < area_bytes a"
    and "0 \<le> k \<Longrightarrow> unat (word_of_int k :: size_t) = nat k"
proof -
  show u: "0 \<le> k \<Longrightarrow> unat (word_of_int k :: size_t) = nat k"
    using assms by (simp add: unat_eq_nat_uint uint_word_of_int_eq take_bit_int_eq_self)
  then show "\<not> (k < 0 \<or> (word_of_int k :: size_t) \<ge> area_size a) \<longleftrightarrow> 0 \<le> k \<and> nat k < area_bytes a"
    by (auto simp: not_le word_less_nat_alt)
qed

lemma says_int_range: "says_int v k \<Longrightarrow> - (2 ^ 63) \<le> k \<and> k < 2 ^ 63"
  using get_int64_range [of "J_int _"] by (auto simp: says_int_def)

lemma says_int_eq: "says_int v k \<Longrightarrow> says_int v k' \<longleftrightarrow> k' = k"
  by (auto simp: says_int_def)

lemma parse_signal_ref_iff:
  "parse_signal_ref j path allow = Inr r \<longleftrightarrow> describes_ref (\<not> allow) j r"
proof
  assume "parse_signal_ref j path allow = Inr r"
  then obtain area byte bit where f: "field j ''node'' = None" "field j ''area'' = Some (J_string (area_name area))"
    "allow \<or> area \<noteq> Input" "says_int (field j ''byte'') byte" "says_int (field j ''bit'') bit"
    and b: "\<not> (byte < 0 \<or> (word_of_int byte :: size_t) \<ge> area_size area)" "\<not> (bit < 0 \<or> bit > 7)"
    and r: "r = \<lparr>sr_node = None, sr_area = area, sr_byte = word_of_int byte, sr_bit = word_of_int bit\<rparr>"
    by (auto simp: parse_signal_ref_def reject_node_def parse_error_def Let_def res_bind_iff contains_field
        require_string_iff require_int_iff parse_area_iff split: if_splits)
  have byte: "0 \<le> byte" "nat byte < area_bytes area" "unat (word_of_int byte :: size_t) = nat byte"
    using byte_of_int(1) [of byte area] byte_of_int(2) [of byte] says_int_range [OF f(4)] b(1) by auto
  have bit: "unat (word_of_int bit :: u8) = nat bit"
    using b(2) by (simp add: unat_eq_nat_uint uint_word_of_int_eq take_bit_int_eq_self)
  show "describes_ref (\<not> allow) j r"
    using f b(2) byte bit by (auto simp: describes_ref_def r)
next
  assume d: "describes_ref (\<not> allow) j r"
  let ?byte = "int (unat (sr_byte r))" and ?bit = "int (unat (sr_bit r))"
  have "field j ''area'' = Some (J_string (area_name (sr_area r)))" using d by (simp add: describes_ref_def)
  then have obj: "is_object j" by (rule field_object)
  have "\<not> (?byte < 0 \<or> (word_of_int ?byte :: size_t) \<ge> area_size (sr_area r))"
    using d by (simp add: describes_ref_def not_le word_less_nat_alt)
  moreover have "unat (sr_bit r) \<le> 7" using d by (simp add: describes_ref_def)
  then have "\<not> (?bit < 0 \<or> ?bit > 7)" by linarith
  moreover have "require_string j ''area'' path = Inr (area_name (sr_area r))" "require_int j ''byte'' path = Inr ?byte"
    "require_int j ''bit'' path = Inr ?bit" "parse_area (area_name (sr_area r)) (path @ ''.area'') = Inr (sr_area r)"
    "\<not> contains j ''node''" "\<not> (\<not> allow \<and> sr_area r = Input)"
    using d by (simp_all only: require_string_iff require_int_iff parse_area_iff contains_field describes_ref_def) auto
  ultimately show "parse_signal_ref j path allow = Inr r"
    using d obj by (auto simp: parse_signal_ref_def describes_ref_def)
qed

lemma nonneg_preset: "\<not> k < 0 \<Longrightarrow> \<exists>n. k = int n \<and> word_of_int k = (of_nat n :: u64)"
  by (intro exI [of _ "nat k"]) simp

lemma parse_condition_describes:
  "parse_condition_node j period path = Inr n \<Longrightarrow> describes_node period j n"
  "parse_bool_combinator j period path is_and = Inr n \<Longrightarrow>
     \<exists>js ns. field j ''inputs'' = Some (J_array js) \<and> js \<noteq> [] \<and> list_all2 (describes_node period) js ns \<and>
       n = (if is_and then AndNode ns else OrNode ns)"
  "parse_children js i period path = Inr ns \<Longrightarrow> list_all2 (describes_node period) js ns"
proof (induction j period path and j period path is_and and js i period path
    arbitrary: n and n and ns rule: parse_condition_node_parse_bool_combinator_parse_children.induct)
  case (1 j period path)
  from 1(5) obtain t where obj: "is_object j" and t: "field j ''type'' = Some (J_string t)"
    by (auto simp: parse_condition_node.simps [of j] res_bind_iff parse_error_def require_string_iff split: if_splits)
  have req: "require_string j ''type'' path = Inr t" using t by (simp add: require_string_iff)
  note IH = 1(1) [OF _ req] 1(2) [OF _ req] 1(3) [OF _ req] 1(4) [OF _ req]
  note parser = parse_condition_node.simps [of j] req obj parse_error_def res_bind_iff require_field_iff
    parse_signal_ref_iff require_int_iff new_ton_timer_def
  consider "t = ''INPUT''" | "t = ''AND''" | "t = ''OR''" | "t = ''NOT''" | "t = ''TON_TIMER''"
    using 1(5) by (auto simp: parser split: if_splits)
  then show ?case
  proof cases
    case 1
    with \<open>parse_condition_node j period path = Inr n\<close> t show ?thesis by (auto simp: parser intro: says_input)
  next
    case 2
    with \<open>parse_condition_node j period path = Inr n\<close> t IH(1) obj show ?thesis
      by (fastforce simp: parser intro: says_and)
  next
    case 3
    with \<open>parse_condition_node j period path = Inr n\<close> t IH(2) obj show ?thesis
      by (fastforce simp: parser intro: says_or)
  next
    case 4
    then obtain v m where v: "field j ''input'' = Some v" "parse_condition_node v period (path @ ''.input'') = Inr m" "n = NotNode m"
      using \<open>parse_condition_node j period path = Inr n\<close> by (auto simp: parser)
    from IH(3) [of v m] v obj t 4 show ?thesis by (simp add: require_field_iff says_not)
  next
    case 5
    then obtain v m k where v: "field j ''input'' = Some v" "parse_condition_node v period (path @ ''.input'') = Inr m"
      "says_int (field j ''preset_ms'') k" "\<not> k < 0" "n = TonTimerNode m (word_of_int k) (word_of_int period) 0"
      using \<open>parse_condition_node j period path = Inr n\<close> by (auto simp: parser split: if_splits)
    from nonneg_preset [OF v(4)] obtain k' where "k = int k'" "word_of_int k = (of_nat k' :: u64)" by blast
    with IH(4) [of v m] v obj t 5 show ?thesis by (simp add: require_field_iff says_timer)
  qed
next
  case (2 j period path is_and)
  from 2(2) obtain js ns where js: "field j ''inputs'' = Some (J_array js)" "js \<noteq> []"
    "parse_children js 0 period path = Inr ns" "n = (if is_and then AndNode ns else OrNode ns)"
    by (auto simp: parse_bool_combinator.simps [of j] res_bind_iff parse_error_def require_field_iff is_array_iff
        split: if_splits)
  from 2(1) [of "J_array js" ns] js have "list_all2 (describes_node period) js ns"
    by (simp add: require_field_iff)
  with js show ?case by blast
next
  case (3 i period path)
  then show ?case by simp
next
  case (4 j js i period path)
  from 4(3) show ?case by (auto simp: res_bind_iff dest: 4(1,2))
qed

lemma list_all2_children:
  assumes "list_all2 (\<lambda>j n. describes_node period j n \<and> (\<forall>path. parse_condition_node j period path = Inr n)) js ns"
  shows "parse_children js i period path = Inr ns"
  using assms by (induction arbitrary: i rule: list_all2_induct) simp_all

lemma describes_condition_parses:
  "describes_node period j n \<Longrightarrow> parse_condition_node j period path = Inr n"
proof (induction arbitrary: path rule: describes_node.induct)
  case (says_input j r)
  then show ?case
    using field_object [OF says_input(1)]
    by (simp add: parse_condition_node.simps [of j] res_bind_iff require_string_iff parse_signal_ref_iff)
next
  case (says_and j js ns)
  then have "parse_children js 0 period path = Inr ns" for path by (intro list_all2_children) simp
  with says_and(1-3) field_object [OF says_and(1)] show ?case
    by (simp add: parse_condition_node.simps [of j] parse_bool_combinator.simps [of j] res_bind_iff
        require_string_iff require_field_iff)
next
  case (says_or j js ns)
  then have "parse_children js 0 period path = Inr ns" for path by (intro list_all2_children) simp
  with says_or(1-3) field_object [OF says_or(1)] show ?case
    by (simp add: parse_condition_node.simps [of j] parse_bool_combinator.simps [of j] res_bind_iff
        require_string_iff require_field_iff)
next
  case (says_not j j' n)
  then show ?case
    using field_object [OF says_not(1)]
    by (simp add: parse_condition_node.simps [of j] res_bind_iff require_string_iff require_field_iff)
next
  case (says_timer j j' n k)
  have "require_int j ''preset_ms'' path = Inr (int k)" for path using says_timer by (simp add: require_int_iff)
  with says_timer show ?case
    using field_object [OF says_timer(1)]
    by (simp add: parse_condition_node.simps [of j] res_bind_iff require_string_iff require_field_iff new_ton_timer_def)
qed

lemma parse_condition_iff: "parse_condition_node j period path = Inr n \<longleftrightarrow> describes_node period j n"
  using parse_condition_describes(1) describes_condition_parses by blast

lemma parse_rule_iff: "parse_rule j i period = Inr r \<longleftrightarrow> describes_rule period i j r"
proof -
  have "parse_rule j i period = Inr r \<Longrightarrow> is_object j" and "describes_rule period i j r \<Longrightarrow> is_object j"
    by (auto simp: parse_rule_def parse_error_def Let_def describes_rule_def dest: field_object split: if_splits)
  moreover have "is_object j \<Longrightarrow> ?thesis"
    by (cases r) (auto simp: parse_rule_def Let_def res_bind_iff require_field_iff require_string_iff parse_signal_ref_iff
        parse_condition_iff describes_rule_def contains_field)
  ultimately show ?thesis by blast
qed

lemma parse_rules_iff:
  "parse_rules js i period = Inr rs \<longleftrightarrow>
     length rs = length js \<and> (\<forall>k < length js. describes_rule period (i + k) (js ! k) (rs ! k))"
proof (induction js arbitrary: i rs)
  case (Cons j js)
  have "(\<forall>k < Suc n. P k) \<longleftrightarrow> P 0 \<and> (\<forall>k < n. P (Suc k))" for P and n :: nat
    by (metis less_Suc_eq_0_disj)
  with Cons show ?case by (cases rs) (auto simp: res_bind_iff parse_rule_iff)
qed auto

lemma from_json_iff: "from_json doc period = Inr p \<longleftrightarrow> describes_program period doc p"
proof -
  have "is_object doc" if "describes_program period doc p"
    using that by (auto simp: describes_program_def dest: field_object)
  then show ?thesis
    by (auto simp: from_json_def parse_error_def res_bind_iff require_field_iff is_array_iff parse_rules_iff
        describes_program_def split: if_splits)
qed

section \<open>Properties\<close>

text \<open>The document \<open>examples/logic_example.json\<close>.\<close>

definition input_doc :: "u64 \<Rightarrow> json" where
  "input_doc i = J_object [(''type'', J_string ''INPUT''), (''area'', J_string ''I''),
     (''byte'', J_uint 0), (''bit'', J_uint i)]"

definition output_doc :: "u64 \<Rightarrow> json" where
  "output_doc i = J_object [(''area'', J_string ''Q''), (''byte'', J_uint 0), (''bit'', J_uint i)]"

definition example_doc :: json where
  "example_doc = J_object [(''version'', J_uint 1), (''rules'', J_array
     [J_object [(''id'', J_string ''passthrough''), (''output'', output_doc 0),
        (''condition'', input_doc 0)],
      J_object [(''id'', J_string ''and_gate''), (''output'', output_doc 1),
        (''condition'', J_object [(''type'', J_string ''AND''),
           (''inputs'', J_array [input_doc 0, input_doc 1])])],
      J_object [(''id'', J_string ''conveyor_timer''), (''output'', output_doc 2),
        (''condition'', J_object [(''type'', J_string ''TON_TIMER''), (''preset_ms'', J_uint 100),
           (''input'', input_doc 2)])]])]"

definition example_program :: logic_program where
  "example_program =
     [\<lparr>rule_id = ''passthrough'', rule_output = demo_ref Output 0,
        rule_condition = SignalRefNode (demo_ref Input 0)\<rparr>,
      \<lparr>rule_id = ''and_gate'', rule_output = demo_ref Output 1,
        rule_condition = AndNode [SignalRefNode (demo_ref Input 0), SignalRefNode (demo_ref Input 1)]\<rparr>,
      \<lparr>rule_id = ''conveyor_timer'', rule_output = demo_ref Output 2,
        rule_condition = TonTimerNode (SignalRefNode (demo_ref Input 2)) 100 20 0\<rparr>]"

lemma from_json_example: "from_json example_doc 20 = Inr example_program"
  by code_simp

text \<open>
  C16. The parser accepts exactly the documents that describe a program, and returns that program: every
  reference has an area, a byte inside it and a bit from 0 to 7 and no \<open>node\<close> field, no rule writes the input
  area, AND and OR have at least one input, a timer has a preset that is not negative, a rule without an \<open>id\<close> is
  called by its place. What is returned is well formed, with timers at zero that count in the runtime's period.
\<close>

theorem from_json_accepts_well_formed:
  "(from_json doc period = Inr p \<longleftrightarrow> describes_program period doc p) \<and>
   (from_json doc period = Inr p \<longrightarrow> parsed_program period p \<and> wf_program p)"
  using from_json_iff from_json_sound parsed_program_wf by blast

theorem from_json_accepts_well_formed_witness:
  "describes_program 20 example_doc example_program \<and> wf_program example_program"
  using from_json_accepts_well_formed [of example_doc 20 example_program] from_json_example by blast

text \<open>
  Every rejection is a \<open>LogicParseError\<close> that names its place: it starts with \<open>document\<close> or with
  \<open>rules[k]\<close>, and in the second case rule \<open>k\<close> is the first rule that does not parse.
\<close>

theorem from_json_error_place:
  assumes "from_json doc period = Inl e"
  shows "(\<exists>msg. e = Logic_parse_error (''document'' @ msg)) \<or>
    (\<exists>k < length (json_elems (json_at doc ''rules'')).
       (\<exists>msg. e = Logic_parse_error (rule_path k @ msg)) \<and>
       parse_rule (json_elems (json_at doc ''rules'') ! k) k period = Inl e \<and>
       (\<forall>i < k. \<exists>r. parse_rule (json_elems (json_at doc ''rules'') ! i) i period = Inr r))"
proof (cases "parse_rules (json_elems (json_at doc ''rules'')) 0 period = Inl e")
  case True
  from parse_rules_error_inv [OF this] located_rule show ?thesis
    unfolding located_def by (metis add_0)
next
  case False
  with assms show ?thesis
    by (auto simp: from_json_def require_field_def parse_error_def res_bind_iff split: if_splits)
qed

theorem from_json_error_place_witness:
  "from_json (J_object [(''rules'', J_array [J_null])]) 20 =
     Inl (Logic_parse_error (rule_path 0 @ '': expected a rule object'')) \<and>
   parse_rule J_null 0 20 = Inl (Logic_parse_error (rule_path 0 @ '': expected a rule object''))"
proof -
  let ?doc = "J_object [(''rules'', J_array [J_null])]"
  have "from_json ?doc 20 = Inl (Logic_parse_error (rule_path 0 @ '': expected a rule object''))"
    by code_simp
  from from_json_error_place [OF this] this show ?thesis
    by (auto simp: json_at_def rule_path_def)
qed

text \<open>
  C17. Every program of the accepted form is expressible: its document parses back to exactly that
  program.
\<close>

theorem program_document_roundtrip:
  assumes "parsed_program period p"
  shows "from_json (program_doc p) period = Inr p"
  using parse_rules_doc [OF assms, of 0]
  by (simp add: from_json_def program_doc_def field_access)

theorem program_document_roundtrip_witness:
  "from_json (program_doc example_program) 20 = Inr example_program"
  using program_document_roundtrip from_json_sound [OF from_json_example] by blast

text \<open>
  A signal reference with a \<open>node\<close> field is never accepted, whatever else it holds: a value that
  is no string, a malformed node UID and a well-formed one are each answered with an error placed
  at the \<open>node\<close> field.
\<close>

theorem remote_references_rejected:
  assumes "is_object j" and "contains j ''node''"
  shows "\<exists>msg. parse_signal_ref j path allow = Inl (Logic_parse_error (path @ ''.node: '' @ msg))"
  using assms by (simp add: parse_signal_ref_def reject_node_def parse_error_def Let_def)

theorem remote_references_rejected_witness:
  "\<exists>msg. parse_signal_ref (J_object [(''node'', J_string ''a1B2'')]) ''p'' True =
     Inl (Logic_parse_error (''p'' @ ''.node: '' @ msg))"
  using remote_references_rejected [of "J_object [(''node'', J_string ''a1B2'')]" "''p''" True]
  by (simp add: contains_def)

text \<open>
  A program that was loaded from a document cannot fail at run time: on a well-formed map every
  execution ends without an exception and without undefined behaviour, in a program of the same
  kind that the next scan can run.
\<close>

theorem loaded_program_never_fails:
  assumes "from_json doc period = Inr p" and "valid_memory mem"
  shows "\<exists>p' mem'. execute p mem = (Inr (), p', mem') \<and> valid_memory mem' \<and> wf_program p' \<and>
    get_area mem' Input = get_area mem Input"
proof -
  have wf: "wf_program p" using from_json_sound [OF assms(1)] parsed_program_wf by blast
  from execute_refines [OF assms(2) wf] execute_keeps_inputs [OF assms(2) wf] wf show ?thesis
    by (metis wf_scan_tick)
qed

theorem loaded_program_never_fails_witness:
  "\<exists>p' mem'. execute example_program new_memory_map = (Inr (), p', mem') \<and> wf_program p'"
  using loaded_program_never_fails [OF from_json_example valid_new_memory_map] by blast

end
