(* ===== verification/Logic_Runtime.thy ===== *)
theory Logic_Runtime
  imports Logic_Documents
begin

text \<open>
  The hot-swap wrapper \<open>LogicRuntime\<close>. Programs are objects shared through \<open>std::shared_ptr\<close> and are
  mutated by running them, so they live in a heap of program objects; the runtime holds the address
  of the current one, or none. \<open>execute_cycle\<close> and \<open>reload\<close> run on different threads: the last part
  gives their interleaving as a step relation.
\<close>

section \<open>State and operations\<close>

record program_heap =
  heap_cells :: "nat \<Rightarrow> logic_program option"
  heap_next :: nat

definition empty_heap :: program_heap where
  "empty_heap = \<lparr>heap_cells = Map.empty, heap_next = 0\<rparr>"

definition make_shared_program :: "program_heap \<Rightarrow> logic_program \<Rightarrow> nat \<times> program_heap" where
  "make_shared_program h p =
     (heap_next h, \<lparr>heap_cells = (heap_cells h)(heap_next h \<mapsto> p), heap_next = Suc (heap_next h)\<rparr>)"

definition put_program :: "program_heap \<Rightarrow> nat \<Rightarrow> logic_program \<Rightarrow> program_heap" where
  "put_program h a p = h\<lparr>heap_cells := (heap_cells h)(a \<mapsto> p)\<rparr>"

record logic_runtime =
  rt_period :: int
  rt_current :: "nat option"

definition LogicRuntime :: "int \<Rightarrow> nat option \<Rightarrow> logic_runtime" where
  "LogicRuntime period initial = \<lparr>rt_period = period, rt_current = initial\<rparr>"

text \<open>
  The member function takes the current pointer under the shared lock and runs the program it points
  to; a pointer to no object would be undefined behaviour.
\<close>

definition execute_cycle ::
  "logic_runtime \<Rightarrow> program_heap \<Rightarrow> memory_map \<Rightarrow> u64 \<Rightarrow> unit result \<times> program_heap \<times> memory_map" where
  "execute_cycle rt h mem cycle_count =
     (case rt_current rt of
        None \<Rightarrow> (Inr (), h, mem)
      | Some a \<Rightarrow>
          (case heap_cells h a of
             None \<Rightarrow> (Inl Undefined_behaviour, h, mem)
           | Some p \<Rightarrow>
               (case execute p mem of (res, p', mem') \<Rightarrow> (res, put_program h a p', mem'))))"

definition reload :: "logic_runtime \<Rightarrow> nat option \<Rightarrow> logic_runtime" where
  "reload rt new_program = rt\<lparr>rt_current := new_program\<rparr>"

definition reload_from_json ::
  "logic_runtime \<Rightarrow> program_heap \<Rightarrow> json \<Rightarrow> nat result \<times> logic_runtime \<times> program_heap" where
  "reload_from_json rt h doc =
     (case from_json doc (rt_period rt) of
        Inl e \<Rightarrow> (Inl e, rt, h)
      | Inr p \<Rightarrow>
          (case make_shared_program h p of (parsed, h') \<Rightarrow> (Inr parsed, reload rt (Some parsed), h')))"

definition get_current :: "logic_runtime \<Rightarrow> nat option" where
  "get_current rt = rt_current rt"

section \<open>Invariant\<close>

definition heap_ok :: "program_heap \<Rightarrow> bool" where
  "heap_ok h \<longleftrightarrow> (\<forall>a p. heap_cells h a = Some p \<longrightarrow> a < heap_next h \<and> wf_program p)"

definition live :: "program_heap \<Rightarrow> nat option \<Rightarrow> bool" where
  "live h ptr \<longleftrightarrow> (\<forall>a. ptr = Some a \<longrightarrow> heap_cells h a \<noteq> None)"

definition runtime_ok :: "logic_runtime \<Rightarrow> program_heap \<Rightarrow> bool" where
  "runtime_ok rt h \<longleftrightarrow> heap_ok h \<and> live h (rt_current rt)"

lemma heap_ok_empty [valid_intros]: "heap_ok empty_heap"
  by (simp add: heap_ok_def empty_heap_def)

lemma heap_ok_alloc [valid_intros]:
  "heap_ok h \<Longrightarrow> wf_program p \<Longrightarrow> make_shared_program h p = (a, h') \<Longrightarrow> heap_ok h'"
  by (auto simp: heap_ok_def make_shared_program_def less_Suc_eq split: if_splits)

lemma heap_ok_put [valid_intros]:
  "heap_ok h \<Longrightarrow> heap_cells h a \<noteq> None \<Longrightarrow> wf_program p \<Longrightarrow> heap_ok (put_program h a p)"
  by (auto simp: heap_ok_def put_program_def split: if_splits)

lemma live_put [valid_intros]: "live h ptr \<Longrightarrow> live (put_program h a p) ptr"
  by (simp add: live_def put_program_def)

lemma live_alloc [valid_intros]: "live h ptr \<Longrightarrow> make_shared_program h p = (a, h') \<Longrightarrow> live h' ptr"
  by (auto simp: live_def make_shared_program_def)

lemma alloc_fresh: "heap_ok h \<Longrightarrow> make_shared_program h p = (a, h') \<Longrightarrow> heap_cells h a = None"
  by (cases "heap_cells h a") (auto simp: heap_ok_def make_shared_program_def)

lemma reload_from_json_cases:
  "reload_from_json rt h doc =
    (case from_json doc (rt_period rt) of
       Inl e \<Rightarrow> (Inl e, rt, h)
     | Inr p \<Rightarrow> (Inr (heap_next h), rt\<lparr>rt_current := Some (heap_next h)\<rparr>,
         \<lparr>heap_cells = (heap_cells h)(heap_next h \<mapsto> p), heap_next = Suc (heap_next h)\<rparr>))"
  by (simp add: reload_from_json_def make_shared_program_def reload_def split: sum.split)

lemma reload_from_json_ok [valid_intros]:
  assumes "runtime_ok rt h" and "reload_from_json rt h doc = (res, rt', h')"
  shows "runtime_ok rt' h'"
  using assms from_json_sound [THEN conjunct1, THEN parsed_program_wf, of doc "rt_period rt"]
  by (auto simp: reload_from_json_cases runtime_ok_def heap_ok_def live_def less_Suc_eq
      split: sum.splits if_splits)

lemma execute_cycle_ok:
  assumes "runtime_ok rt h" and "valid_memory mem"
  shows "\<exists>h' mem'. execute_cycle rt h mem n = (Inr (), h', mem') \<and> runtime_ok rt h' \<and>
    valid_memory mem' \<and> get_area mem' Input = get_area mem Input"
proof (cases "rt_current rt")
  case None
  with assms show ?thesis by (simp add: execute_cycle_def)
next
  case (Some a)
  with assms(1) obtain p where p: "heap_cells h a = Some p" and wf: "wf_program p"
    by (auto simp: runtime_ok_def live_def heap_ok_def)
  obtain mem' where "execute p mem = (Inr (), scan_tick p (bit_view mem), mem')"
    and "valid_memory mem'" "get_area mem' Input = get_area mem Input"
    using execute_refines [OF assms(2) wf] execute_keeps_inputs [OF assms(2) wf] by blast
  with Some p assms(1) wf show ?thesis
    by (auto simp: execute_cycle_def runtime_ok_def intro!: heap_ok_put live_put)
qed

section \<open>Scans and reloads interleaved\<close>

text \<open>
  The scan thread is idle, or at rule \<open>i\<close> of the program it took, or stopped by an exception. The
  other threads may reload at any moment. Between scans the drivers may change the map; nobody else
  writes it. One rule is one step: the only data other threads write is the current pointer.
\<close>

datatype scan_pc = Scan_idle | Scan_at "nat option" nat | Scan_failed failure

record scan_sys =
  sys_rt :: logic_runtime
  sys_heap :: program_heap
  sys_mem :: memory_map
  sys_scan :: scan_pc

inductive rt_step :: "scan_sys \<Rightarrow> scan_sys \<Rightarrow> bool" where
  take_program: "sys_scan s = Scan_idle \<Longrightarrow>
     rt_step s (s\<lparr>sys_scan := Scan_at (rt_current (sys_rt s)) 0\<rparr>)"
| run_rule: "sys_scan s = Scan_at (Some a) i \<Longrightarrow> heap_cells (sys_heap s) a = Some p \<Longrightarrow>
     i < length p \<Longrightarrow> execute [p ! i] (sys_mem s) = (Inr (), [r], mem) \<Longrightarrow>
     rt_step s (s\<lparr>sys_heap := put_program (sys_heap s) a (p[i := r]), sys_mem := mem,
                  sys_scan := Scan_at (Some a) (Suc i)\<rparr>)"
| rule_fails: "sys_scan s = Scan_at (Some a) i \<Longrightarrow> heap_cells (sys_heap s) a = Some p \<Longrightarrow>
     i < length p \<Longrightarrow> execute [p ! i] (sys_mem s) = (Inl e, [r], mem) \<Longrightarrow>
     rt_step s (s\<lparr>sys_heap := put_program (sys_heap s) a (p[i := r]), sys_mem := mem,
                  sys_scan := Scan_failed e\<rparr>)"
| scan_done: "sys_scan s = Scan_at (Some a) i \<Longrightarrow> heap_cells (sys_heap s) a = Some p \<Longrightarrow>
     \<not> i < length p \<Longrightarrow> rt_step s (s\<lparr>sys_scan := Scan_idle\<rparr>)"
| no_program: "sys_scan s = Scan_at None i \<Longrightarrow> rt_step s (s\<lparr>sys_scan := Scan_idle\<rparr>)"
| dangling: "sys_scan s = Scan_at (Some a) i \<Longrightarrow> heap_cells (sys_heap s) a = None \<Longrightarrow>
     rt_step s (s\<lparr>sys_scan := Scan_failed Undefined_behaviour\<rparr>)"
| reload_shared: "live (sys_heap s) ptr \<Longrightarrow> rt_step s (s\<lparr>sys_rt := reload (sys_rt s) ptr\<rparr>)"
| reload_json: "reload_from_json (sys_rt s) (sys_heap s) doc = (res, rt, h) \<Longrightarrow>
     rt_step s (s\<lparr>sys_rt := rt, sys_heap := h\<rparr>)"
| drivers_run: "sys_scan s = Scan_idle \<Longrightarrow> valid_memory mem \<Longrightarrow> rt_step s (s\<lparr>sys_mem := mem\<rparr>)"

inductive rt_steps :: "scan_sys \<Rightarrow> scan_sys \<Rightarrow> bool" where
  rt_refl: "rt_steps s s"
| rt_next: "rt_steps s t \<Longrightarrow> rt_step t u \<Longrightarrow> rt_steps s u"

definition sys_ok :: "scan_sys \<Rightarrow> bool" where
  "sys_ok s \<longleftrightarrow> runtime_ok (sys_rt s) (sys_heap s) \<and> valid_memory (sys_mem s) \<and>
     (\<forall>e. sys_scan s \<noteq> Scan_failed e) \<and>
     (\<forall>ptr i. sys_scan s = Scan_at ptr i \<longrightarrow> live (sys_heap s) ptr)"

lemma wf_program_nth: "wf_program p \<Longrightarrow> i < length p \<Longrightarrow> wf_program [p ! i]"
  by (simp add: wf_program_def list_all_length)

lemma wf_program_update: "wf_program p \<Longrightarrow> wf_program [r] \<Longrightarrow> wf_program (p[i := r])"
  by (auto simp: wf_program_def list_all_iff dest!: subsetD [OF set_update_subset_insert])

lemma live_reload_json:
  "live h ptr \<Longrightarrow> reload_from_json rt h doc = (res, rt', h') \<Longrightarrow> live h' ptr"
  by (auto simp: reload_from_json_cases live_def split: sum.splits)

lemma reload_json_keeps_cell:
  assumes "heap_ok h" and "heap_cells h a = Some p" and "reload_from_json rt h doc = (res, rt', h')"
  shows "heap_cells h' a = Some p"
proof -
  have "a < heap_next h" using assms(1,2) by (auto simp: heap_ok_def)
  with assms(2,3) show ?thesis by (auto simp: reload_from_json_cases split: sum.splits)
qed

lemma execute_one:
  assumes "valid_memory mem" and "wf_program p" and "i < length p"
    and "execute [p ! i] mem = (res, rs, mem')"
  shows "res = Inr () \<and> valid_memory mem' \<and> wf_program rs"
proof -
  note wf = wf_program_nth [OF assms(2,3)]
  from execute_refines [OF assms(1) wf] assms(4) wf show ?thesis
    by (metis prod.inject wf_scan_tick)
qed

lemma rt_step_ok: "rt_step s t \<Longrightarrow> sys_ok s \<Longrightarrow> sys_ok t"
proof (induction rule: rt_step.induct)
  case (run_rule s a i p r mem)
  then have wf: "wf_program p" by (auto simp: sys_ok_def runtime_ok_def heap_ok_def)
  from run_rule execute_one [OF _ wf run_rule(3,4)] wf show ?case
    by (auto simp: sys_ok_def runtime_ok_def intro!: heap_ok_put live_put wf_program_update)
next
  case (rule_fails s a i p e r mem)
  then have "wf_program p" "valid_memory (sys_mem s)"
    by (auto simp: sys_ok_def runtime_ok_def heap_ok_def)
  from execute_one [OF this(2,1) rule_fails(3,4)] show ?case by simp
next
  case (reload_json s doc res rt h)
  then show ?case
    by (auto simp: sys_ok_def intro: reload_from_json_ok live_reload_json)
qed (auto simp: sys_ok_def runtime_ok_def live_def reload_def)

lemma rt_steps_ok: "rt_steps s t \<Longrightarrow> sys_ok s \<Longrightarrow> sys_ok t"
  by (induction rule: rt_steps.induct) (auto intro: rt_step_ok)

text \<open>
  The states between the moment a scan takes its program, in state \<open>s0\<close>, and the moment it is idle
  again, whatever the other threads do meanwhile.
\<close>

inductive in_scan :: "scan_sys \<Rightarrow> scan_sys \<Rightarrow> bool" for s0 where
  scan_starts: "sys_scan s0 = Scan_idle \<Longrightarrow>
     in_scan s0 (s0\<lparr>sys_scan := Scan_at (rt_current (sys_rt s0)) 0\<rparr>)"
| scan_goes_on: "in_scan s0 s \<Longrightarrow> rt_step s t \<Longrightarrow> sys_scan t \<noteq> Scan_idle \<Longrightarrow> in_scan s0 t"

inductive_cases rt_stepE: "rt_step s t"

lemma in_scan_ok: "in_scan s0 s \<Longrightarrow> sys_ok s0 \<Longrightarrow> sys_ok s"
  by (induction rule: in_scan.induct) (auto intro: rt_step_ok rt_step.take_program)

lemma execute_length: "execute p mem = (res, p', mem') \<Longrightarrow> length p' = length p"
  by (induction p arbitrary: mem res p' mem') (auto simp: Let_def split: prod.splits sum.splits)

definition scan_progress :: "scan_sys \<Rightarrow> nat \<Rightarrow> logic_program \<Rightarrow> scan_sys \<Rightarrow> bool" where
  "scan_progress s0 a p s \<longleftrightarrow>
     (\<exists>i q. sys_scan s = Scan_at (Some a) i \<and> i \<le> length p \<and>
        execute (take i p) (sys_mem s0) = (Inr (), q, sys_mem s) \<and>
        heap_cells (sys_heap s) a = Some (q @ drop i p))"

lemma scan_progress_step:
  assumes "scan_progress s0 a p s" and "rt_step s t" and "sys_ok s" and "sys_scan t \<noteq> Scan_idle"
  shows "scan_progress s0 a p t"
proof -
  from assms(1) obtain i q where pc: "sys_scan s = Scan_at (Some a) i" and i: "i \<le> length p"
    and ex: "execute (take i p) (sys_mem s0) = (Inr (), q, sys_mem s)"
    and cell: "heap_cells (sys_heap s) a = Some (q @ drop i p)"
    by (auto simp: scan_progress_def)
  have q: "length q = i" using execute_length [OF ex] i by simp
  from assms(2) show ?thesis
  proof (cases rule: rt_step.cases)
    case (run_rule a' i' p' r mem)
    then have eq: "a' = a" "i' = i" "p' = q @ drop i p" and less: "i < length p"
      using pc cell q i by auto
    then have nth: "p' ! i = p ! i" using q by (simp add: nth_append)
    have "take (Suc i) p = take i p @ [p ! i]" using less by (rule take_Suc_conv_app_nth)
    with ex run_rule nth eq have "execute (take (Suc i) p) (sys_mem s0) = (Inr (), q @ [r], mem)"
      by (simp add: execute_append)
    moreover have "(q @ drop i p)[i := r] = (q @ [r]) @ drop (Suc i) p"
      using q less by (simp add: list_update_append Cons_nth_drop_Suc [symmetric])
    ultimately show ?thesis
      using run_rule eq less by (auto simp: scan_progress_def put_program_def)
  next
    case (rule_fails a' i' p' e r mem)
    have "sys_ok t" by (rule rt_step_ok [OF assms(2,3)])
    with rule_fails show ?thesis by (simp add: sys_ok_def)
  next
    case (reload_json doc res rt h)
    have "heap_cells h a = Some (q @ drop i p)"
      using reload_json_keeps_cell [OF _ cell] reload_json assms(3)
      by (auto simp: sys_ok_def runtime_ok_def)
    with reload_json pc i ex show ?thesis by (auto simp: scan_progress_def)
  qed (use assms pc cell i ex in \<open>auto simp: scan_progress_def\<close>)
qed

lemma in_scan_progress:
  assumes "in_scan s0 s" and "sys_ok s0" and "rt_current (sys_rt s0) = Some a"
    and "heap_cells (sys_heap s0) a = Some p"
  shows "scan_progress s0 a p s"
  using assms
proof (induction rule: in_scan.induct)
  case scan_starts
  then show ?case by (simp add: scan_progress_def)
next
  case (scan_goes_on s t)
  then show ?case by (blast intro: scan_progress_step in_scan_ok)
qed

section \<open>Properties\<close>

definition demo_heap :: program_heap where
  "demo_heap = \<lparr>heap_cells = [0 \<mapsto> example_program], heap_next = 1\<rparr>"

definition demo_sys :: scan_sys where
  "demo_sys = \<lparr>sys_rt = LogicRuntime 20 (Some 0), sys_heap = demo_heap,
     sys_mem = new_memory_map, sys_scan = Scan_idle\<rparr>"

lemma wf_example_program: "wf_program example_program"
  using from_json_sound [OF from_json_example] parsed_program_wf by blast

lemma demo_runtime_ok: "runtime_ok (LogicRuntime 20 (Some 0)) demo_heap"
  by (auto simp: runtime_ok_def heap_ok_def live_def demo_heap_def LogicRuntime_def
      wf_example_program split: if_splits)

lemma demo_sys_ok: "sys_ok demo_sys"
  using demo_runtime_ok by (simp add: sys_ok_def demo_sys_def valid_new_memory_map)

text \<open>
  C3. A reload never disturbs the running program half way: \<open>reload_from_json\<close> on a document that does
  not parse reports the error and leaves the runtime and all program objects as they are; on one
  that parses it makes the new program current, as a new object with fresh timers, and touches no
  existing object.
\<close>

theorem reload_from_json_all_or_nothing:
  assumes "runtime_ok rt h" and "reload_from_json rt h doc = (res, rt', h')"
  shows "(\<forall>e. res = Inl e \<longrightarrow> from_json doc (rt_period rt) = Inl e \<and> rt' = rt \<and> h' = h) \<and>
    (\<forall>a. res = Inr a \<longrightarrow> (\<exists>p. from_json doc (rt_period rt) = Inr p \<and> heap_cells h a = None \<and>
       rt_current rt' = Some a \<and> heap_cells h' = (heap_cells h)(a \<mapsto> p) \<and>
       parsed_program (rt_period rt) p)) \<and>
    runtime_ok rt' h'"
  using assms reload_from_json_ok [OF assms] alloc_fresh [of h]
    from_json_sound [THEN conjunct1, of doc "rt_period rt"]
  by (auto simp: reload_from_json_cases runtime_ok_def make_shared_program_def split: sum.splits)

theorem reload_from_json_all_or_nothing_witness:
  "snd (reload_from_json (LogicRuntime 20 (Some 0)) demo_heap J_null) =
     (LogicRuntime 20 (Some 0), demo_heap)"
proof -
  obtain e where e: "reload_from_json (LogicRuntime 20 (Some 0)) demo_heap J_null =
      (Inl e, LogicRuntime 20 (Some 0), demo_heap)"
    by (simp add: reload_from_json_cases from_json_def parse_error_def)
  from reload_from_json_all_or_nothing [OF demo_runtime_ok this] e show ?thesis by simp
qed

text \<open>
  C6. A scan is atomic with respect to hot swaps: from the moment it takes the current program until
  it is idle again, with any reloads by other threads in between, the map and the program object
  change exactly as by one undisturbed \<open>execute_cycle\<close> of the program that was current at its start.
\<close>

theorem scan_atomic_under_reloads:
  assumes "sys_ok s0" and "in_scan s0 s" and "rt_step s t" and "sys_scan t = Scan_idle"
    and "rt_current (sys_rt s0) = Some a"
  shows "\<exists>h. execute_cycle (sys_rt s0) (sys_heap s0) (sys_mem s0) n = (Inr (), h, sys_mem t) \<and>
    heap_cells (sys_heap t) a = heap_cells h a"
proof -
  obtain p where p: "heap_cells (sys_heap s0) a = Some p"
    using assms(1,5) by (auto simp: sys_ok_def runtime_ok_def live_def)
  from in_scan_progress [OF assms(2,1,5) p] obtain i q where pc: "sys_scan s = Scan_at (Some a) i"
    and i: "i \<le> length p" and ex: "execute (take i p) (sys_mem s0) = (Inr (), q, sys_mem s)"
    and cell: "heap_cells (sys_heap s) a = Some (q @ drop i p)"
    by (auto simp: scan_progress_def)
  have "length q = i" using execute_length [OF ex] i by simp
  with assms(3,4) pc cell i have "i = length p" "sys_mem t = sys_mem s" "sys_heap t = sys_heap s"
    by (auto elim!: rt_stepE)
  with ex cell p assms(5) show ?thesis by (simp add: execute_cycle_def put_program_def)
qed

theorem scan_atomic_under_reloads_witness:
  "\<exists>h mem. execute_cycle (LogicRuntime 20 (Some 0)) \<lparr>heap_cells = [0 \<mapsto> []], heap_next = 1\<rparr>
      new_memory_map 7 = (Inr (), h, mem) \<and> heap_cells h 0 = Some []"
proof -
  let ?s0 = "\<lparr>sys_rt = LogicRuntime 20 (Some 0), sys_heap = \<lparr>heap_cells = [0 \<mapsto> []], heap_next = 1\<rparr>,
     sys_mem = new_memory_map, sys_scan = Scan_idle\<rparr>"
  let ?s1 = "?s0\<lparr>sys_scan := Scan_at (Some 0) 0\<rparr>"
  let ?s2 = "?s1\<lparr>sys_rt := reload (sys_rt ?s1) None\<rparr>"
  have ok: "sys_ok ?s0"
    by (auto simp: sys_ok_def runtime_ok_def heap_ok_def live_def LogicRuntime_def wf_program_def
        valid_new_memory_map split: if_splits)
  have "in_scan ?s0 ?s1" using in_scan.scan_starts [of ?s0] by (simp add: LogicRuntime_def)
  then have s2: "in_scan ?s0 ?s2"
    by (rule in_scan.scan_goes_on) (rule rt_step.reload_shared, simp_all add: live_def)
  have fin: "rt_step ?s2 (?s2\<lparr>sys_scan := Scan_idle\<rparr>)"
    by (rule rt_step.scan_done [where a = 0 and i = 0 and p = "[]"]) simp_all
  from scan_atomic_under_reloads [OF ok s2 fin, of 0 7] show ?thesis
    by (auto simp: LogicRuntime_def)
qed

text \<open>
  No interleaving of scans, driver phases, reloads and deploys makes a scan fail: starting from a
  sound runtime, the scan thread is never stopped by an exception, the map keeps its extents and
  the current pointer never dangles.
\<close>

theorem scan_thread_never_fails:
  assumes "sys_ok s" and "rt_steps s t"
  shows "valid_memory (sys_mem t) \<and> live (sys_heap t) (rt_current (sys_rt t)) \<and>
    sys_scan t \<noteq> Scan_failed e"
  using rt_steps_ok [OF assms(2,1)] by (simp add: sys_ok_def runtime_ok_def)

theorem scan_thread_never_fails_witness:
  "live (sys_heap demo_sys) (rt_current (sys_rt demo_sys)) \<and>
   sys_scan (demo_sys\<lparr>sys_scan := Scan_at (Some 0) 0\<rparr>) \<noteq> Scan_failed Undefined_behaviour"
proof -
  have "rt_step demo_sys (demo_sys\<lparr>sys_scan := Scan_at (Some 0) 0\<rparr>)"
    using rt_step.take_program [of demo_sys] by (simp add: demo_sys_def LogicRuntime_def)
  then have "rt_steps demo_sys (demo_sys\<lparr>sys_scan := Scan_at (Some 0) 0\<rparr>)"
    by (rule rt_steps.rt_next [OF rt_steps.rt_refl])
  from scan_thread_never_fails [OF demo_sys_ok this] show ?thesis by simp
qed

text \<open>
  Reloading a program object does not reset it: after a scan its timers are those the scan left,
  and a runtime that is later given the same object again goes on from there.
\<close>

theorem reload_keeps_timer_state:
  assumes "runtime_ok rt h" and "rt_current rt = Some a" and "heap_cells h a = Some p"
    and "valid_memory mem" and "execute_cycle rt h mem n = (res, h', mem')"
  shows "heap_cells h' a = Some (scan_tick p (bit_view mem)) \<and>
    execute_cycle (reload rt2 (Some a)) h' mem2 n2 =
      (case execute (scan_tick p (bit_view mem)) mem2 of
         (res2, p2, mem3) \<Rightarrow> (res2, put_program h' a p2, mem3))"
proof -
  have "wf_program p" using assms(1,3) by (auto simp: runtime_ok_def heap_ok_def)
  from execute_refines [OF assms(4) this] assms(2,3,5)
  have "heap_cells h' a = Some (scan_tick p (bit_view mem))"
    by (auto simp: execute_cycle_def put_program_def)
  then show ?thesis by (simp add: execute_cycle_def reload_def)
qed

theorem reload_keeps_timer_state_witness:
  "\<exists>h' mem'. execute_cycle (LogicRuntime 20 (Some 0)) demo_heap new_memory_map 0 =
      (Inr (), h', mem') \<and> heap_cells h' 0 = Some (scan_tick example_program (bit_view new_memory_map))"
proof -
  obtain h' mem' where ex: "execute_cycle (LogicRuntime 20 (Some 0)) demo_heap new_memory_map 0 =
      (Inr (), h', mem')"
    using execute_cycle_ok [OF demo_runtime_ok valid_new_memory_map] by blast
  from reload_keeps_timer_state [OF demo_runtime_ok _ _ valid_new_memory_map this, of 0 example_program]
    ex show ?thesis
    by (simp add: LogicRuntime_def demo_heap_def)
qed

end
