(* ===== verification/Scan_System.thy ===== *)
theory Scan_System
  imports Engine_Cycles Mock_Driver Logic_Runtime
begin

text \<open>
  The engine, the simulated hardware and the logic runtime wired together the way \<open>main.cpp\<close> does it,
  with the properties of the scan engine.
\<close>

section \<open>Wiring\<close>

text \<open>The cycle callback \<open>main\<close> installs: it runs the runtime and its heap of program objects.\<close>

definition runtime_callback :: "(logic_runtime \<times> program_heap) cycle_callback" where
  "runtime_callback st mem n =
     (case st of (rt, h) \<Rightarrow>
       (case execute_cycle rt h mem n of (res, h', mem') \<Rightarrow> (res, (rt, h'), mem')))"

definition main_engine :: "(logic_runtime \<times> program_heap) aslc_engine" where
  "main_engine =
     set_cycle_callback (add_driver (fst (AslcEngine (Some new_memory_map) 20)) (Some 0))
       (Some runtime_callback)"

definition main_plant ::
  "logic_runtime \<Rightarrow> program_heap \<Rightarrow> (mock_driver, logic_runtime \<times> program_heap) plant" where
  "main_plant rt h =
     \<lparr>plant_drivers = (\<lambda>_. MockDriver True), plant_map = new_memory_map, plant_logic = (rt, h)\<rparr>"

definition main_started ::
  "logic_runtime \<Rightarrow> program_heap \<Rightarrow> int
     \<Rightarrow> (mock_driver, logic_runtime \<times> program_heap) engine_sys" where
  "main_started rt h now =
     (case start mock_ops main_engine (main_plant rt h) of
        (e, w) \<Rightarrow> \<lparr>sys_engine = e, sys_plant = w, sys_clock = now, sys_owner = Owner_free\<rparr>)"

definition sound_logic :: "logic_runtime \<times> program_heap \<Rightarrow> bool" where
  "sound_logic st \<longleftrightarrow> runtime_ok (fst st) (snd st)"

interpretation plc: scan_engine mock_ops valid_mock runtime_callback sound_logic
proof
  fix c :: "logic_runtime \<times> program_heap" and m :: memory_map and n :: u64
  assume ok: "sound_logic c" and m: "valid_memory m"
  from execute_cycle_ok [OF ok [unfolded sound_logic_def] m, of n]
  show "\<exists>c' m'. runtime_callback c m n = (Inr (), c', m')"
    by (auto simp: runtime_callback_def case_prod_beta)
  fix c' m'
  assume "runtime_callback c m n = (Inr (), c', m')"
  with execute_cycle_ok [OF ok [unfolded sound_logic_def] m, of n]
  show "sound_logic c' \<and> valid_memory m' \<and> get_area m' Input = get_area m Input"
    by (auto simp: runtime_callback_def sound_logic_def case_prod_beta)
qed

text \<open>What the other threads of the program do to the plant: simulated inputs and hot reloads.\<close>

inductive web_interference ::
  "(mock_driver, logic_runtime \<times> program_heap) plant
     \<Rightarrow> (mock_driver, logic_runtime \<times> program_heap) plant \<Rightarrow> bool" where
  set_input: "web_interference w (w\<lparr>plant_drivers :=
     (plant_drivers w)(a := set_mock_input_bit (plant_drivers w a) off i v)\<rparr>)"
| toggle_input: "web_interference w (w\<lparr>plant_drivers :=
     (plant_drivers w)(a := toggle_mock_input_bit (plant_drivers w a) off i)\<rparr>)"
| deploy: "reload_from_json rt h doc = (res, rt', h') \<Longrightarrow> plant_logic w = (rt, h) \<Longrightarrow>
     web_interference w (w\<lparr>plant_logic := (rt', h')\<rparr>)"
| reload_program: "live h ptr \<Longrightarrow> plant_logic w = (rt, h) \<Longrightarrow>
     web_interference w (w\<lparr>plant_logic := (reload rt ptr, h)\<rparr>)"

definition plant_ok :: "(mock_driver, logic_runtime \<times> program_heap) plant \<Rightarrow> bool" where
  "plant_ok w \<longleftrightarrow> (\<forall>a. valid_mock (plant_drivers w a)) \<and> valid_memory (plant_map w) \<and>
     runtime_ok (fst (plant_logic w)) (snd (plant_logic w))"

lemma plant_good_iff: "plc.plant_good w \<longleftrightarrow> plant_ok w"
  unfolding plc.plant_good_def sound_logic_def plant_ok_def ..

lemma web_interference_good: "web_interference w w' \<Longrightarrow> plc.plant_good w \<Longrightarrow> plc.plant_good w'"
proof (induction rule: web_interference.induct)
  case (deploy rt h doc res rt' h' w)
  then show ?case by (auto simp: plant_good_iff plant_ok_def intro: reload_from_json_ok)
qed (auto simp: plant_good_iff plant_ok_def runtime_ok_def reload_def intro: valid_intros)

lemmas main_defs = main_started_def main_engine_def main_plant_def start_def AslcEngine_def
  add_driver_def set_cycle_callback_def

lemma main_just_started: "just_started (main_started rt h now)"
  by (simp add: main_defs just_started_def)

lemma valid_mock_initialize [valid_intros]: "valid_mock d \<Longrightarrow> valid_mock (snd (mock_initialize d))"
  by (simp add: mock_initialize_def valid_mock_def)

lemma main_engine_good: "runtime_ok rt h \<Longrightarrow> plc.engine_good (main_started rt h now)"
  by (auto simp: main_defs plc.engine_good_def plant_good_iff plant_ok_def mock_ops_def
      valid_new_memory_map intro: valid_intros)

text \<open>A small system for the witnesses: no drivers, a runtime without a program.\<close>

definition bare_started :: "(mock_driver, logic_runtime \<times> program_heap) engine_sys" where
  "bare_started =
     (case start mock_ops (set_cycle_callback (fst (AslcEngine None 20)) (Some runtime_callback))
         (main_plant (LogicRuntime 20 None) empty_heap) of
        (e, w) \<Rightarrow> \<lparr>sys_engine = e, sys_plant = w, sys_clock = 7, sys_owner = Owner_free\<rparr>)"

lemmas bare_defs = bare_started_def start_def AslcEngine_def set_cycle_callback_def

lemma bare_just_started: "just_started bare_started"
  by (simp add: bare_defs just_started_def)

lemma bare_first_cycle:
  "\<exists>t. worker_runs mock_ops 6 bare_started = ([Ev_logic 0], t) \<and>
     worker_thread (sys_engine t) = Sleeping \<and> cycle_count (sys_engine t) = 1 \<and>
     next_cycle_time (sys_engine t) = 27"
  by (simp add: bare_defs main_plant_def eval_nat_numeral worker_step_def runtime_callback_def
      execute_cycle_def LogicRuntime_def)

section \<open>Properties of the engine\<close>

text \<open>
  C8. The worker's calls are whole cycles in order, whatever the other threads do: at any moment the
  calls made are those of \<open>n\<close> complete cycles (all drivers read, then the logic with the counter, then
  all drivers written) and a beginning of the next one. Once \<open>stop\<close> has returned no cycle is cut short
  and the counter has counted them all.
\<close>

theorem cycles_complete_and_ordered:
  assumes "just_started s" and "engine_run ops env s evs t"
  shows "\<exists>n part. let e = sys_engine s; hl = (cycle_callback e \<noteq> None) in
    evs = run_events (drivers e) hl (cycle_count e) n @ part \<and>
    prefix part (cycle_events (drivers e) hl (cycle_count e + of_nat n)) \<and>
    cycle_count (sys_engine t) = cycle_count e + of_nat n \<and>
    (sys_owner t = Owner_free \<and> \<not> is_running (sys_engine t) \<longrightarrow> part = [])"
proof -
  obtain t0 n where inv: "run_at (sys_engine s) t0 n evs t"
    using engine_run_run_at [OF assms(2,1)] by blast
  have "worker_thread (sys_engine t) = No_thread"
    if "sys_owner t = Owner_free \<and> \<not> is_running (sys_engine t)"
    using owner_ok_run [OF assms(2,1)] that by (simp add: owner_ok_def Let_def)
  with run_at_prefix [OF inv] run_at_object(4) [OF inv] show ?thesis
    unfolding Let_def prefix_def by (metis in_cycle_simps(5) worker_pc.distinct(17))
qed

theorem cycles_complete_and_ordered_witness:
  "\<exists>n part. [Ev_logic 0] = run_events [] True 0 n @ part \<and>
     prefix part (cycle_events [] True (of_nat n))"
proof -
  obtain t where "engine_run mock_ops web_interference bare_started [Ev_logic 0] t"
    using bare_first_cycle worker_runs_engine_run by blast
  from cycles_complete_and_ordered [OF bare_just_started this] show ?thesis
    by (auto simp: bare_defs Let_def)
qed

text \<open>
  C18. The cycle time does not drift. Let the worker take its first step, in which it reads the clock as
  \<open>sys_clock s\<close>, and the system go on in any way from there. After \<open>n\<close> complete cycles (the calls made so far
  are those of \<open>n\<close> cycles and a beginning of the next) the deadline the worker sleeps to, or has woken at, is exactly
  \<open>sys_clock s + n * period\<close>, inside the next cycle it is one period later, and that cycle never begins
  before its slot, however long the callbacks took or the sleeps overran.
\<close>

theorem deadlines_do_not_drift:
  assumes "just_started s" and "worker_step ops (sys_clock s) (sys_engine s) (sys_plant s) = Some (e, w, evs0)"
    and "engine_run ops env (s\<lparr>sys_engine := e, sys_plant := w\<rparr>) evs t"
  shows "\<exists>n part. let e0 = sys_engine s; e = sys_engine t; pc = worker_thread e; hl = (cycle_callback e0 \<noteq> None);
      due = sys_clock s + int n * cycle_period e0 in
    evs = run_events (drivers e0) hl (cycle_count e0) n @ part \<and>
    prefix part (cycle_events (drivers e0) hl (cycle_count e0 + of_nat n)) \<and>
    cycle_count e = cycle_count e0 + of_nat n \<and>
    (pc = Sleeping \<or> pc = Loop_test \<longrightarrow> part = [] \<and> next_cycle_time e = due) \<and>
    (in_cycle pc \<longrightarrow> next_cycle_time e = due + cycle_period e0) \<and>
    (pc = Loop_test \<or> in_cycle pc \<longrightarrow> due \<le> sys_clock t)"
proof -
  from assms(1) have start: "worker_thread (sys_engine s) = Worker_start" by (simp add: just_started_def)
  then have "run_at (sys_engine s) (sys_clock s) 0 [] (s\<lparr>sys_engine := e, sys_plant := w\<rparr>)"
    and "worker_thread (sys_engine (s\<lparr>sys_engine := e, sys_plant := w\<rparr>)) \<noteq> Worker_start"
    using assms(2) by (auto simp: run_at_def worker_step_def Let_def)
  from engine_run_origin [OF assms(3) this] obtain n where inv: "run_at (sys_engine s) (sys_clock s) n evs t"
    by blast
  from run_at_prefix [OF inv] obtain part rest where
    part: "evs = run_events (drivers (sys_engine s)) (cycle_callback (sys_engine s) \<noteq> None) (cycle_count (sys_engine s)) n @ part"
      "cycle_events (drivers (sys_engine s)) (cycle_callback (sys_engine s) \<noteq> None) (cycle_count (sys_engine s) + of_nat n) = part @ rest"
      "(\<exists>err. worker_thread (sys_engine t) = Terminated err) \<or> in_cycle (worker_thread (sys_engine t)) \<or> part = []"
    by blast
  have "worker_thread (sys_engine t) = Sleeping \<or> worker_thread (sys_engine t) = Loop_test \<Longrightarrow>
      part = [] \<and> next_cycle_time (sys_engine t) = sys_clock s + int n * cycle_period (sys_engine s)"
    using inv part(3) by (auto simp: run_at_def Let_def)
  moreover have "in_cycle (worker_thread (sys_engine t)) \<Longrightarrow>
      next_cycle_time (sys_engine t) = sys_clock s + int n * cycle_period (sys_engine s) + cycle_period (sys_engine s)"
    "worker_thread (sys_engine t) = Loop_test \<or> in_cycle (worker_thread (sys_engine t)) \<Longrightarrow>
      sys_clock s + int n * cycle_period (sys_engine s) \<le> sys_clock t"
    using inv by (cases "worker_thread (sys_engine t)"; auto simp: run_at_def Let_def)+
  ultimately show ?thesis
    using part(1,2) run_at_object(4) [OF inv] unfolding Let_def prefix_def by blast
qed

theorem deadlines_do_not_drift_witness:
  "\<exists>t n. worker_runs mock_ops 6 bare_started = ([Ev_logic 0], t) \<and> cycle_count (sys_engine t) = of_nat n \<and>
     next_cycle_time (sys_engine t) = 7 + int n * 20"
proof -
  obtain t where t: "worker_runs mock_ops 6 bare_started = ([Ev_logic 0], t)"
    "worker_thread (sys_engine t) = Sleeping" using bare_first_cycle by blast
  obtain e w where step: "worker_step mock_ops (sys_clock bare_started) (sys_engine bare_started) (sys_plant bare_started) =
      Some (e, w, [])"
    by (simp add: bare_defs worker_step_def)
  with t(1) have "worker_runs mock_ops 5 (bare_started\<lparr>sys_engine := e, sys_plant := w\<rparr>) = ([Ev_logic 0], t)"
    by (simp only: eval_nat_numeral worker_runs.simps(2) [of _ _ bare_started]) (simp split: prod.splits)
  from deadlines_do_not_drift [OF bare_just_started step worker_runs_engine_run [OF this, where env = web_interference]]
    t show ?thesis by (auto simp: bare_defs Let_def)
qed

text \<open>
  C19. \<open>stop\<close> cannot hang on a worker that gets to run: from the moment the flag is cleared or the stop
  is requested, once the deadline it may be sleeping for has passed, the worker leaves \<open>run\<close> within
  \<open>2 * drivers + 6\<close> of its own steps (or dies of an exception).
\<close>

theorem told_to_stop_finishes:
  assumes "told_to_stop (sys_engine s)" and "next_cycle_time (sys_engine s) \<le> sys_clock s"
    and "worker_thread (sys_engine s) \<noteq> No_thread"
  shows "worker_gone (worker_thread (sys_engine
    (snd (worker_runs ops (2 * length (drivers (sys_engine s)) + 6) s))))"
  using assms by (rule stopping_runs) (rule steps_left_bound)

theorem told_to_stop_finishes_witness:
  "let s = bare_started\<lparr>sys_engine := fst (stop_begin (sys_engine bare_started))\<rparr> in
     worker_gone (worker_thread (sys_engine (snd (worker_runs mock_ops 6 s))))"
proof -
  let ?s = "bare_started\<lparr>sys_engine := fst (stop_begin (sys_engine bare_started))\<rparr>"
  have "told_to_stop (sys_engine ?s)" "next_cycle_time (sys_engine ?s) \<le> sys_clock ?s"
    "worker_thread (sys_engine ?s) \<noteq> No_thread" "drivers (sys_engine ?s) = []"
    by (simp_all add: bare_defs stop_begin_def told_to_stop_def)
  with told_to_stop_finishes [of ?s mock_ops] show ?thesis by (simp add: Let_def)
qed

text \<open>
  Left undisturbed, the worker computes the composition of cycles: between two cycles, and after
  \<open>stop\<close> has returned, the plant is that of \<open>n\<close> whole cycles run one after the other on the plant the
  engine was started on.
\<close>

theorem run_composes_cycles:
  assumes "just_started s" and "engine_run ops undisturbed s evs t"
    and "worker_thread (sys_engine t) = Loop_test \<or> worker_thread (sys_engine t) = Sleeping \<or>
      sys_owner t = Owner_free \<and> \<not> is_running (sys_engine t)"
  shows "\<exists>n. cycle_count (sys_engine t) = cycle_count (sys_engine s) + of_nat n \<and>
    run_cycles ops (drivers (sys_engine s)) (cycle_callback (sys_engine s)) (cycle_count (sys_engine s)) n
      (sys_plant s) = Inr (sys_plant t)"
proof -
  obtain n where n: "cycles_at ops (sys_engine s) (sys_plant s) n (sys_engine t) (sys_plant t)"
    using engine_run_cycles_at [OF assms(2,1)] by blast
  have "worker_thread (sys_engine t) \<in> {Loop_test, Sleeping, No_thread}"
    using assms(3) owner_ok_run [OF assms(2,1)] by (auto simp: owner_ok_def Let_def)
  with n show ?thesis by (auto simp: cycles_at_def)
qed

theorem run_composes_cycles_witness:
  "\<exists>n t. (1 :: u64) = of_nat n \<and>
     run_cycles mock_ops [] (Some runtime_callback) 0 n (sys_plant bare_started) = Inr (sys_plant t) \<and>
     worker_runs mock_ops 6 bare_started = ([Ev_logic 0], t)"
proof -
  obtain t where runs: "worker_runs mock_ops 6 bare_started = ([Ev_logic 0], t)"
    and t: "worker_thread (sys_engine t) = Sleeping" "cycle_count (sys_engine t) = 1"
    using bare_first_cycle by blast
  have "drivers (sys_engine bare_started) = []" "cycle_count (sys_engine bare_started) = 0"
    "cycle_callback (sys_engine bare_started) = Some runtime_callback"
    by (simp_all add: bare_defs)
  with run_composes_cycles [OF bare_just_started worker_runs_engine_run [OF runs]] runs t
  show ?thesis by auto
qed

text \<open>One cycle with the mock driver and the runtime, on a sound plant with a current program.\<close>

lemma run_cycle_plant:
  assumes "plant_ok w" and "plant_logic w = (rt, h)" and "rt_current rt = Some a"
    and "heap_cells h a = Some p"
    and "m1 = put_area (plant_map w) Input (mock_inputs (plant_drivers w k))"
  shows "\<exists>w'. run_cycle mock_ops [Some k] (Some runtime_callback) n w = Inr w' \<and> plant_ok w' \<and>
    (\<forall>b. bit_in_range b \<longrightarrow> bit_view (plant_map w') b = scan_env p (bit_view m1) b) \<and>
    previous_outputs (plant_drivers w' k) = get_area (plant_map w') Output \<and>
    plant_logic w' = (rt, put_program h a (scan_tick p (bit_view m1)))"
proof -
  from assms(1,2) have d: "valid_mock (plant_drivers w k)" and m: "valid_memory (plant_map w)"
    and rt: "runtime_ok rt h" by (auto simp: plant_ok_def)
  let ?w1 = "w\<lparr>plant_drivers := (plant_drivers w)(k := plant_drivers w k), plant_map := m1\<rparr>"
  have read: "read_drivers mock_ops [Some k] w = Inr ?w1"
    using mock_read_inputs_eq [OF d m] by (simp add: mock_ops_def res_bind_def assms(5))
  have "valid_memory m1" using m d by (auto simp: assms(5) valid_mock_def intro!: valid_put_area)
  moreover have "wf_program p" using rt assms(4) by (auto simp: runtime_ok_def heap_ok_def)
  ultimately obtain m2 where ex: "execute p m1 = (Inr (), scan_tick p (bit_view m1), m2)"
    and m2: "valid_memory m2" and bits: "\<forall>b. bit_in_range b \<longrightarrow> bit_view m2 b = scan_env p (bit_view m1) b"
    using execute_refines by blast
  let ?l = "(rt, put_program h a (scan_tick p (bit_view m1)))"
  have logic: "run_callback (Some runtime_callback) n ?w1 = Inr (?w1\<lparr>plant_logic := ?l, plant_map := m2\<rparr>)"
    using assms(2-4) ex by (simp add: run_callback_def runtime_callback_def execute_cycle_def)
  obtain w' where cycle: "run_cycle mock_ops [Some k] (Some runtime_callback) n w = Inr w'" "plant_ok w'"
    using plc.run_cycle_good [of w "[Some k]" n] assms(1) by (auto simp: plant_good_iff)
  have w': "plant_map w' = m2" "previous_outputs (plant_drivers w' k) = get_area m2 Output"
    "plant_logic w' = ?l"
    using cycle(1) read logic mock_write_outputs_eq [OF d m2]
    by (auto simp: run_cycle_def res_bind_def mock_ops_def)
  show ?thesis
    by (intro exI [of _ w'] conjI cycle) (use bits in \<open>simp_all only: w'\<close>)
qed

text \<open>
  C4. One cycle of the program end to end: the simulated inputs become \<open>%I\<close>, every bit of the map is
  then that of the reference scan of the current program on the map with those inputs, the driver has
  seen exactly these outputs, and the program's timers have advanced by one scan.
\<close>

theorem cycle_end_to_end:
  assumes "plant_ok w" and "plant_logic w = (rt, h)" and "rt_current rt = Some a"
    and "heap_cells h a = Some p"
    and "m1 = put_area (plant_map w) Input (mock_inputs (plant_drivers w k))"
  shows "\<exists>w'. run_cycle mock_ops [Some k] (Some runtime_callback) n w = Inr w' \<and> plant_ok w' \<and>
    (\<forall>b. bit_in_range b \<longrightarrow> bit_view (plant_map w') b = scan_env p (bit_view m1) b) \<and>
    previous_outputs (plant_drivers w' k) = get_area (plant_map w') Output \<and>
    plant_logic w' = (rt, put_program h a (scan_tick p (bit_view m1)))"
  by (rule run_cycle_plant [OF assms])

theorem cycle_end_to_end_witness:
  "\<exists>w'. run_cycle mock_ops [Some 0] (Some runtime_callback) 0
      (main_plant (LogicRuntime 20 (Some 0)) demo_heap) = Inr w' \<and> plant_ok w'"
proof -
  have "plant_ok (main_plant (LogicRuntime 20 (Some 0)) demo_heap)"
    using demo_runtime_ok by (simp add: plant_ok_def main_plant_def valid_MockDriver valid_new_memory_map)
  from cycle_end_to_end [OF this _ _ _ refl, of "LogicRuntime 20 (Some 0)" demo_heap 0 example_program 0 0]
  show ?thesis by (auto simp: main_plant_def LogicRuntime_def demo_heap_def)
qed

text \<open>
  The program as \<open>main\<close> wires it never loses its scan thread: with any interleaving of the worker,
  \<open>stop\<close>, simulated inputs, deployments of arbitrary JSON documents and reloads of live programs, no
  exception leaves the cycle and the plant stays sound.
\<close>

theorem main_worker_never_dies:
  assumes "runtime_ok rt h" and "engine_run mock_ops web_interference (main_started rt h now) evs t"
  shows "worker_thread (sys_engine t) \<noteq> Terminated err \<and> plant_ok (sys_plant t)"
proof -
  have "plc.engine_good t"
    by (rule plc.engine_run_good [OF assms(2) main_engine_good [OF assms(1)] web_interference_good])
  then show ?thesis by (simp add: plc.engine_good_def plant_good_iff)
qed

theorem main_worker_never_dies_witness:
  "\<exists>evs t. worker_runs mock_ops 30 (main_started (LogicRuntime 20 (Some 0)) demo_heap 0) = (evs, t) \<and>
     worker_thread (sys_engine t) \<noteq> Terminated Undefined_behaviour \<and> plant_ok (sys_plant t)"
proof -
  obtain evs t where runs:
    "worker_runs mock_ops 30 (main_started (LogicRuntime 20 (Some 0)) demo_heap 0) = (evs, t)"
    by (rule prod.exhaust)
  from main_worker_never_dies [OF demo_runtime_ok worker_runs_engine_run [OF runs]] runs
  show ?thesis by blast
qed

text \<open>
  \<open>start\<close> initialises every registered driver and starts a worker; on a running engine it does
  nothing. A null driver is never registered.
\<close>

theorem start_initializes_drivers:
  assumes "\<not> is_running e" and "distinct (pointers (drivers e))"
  shows "let (e', w') = start ops (add_driver e None) w in
    is_running e' \<and> worker_thread e' = Worker_start \<and> \<not> stop_requested e' \<and>
    drivers e' = drivers e \<and>
    (\<forall>a. plant_drivers w' a = (if a \<in> set (pointers (drivers e))
       then snd (op_initialize ops (plant_drivers w a)) else plant_drivers w a)) \<and>
    start ops e' w' = (e', w')"
proof -
  have "initialize_drivers ops ps ds = (\<lambda>a. if a \<in> set (pointers ps) then snd (op_initialize ops (ds a)) else ds a)"
    if "distinct (pointers ps)" for ps ds
    using that
  proof (induction ps arbitrary: ds)
    case (Cons p ps)
    then show ?case by (cases p) (auto simp: fun_eq_iff)
  qed simp
  with assms show ?thesis by (simp add: start_def add_driver_def)
qed

theorem start_initializes_drivers_witness:
  "let (e', w') = start mock_ops (add_driver main_engine None) (main_plant (LogicRuntime 20 None) empty_heap)
   in is_running e' \<and> drivers e' = [Some 0]"
  using start_initializes_drivers [of main_engine mock_ops "main_plant (LogicRuntime 20 None) empty_heap"]
  by (simp add: main_engine_def AslcEngine_def add_driver_def set_cycle_callback_def Let_def case_prod_beta)

end
