(* ===== verification/Drop_Oldest.thy ===== *)
theory Drop_Oldest
  imports Aslc_Prelude "HOL-Library.Sublist"
begin

text \<open>
  The contract of a bounded log buffer that drops its oldest entry when it is full, and what follows
  from it for every interleaving of producers with one consumer that takes the pending entries in one
  step and delivers them in a later one.
\<close>

section \<open>Reading a ring\<close>

text \<open>The \<open>n\<close> entries of a ring from position \<open>s\<close> on.\<close>

definition ring_slice :: "'a list \<Rightarrow> nat \<Rightarrow> nat \<Rightarrow> 'a list" where
  "ring_slice buf s n = map (\<lambda>i. buf ! ((s + i) mod length buf)) [0..<n]"

lemma length_ring_slice [simp]: "length (ring_slice buf s n) = n"
  by (simp add: ring_slice_def)

lemma ring_slice_Suc:
  "ring_slice buf s (Suc n) = ring_slice buf s n @ [buf ! ((s + n) mod length buf)]"
  by (simp add: ring_slice_def)

lemma ring_slice_mod [simp]: "ring_slice buf (s mod length buf) n = ring_slice buf s n"
  by (simp add: ring_slice_def mod_add_left_eq)

lemma tl_ring_slice: "tl (ring_slice buf s (Suc n)) = ring_slice buf (Suc s) n"
  by (rule nth_equalityI) (simp_all add: ring_slice_def nth_tl del: upt_Suc)

lemma mod_shift_neq:
  assumes "i < n" and "n - i < (L :: nat)"
  shows "(s + i) mod L \<noteq> (s + n) mod L"
proof
  assume "(s + i) mod L = (s + n) mod L"
  then have "L dvd (s + n) - (s + i)"
    using assms(1) by (subst mod_eq_dvd_iff_nat [symmetric]) simp_all
  with assms show False by (auto dest: dvd_imp_le)
qed

lemma ring_slice_update_other:
  "(\<And>i. i < n \<Longrightarrow> (s + i) mod length buf \<noteq> h) \<Longrightarrow> ring_slice (buf[h := x]) s n = ring_slice buf s n"
  unfolding ring_slice_def length_list_update by (rule map_cong [OF refl]) fastforce

text \<open>Writing at the end of a ring that has room, and over the oldest entry of a full one.\<close>

lemma ring_slice_push:
  assumes "n < length buf"
  shows "ring_slice (buf[(s + n) mod length buf := x]) s (Suc n) = ring_slice buf s n @ [x]"
proof -
  have "ring_slice (buf[(s + n) mod length buf := x]) s n = ring_slice buf s n"
    by (rule ring_slice_update_other) (use assms in \<open>simp add: mod_shift_neq\<close>)
  moreover have "(s + n) mod length buf < length buf" using assms by (intro mod_less_divisor) linarith
  ultimately show ?thesis by (simp add: ring_slice_Suc)
qed

lemma ring_slice_overwrite:
  assumes "length buf = Suc n"
  shows "ring_slice (buf[s mod length buf := x]) (Suc s) (Suc n) = tl (ring_slice buf s (Suc n)) @ [x]"
proof -
  have "(Suc s + n) mod length buf = s mod length buf"
    using assms by (metis add_Suc_shift mod_add_self2)
  then show ?thesis
    using ring_slice_push [of n buf "Suc s" x] assms by (simp add: tl_ring_slice)
qed

section \<open>The contract\<close>

locale drop_oldest =
  fixes ok :: "'q \<Rightarrow> bool"
    and pending :: "'q \<Rightarrow> 'a list"
    and losses :: "'q \<Rightarrow> u64"
    and put :: "'q \<Rightarrow> 'b \<Rightarrow> 'q"
    and stored :: "'b \<Rightarrow> 'a"
    and take_all :: "'q \<Rightarrow> 'a list \<times> 'q"
    and capacity :: nat
  assumes capacity_pos: "0 < capacity"
    and put_ok: "ok q \<Longrightarrow> ok (put q x)"
    and put_room: "ok q \<Longrightarrow> length (pending q) < capacity \<Longrightarrow>
      pending (put q x) = pending q @ [stored x] \<and> losses (put q x) = losses q"
    and put_full: "ok q \<Longrightarrow> length (pending q) = capacity \<Longrightarrow>
      pending (put q x) = tl (pending q) @ [stored x] \<and> losses (put q x) = losses q + 1"
    and pending_bound: "ok q \<Longrightarrow> length (pending q) \<le> capacity"
    and take_all_pending: "ok q \<Longrightarrow> take_all q = (xs, q') \<Longrightarrow>
      xs = pending q \<and> ok q' \<and> pending q' = [] \<and> losses q' = losses q"
begin

text \<open>
  A history: what was given to \<open>put\<close>, what has been taken out, and the buffer. The consumer takes
  everything that is pending.
\<close>

inductive history :: "'q \<Rightarrow> 'b list \<Rightarrow> 'a list \<Rightarrow> 'q \<Rightarrow> bool" for q0 where
  hist_start: "history q0 [] [] q0"
| hist_put: "history q0 given taken q \<Longrightarrow> history q0 (given @ [x]) taken (put q x)"
| hist_take: "history q0 given taken q \<Longrightarrow> take_all q = (xs, q') \<Longrightarrow> history q0 given (taken @ xs) q'"

text \<open>
  In every history the entries taken and the entries pending are, in order, a part of the entries
  given; the newest ones are among them, and the loss counter accounts for the others.
\<close>

definition accounted :: "'q \<Rightarrow> 'b list \<Rightarrow> 'a list \<Rightarrow> 'q \<Rightarrow> bool" where
  "accounted q0 given taken q \<longleftrightarrow> ok q \<and>
     subseq (taken @ pending q) (map stored given) \<and>
     (\<exists>lost. length given = length (taken @ pending q) + lost \<and> losses q = losses q0 + of_nat lost \<and>
        (lost = 0 \<or> capacity < length given))"

lemma accounted_put:
  assumes "accounted q0 given taken q"
  shows "accounted q0 (given @ [x]) taken (put q x)"
proof -
  from assms have q: "ok q" and sub: "subseq (taken @ pending q) (map stored given)"
    by (simp_all add: accounted_def)
  from assms obtain lost where lost: "length given = length (taken @ pending q) + lost"
    "losses q = losses q0 + of_nat lost" "lost = 0 \<or> capacity < length given"
    by (auto simp: accounted_def)
  show ?thesis
  proof (cases "length (pending q) < capacity")
    case True
    with put_room [OF q this, of x] put_ok [OF q] sub lost show ?thesis
      by (auto simp: accounted_def list_emb_append_mono subseq_append' simp flip: append_assoc)
  next
    case False
    with pending_bound [OF q] have full: "length (pending q) = capacity" by simp
    note put = put_full [OF q full, of x]
    have "subseq (taken @ tl (pending q)) (taken @ pending q)"
      by (cases "pending q") (auto simp: subseq_append')
    with sub have "subseq (taken @ tl (pending q)) (map stored given)"
      by (rule subseq_order.order_trans [rotated])
    moreover have "length (given @ [x]) = length (taken @ pending (put q x)) + Suc lost"
      using lost put full capacity_pos by simp
    moreover have "capacity < length (given @ [x])" using lost(1) full by simp
    ultimately show ?thesis
      using put put_ok [OF q] lost(2)
      by (auto simp: accounted_def subseq_append' algebra_simps simp flip: append_assoc
          intro!: exI [of _ "Suc lost"])
  qed
qed

lemma accounted_take:
  "accounted q0 given taken q \<Longrightarrow> take_all q = (xs, q') \<Longrightarrow> accounted q0 given (taken @ xs) q'"
  using take_all_pending [of q xs q'] by (auto simp: accounted_def)

lemma history_accounted:
  assumes "history q0 given taken q" and "ok q0" and "pending q0 = []"
  shows "accounted q0 given taken q"
  using assms(1)
proof (induction rule: history.induct)
  case hist_start
  then show ?case using assms(2,3) by (simp add: accounted_def)
qed (auto intro: accounted_put accounted_take)

text \<open>Up to \<open>capacity\<close> entries given in a row since the buffer was empty are all kept.\<close>

lemma puts_keep:
  assumes "ok q" and "length (pending q) + length xs \<le> capacity"
  shows "ok (foldl put q xs) \<and> pending (foldl put q xs) = pending q @ map stored xs \<and>
    losses (foldl put q xs) = losses q"
  using assms
proof (induction xs arbitrary: q)
  case (Cons x xs)
  then show ?case using put_room [of q x] put_ok [of q x] by simp
qed simp

text \<open>However many are given, the newest are kept.\<close>

lemma puts_newest:
  assumes "ok q"
  shows "ok (foldl put q xs) \<and> (\<exists>m. pending (foldl put q xs) = drop m (pending q @ map stored xs) \<and>
    length (pending (foldl put q xs)) = min capacity (length (pending q) + length xs))"
  using assms
proof (induction xs arbitrary: q)
  case Nil
  then show ?case using pending_bound [of q] by (auto intro!: exI [of _ 0])
next
  case (Cons x xs)
  from Cons.IH [OF put_ok [OF Cons.prems], of x] obtain m where
    m: "pending (foldl put (put q x) xs) = drop m (pending (put q x) @ map stored xs)"
    "ok (foldl put (put q x) xs)"
    "length (pending (foldl put (put q x) xs)) = min capacity (length (pending (put q x)) + length xs)"
    by blast
  show ?case
  proof (cases "length (pending q) < capacity")
    case True
    with m put_room [OF Cons.prems True, of x] show ?thesis by auto
  next
    case False
    with pending_bound [OF Cons.prems] have full: "length (pending q) = capacity" by simp
    note put = put_full [OF Cons.prems full, of x]
    obtain p ps where ps: "pending q = p # ps"
      using full capacity_pos by (cases "pending q") auto
    with m put full show ?thesis
      by (auto intro!: exI [of _ "Suc m"])
  qed
qed

end

end
