(* ===== verification/Ring_Buffer_Logger.thy ===== *)
theory Ring_Buffer_Logger
  imports Drop_Oldest
begin

text \<open>
  The bounded log buffer of \<open>ring_buffer_logger.hpp\<close> and \<open>ring_buffer_logger.cpp\<close>: the entry slots, the
  write position and the number of unflushed entries, with \<open>log\<close> and the draining part of
  \<open>flush_pending\<close>, both of which run under the logger's mutex.
\<close>

section \<open>State and operations\<close>

datatype log_level = Info | Warn | Error

text \<open>A time point is a number of nanoseconds since the epoch.\<close>

record log_entry =
  entry_timestamp :: nat
  entry_level :: log_level
  entry_message :: string
  entry_message_len :: nat

definition kCapacity :: size_t where "kCapacity = 1024"
definition kMaxMessageLen :: nat where "kMaxMessageLen = 160"

record log_ring =
  rb_buffer :: "log_entry list"
  rb_head :: size_t
  rb_count :: size_t
  rb_dropped :: u64

definition blank_entry :: log_entry where
  "blank_entry = \<lparr>entry_timestamp = 0, entry_level = Info,
     entry_message = replicate kMaxMessageLen (CHR 0x00), entry_message_len = 0\<rparr>"

definition new_log_ring :: log_ring where
  "new_log_ring = \<lparr>rb_buffer = replicate (unat kCapacity) blank_entry, rb_head = 0, rb_count = 0,
     rb_dropped = 0\<rparr>"

text \<open>\<open>std::copy_n\<close> to the front of a character array: the tail of the slot keeps its old bytes.\<close>

definition copy_front :: "string \<Rightarrow> nat \<Rightarrow> string \<Rightarrow> string" where
  "copy_front src n dst = take n src @ drop n dst"

definition log :: "log_ring \<Rightarrow> nat \<Rightarrow> log_level \<Rightarrow> string \<Rightarrow> log_ring" where
  "log r now level message =
     (let n = min (length message) kMaxMessageLen;
          slot = rb_buffer r ! unat (rb_head r);
          entry = slot\<lparr>entry_timestamp := now, entry_level := level, entry_message_len := n,
                       entry_message := copy_front message n (entry_message slot)\<rparr>;
          r1 = r\<lparr>rb_buffer := (rb_buffer r)[unat (rb_head r) := entry],
                 rb_head := (rb_head r + 1) mod kCapacity\<rparr>
      in if rb_count r < kCapacity then r1\<lparr>rb_count := rb_count r + 1\<rparr>
         else r1\<lparr>rb_dropped := rb_dropped r + 1\<rparr>)"

definition drain_pending :: "log_ring \<Rightarrow> log_entry list \<times> log_ring" where
  "drain_pending r =
     (if rb_count r = 0 then ([], r)
      else
        let start = (rb_head r + kCapacity - rb_count r) mod kCapacity in
          (map (\<lambda>i. rb_buffer r ! unat ((start + of_nat i) mod kCapacity)) [0..<unat (rb_count r)],
           r\<lparr>rb_count := 0\<rparr>))"

section \<open>The ring as a list of pending records\<close>

text \<open>What an entry means: its time, its level and its characters.\<close>

type_synonym log_record = "nat \<times> log_level \<times> string"

definition entry_record :: "log_entry \<Rightarrow> log_record" where
  "entry_record e = (entry_timestamp e, entry_level e, take (entry_message_len e) (entry_message e))"

fun truncated :: "log_record \<Rightarrow> log_record" where
  "truncated (now, level, message) = (now, level, take kMaxMessageLen message)"

definition valid_entry :: "log_entry \<Rightarrow> bool" where
  "valid_entry e \<longleftrightarrow> length (entry_message e) = kMaxMessageLen \<and> entry_message_len e \<le> kMaxMessageLen"

definition valid_ring :: "log_ring \<Rightarrow> bool" where
  "valid_ring r \<longleftrightarrow> length (rb_buffer r) = 1024 \<and> unat (rb_head r) < 1024 \<and> unat (rb_count r) \<le> 1024 \<and>
     list_all valid_entry (rb_buffer r)"

definition ring_start :: "log_ring \<Rightarrow> nat" where
  "ring_start r = unat (rb_head r) + 1024 - unat (rb_count r)"

definition pending_entries :: "log_ring \<Rightarrow> log_entry list" where
  "pending_entries r = ring_slice (rb_buffer r) (ring_start r) (unat (rb_count r))"

definition pending_records :: "log_ring \<Rightarrow> log_record list" where
  "pending_records r = map entry_record (pending_entries r)"

lemma kCapacity_unat [simp]: "unat kCapacity = 1024"
  by (simp add: kCapacity_def)

lemma ring_next:
  "unat h < 1024 \<Longrightarrow> unat ((h + 1) mod kCapacity) = Suc (unat h) mod 1024"
  by (simp add: unat_mod unat_word_ariths)

lemma ring_start_word:
  assumes "unat h < 1024" and "unat c \<le> 1024"
  shows "unat ((h + kCapacity - c) mod kCapacity) = (unat h + 1024 - unat c) mod 1024"
proof -
  have "unat (h + kCapacity) = unat h + 1024"
    using assms(1) by (simp add: unat_word_ariths)
  moreover from this assms have "unat (h + kCapacity - c) = unat h + 1024 - unat c"
    by (subst unat_sub) (simp_all add: word_le_nat_alt)
  ultimately show ?thesis by (simp add: unat_mod)
qed

lemma ring_index_word:
  "unat s < 1024 \<Longrightarrow> i < 1024 \<Longrightarrow> unat ((s + of_nat i) mod kCapacity) = (unat s + i) mod 1024"
  by (simp add: unat_mod unat_word_ariths unat_of_nat take_bit_nat_eq_self)

lemma copy_front_take:
  "n \<le> length src \<Longrightarrow> n \<le> length dst \<Longrightarrow> take n (copy_front src n dst) = take n src"
  by (simp add: copy_front_def)

text \<open>The entry \<open>log\<close> writes.\<close>

definition written_entry :: "log_ring \<Rightarrow> log_record \<Rightarrow> log_entry" where
  "written_entry r x =
     (case x of (now, level, message) \<Rightarrow>
        let n = min (length message) kMaxMessageLen; slot = rb_buffer r ! unat (rb_head r) in
          slot\<lparr>entry_timestamp := now, entry_level := level, entry_message_len := n,
               entry_message := copy_front message n (entry_message slot)\<rparr>)"

lemma written_entry:
  assumes "valid_ring r"
  shows "entry_record (written_entry r x) = truncated x" and "valid_entry (written_entry r x)"
proof -
  obtain now level message where x: "x = (now, level, message)" by (cases x)
  have "length (entry_message (rb_buffer r ! unat (rb_head r))) = kMaxMessageLen"
    using assms by (auto simp: valid_ring_def list_all_length valid_entry_def)
  then show "entry_record (written_entry r x) = truncated x" and "valid_entry (written_entry r x)"
    by (auto simp: x written_entry_def entry_record_def valid_entry_def copy_front_def Let_def min_def)
qed

abbreviation put_record :: "log_ring \<Rightarrow> log_record \<Rightarrow> log_ring" where
  "put_record r x \<equiv> (case x of (now, level, message) \<Rightarrow> log r now level message)"

lemma put_record_eq:
  "put_record r x =
     (let r1 = r\<lparr>rb_buffer := (rb_buffer r)[unat (rb_head r) := written_entry r x],
                 rb_head := (rb_head r + 1) mod kCapacity\<rparr>
      in if rb_count r < kCapacity then r1\<lparr>rb_count := rb_count r + 1\<rparr>
         else r1\<lparr>rb_dropped := rb_dropped r + 1\<rparr>)"
  by (cases x) (simp add: log_def written_entry_def Let_def)

lemma valid_put_record:
  assumes "valid_ring r"
  shows "valid_ring (put_record r x)"
proof -
  have "rb_count r < kCapacity \<Longrightarrow> unat (rb_count r + 1) \<le> 1024"
    by (simp add: word_less_nat_alt unat_word_ariths)
  moreover have "list_all valid_entry ((rb_buffer r)[unat (rb_head r) := written_entry r x])"
    using assms written_entry(2) [OF assms, of x]
    by (auto simp: valid_ring_def list_all_iff dest!: subsetD [OF set_update_subset_insert])
  ultimately show ?thesis
    using assms ring_next [of "rb_head r"] by (simp add: put_record_eq valid_ring_def Let_def)
qed

lemma ring_slice_cong:
  "length buf = 1024 \<Longrightarrow> s mod 1024 = s' mod 1024 \<Longrightarrow> ring_slice buf s n = ring_slice buf s' n"
  using ring_slice_mod [of buf s n] ring_slice_mod [of buf s' n] by simp

lemma mod_next_start:
  assumes "h < L" and "c < (L :: nat)"
  shows "(Suc h mod L + L - Suc c) mod L = (h + L - c) mod L" and "(h + L - c + c) mod L = h"
proof -
  show "(Suc h mod L + L - Suc c) mod L = (h + L - c) mod L"
  proof (cases "Suc h = L")
    case True
    then have wrap: "Suc h mod L = 0" by simp
    have "h + L - c = (h - c) + L" "0 + L - Suc c = h - c" using True assms by linarith+
    then show ?thesis unfolding wrap by (simp only: mod_add_self2)
  next
    case False
    with assms(1) have "Suc h mod L = Suc h" by (intro mod_less) simp
    then show ?thesis by simp
  qed
  have "h + L - c + c = h + L" using assms by simp
  then show "(h + L - c + c) mod L = h" using assms(1) by simp
qed

lemma put_record_room:
  assumes "valid_ring r" and "length (pending_records r) < 1024"
  shows "pending_records (put_record r x) = pending_records r @ [truncated x]"
    and "rb_dropped (put_record r x) = rb_dropped r"
proof -
  let ?h = "unat (rb_head r)" and ?c = "unat (rb_count r)" and ?e = "written_entry r x"
  let ?buf = "(rb_buffer r)[?h := ?e]"
  from assms have c: "?c < 1024" and h: "?h < 1024" and len: "length (rb_buffer r) = 1024"
    by (simp_all add: valid_ring_def pending_records_def pending_entries_def)
  have count: "unat (rb_count r + 1) = Suc ?c" using c by (simp add: unat_word_ariths)
  have "ring_slice ?buf (Suc ?h mod 1024 + 1024 - Suc ?c) (Suc ?c) = ring_slice ?buf (?h + 1024 - ?c) (Suc ?c)"
    by (rule ring_slice_cong) (simp add: len, rule mod_next_start(1) [OF h c])
  also have "\<dots> = ring_slice (rb_buffer r) (?h + 1024 - ?c) ?c @ [?e]"
    using ring_slice_push [of ?c "rb_buffer r" "?h + 1024 - ?c" ?e] c
    unfolding len mod_next_start(2) [OF h c] by simp
  finally show "pending_records (put_record r x) = pending_records r @ [truncated x]"
    using c written_entry(1) [OF assms(1), of x] ring_next [OF h]
    by (simp add: put_record_eq pending_records_def pending_entries_def ring_start_def Let_def count
        word_less_nat_alt)
  show "rb_dropped (put_record r x) = rb_dropped r"
    using c by (simp add: put_record_eq Let_def word_less_nat_alt)
qed

lemma put_record_full:
  assumes "valid_ring r" and "length (pending_records r) = 1024"
  shows "pending_records (put_record r x) = tl (pending_records r) @ [truncated x]"
    and "rb_dropped (put_record r x) = rb_dropped r + 1"
proof -
  let ?h = "unat (rb_head r)" and ?e = "written_entry r x"
  let ?buf = "(rb_buffer r)[?h := ?e]"
  from assms have c: "unat (rb_count r) = 1024" and h: "?h < 1024" and len: "length (rb_buffer r) = 1024"
    by (simp_all add: valid_ring_def pending_records_def pending_entries_def)
  have "ring_slice ?buf (Suc ?h mod 1024) 1024 = ring_slice ?buf (Suc ?h) 1024"
    by (rule ring_slice_cong) (simp_all add: len)
  also have "\<dots> = tl (ring_slice (rb_buffer r) ?h 1024) @ [?e]"
    using ring_slice_overwrite [of "rb_buffer r" 1023 ?h ?e] h by (simp add: len)
  finally show "pending_records (put_record r x) = tl (pending_records r) @ [truncated x]"
    using c written_entry(1) [OF assms(1), of x] ring_next [OF h]
    by (simp add: put_record_eq pending_records_def pending_entries_def ring_start_def Let_def
        word_less_nat_alt map_tl)
  show "rb_dropped (put_record r x) = rb_dropped r + 1"
    using c by (simp add: put_record_eq Let_def word_less_nat_alt)
qed

lemma drain_pending_eq:
  assumes "valid_ring r"
  shows "drain_pending r = (pending_entries r, r\<lparr>rb_count := 0\<rparr>)"
proof (cases "rb_count r = 0")
  case True
  then show ?thesis by (simp add: drain_pending_def pending_entries_def ring_slice_def)
next
  case False
  let ?s = "(rb_head r + kCapacity - rb_count r) mod kCapacity"
  from assms have h: "unat (rb_head r) < 1024" and c: "unat (rb_count r) \<le> 1024"
    and len: "length (rb_buffer r) = 1024" by (simp_all add: valid_ring_def)
  have s: "unat ?s = ring_start r mod 1024"
    unfolding ring_start_def by (rule ring_start_word [OF h c])
  have "unat ((?s + of_nat i) mod kCapacity) = (ring_start r + i) mod 1024" if "i < unat (rb_count r)" for i
    using ring_index_word [of ?s i] that c by (simp add: s mod_add_left_eq)
  with False show ?thesis
    by (simp add: drain_pending_def Let_def pending_entries_def ring_slice_def len)
qed

lemma valid_new_log_ring [valid_intros]: "valid_ring new_log_ring"
  by (simp add: valid_ring_def new_log_ring_def list_all_iff valid_entry_def blank_entry_def)

interpretation ring: drop_oldest valid_ring pending_records rb_dropped put_record truncated
  "\<lambda>r. map_prod (map entry_record) id (drain_pending r)" 1024
proof
  fix q x
  assume "valid_ring q"
  then show "valid_ring (put_record q x)" by (rule valid_put_record)
  from \<open>valid_ring q\<close> show "length (pending_records q) \<le> 1024"
    by (simp add: valid_ring_def pending_records_def pending_entries_def)
next
  fix q x xs q'
  assume "valid_ring q" and "map_prod (map entry_record) id (drain_pending q) = (xs, q')"
  then show "xs = pending_records q \<and> valid_ring q' \<and> pending_records q' = [] \<and> rb_dropped q' = rb_dropped q"
    by (auto simp: drain_pending_eq pending_records_def pending_entries_def valid_ring_def ring_slice_def)
qed (simp_all only: put_record_room put_record_full)

end
