(* ===== verification/Log_Files.thy ===== *)
theory Log_Files
  imports Ring_Buffer_Logger
begin

text \<open>
  The disk side of the logger: time stamps and lines, \<open>write_entries\<close>, the rotation of the log file, and
  the flush thread with \<open>start\<close> and \<open>stop\<close>, interleaved with calls of \<open>log\<close>.
\<close>

section \<open>Time stamps\<close>

definition leap_year :: "nat \<Rightarrow> bool" where
  "leap_year y \<longleftrightarrow> 4 dvd y \<and> (100 dvd y \<longrightarrow> 400 dvd y)"

definition days_in_year :: "nat \<Rightarrow> nat" where
  "days_in_year y = (if leap_year y then 366 else 365)"

definition days_in_month :: "nat \<Rightarrow> nat \<Rightarrow> nat" where
  "days_in_month y m =
     (if m = 2 then (if leap_year y then 29 else 28)
      else if m \<in> {4, 6, 9, 11} then 30 else 31)"

text \<open>\<open>gmtime_r\<close> on the days since 1 January of year \<open>y\<close>, and on the days since the start of month \<open>m\<close>.\<close>

function civil_year :: "nat \<Rightarrow> nat \<Rightarrow> nat \<times> nat" where
  "civil_year y d = (if d < days_in_year y then (y, d) else civil_year (Suc y) (d - days_in_year y))"
  by pat_completeness auto
termination by (relation "measure snd") (auto simp: days_in_year_def)

function civil_month :: "nat \<Rightarrow> nat \<Rightarrow> nat \<Rightarrow> nat \<times> nat" where
  "civil_month y m d =
     (if d < days_in_month y m then (m, Suc d) else civil_month y (Suc m) (d - days_in_month y m))"
  by pat_completeness auto
termination by (relation "measure (snd \<circ> snd)") (auto simp: days_in_month_def)

declare civil_year.simps [simp del] civil_month.simps [simp del]

definition civil_date :: "nat \<Rightarrow> nat \<times> nat \<times> nat" where
  "civil_date days =
     (case civil_year 1970 days of (y, d) \<Rightarrow> (case civil_month y 1 d of (m, dd) \<Rightarrow> (y, m, dd)))"

definition padded :: "nat \<Rightarrow> nat \<Rightarrow> string" where
  "padded w n = replicate (w - length (dec_string n)) CHR ''0'' @ dec_string n"

definition format_timestamp :: "nat \<Rightarrow> string" where
  "format_timestamp tp =
     (let secs = tp div 1000000000; ms = tp div 1000000 mod 1000; day = secs mod 86400 in
      case civil_date (secs div 86400) of (y, m, d) \<Rightarrow>
        padded 4 y @ ''-'' @ padded 2 m @ ''-'' @ padded 2 d @ ''T'' @
        padded 2 (day div 3600) @ '':'' @ padded 2 (day div 60 mod 60) @ '':'' @ padded 2 (day mod 60) @
        ''.'' @ padded 3 ms @ ''Z'')"

fun level_name :: "log_level \<Rightarrow> string" where
  "level_name Info = ''INFO''"
| "level_name Warn = ''WARN''"
| "level_name Error = ''ERROR''"

definition log_line :: "log_entry \<Rightarrow> string" where
  "log_line e =
     format_timestamp (entry_timestamp e) @ '' ['' @ level_name (entry_level e) @ ''] '' @
     take (entry_message_len e) (entry_message e) @ [CHR 0x0A]"

section \<open>Files\<close>

text \<open>
  The file system the logger sees: contents by path, and which paths can be opened for appending and
  which renames the system lets through; a refused one leaves everything as it was, as the code
  ignores the stream's state and the error code.
\<close>

record disk =
  files :: "string \<Rightarrow> string option"
  can_open :: "string \<Rightarrow> bool"
  can_rename :: "string \<Rightarrow> string \<Rightarrow> bool"

definition append_file :: "disk \<Rightarrow> string \<Rightarrow> string \<Rightarrow> disk" where
  "append_file d path txt =
     (if can_open d path
      then d\<lparr>files := (files d)(path \<mapsto> (case files d path of None \<Rightarrow> txt | Some s \<Rightarrow> s @ txt))\<rparr>
      else d)"

definition rename_file :: "disk \<Rightarrow> string \<Rightarrow> string \<Rightarrow> disk" where
  "rename_file d src dst =
     (case files d src of
        None \<Rightarrow> d
      | Some s \<Rightarrow> if can_rename d src dst then d\<lparr>files := (files d)(src := None, dst \<mapsto> s)\<rparr> else d)"

record log_config =
  log_path :: string
  max_file_bytes :: size_t
  max_backups :: int

definition backup_path :: "string \<Rightarrow> nat \<Rightarrow> string" where
  "backup_path path i = path @ ''.'' @ dec_string i"

fun shift_backups :: "disk \<Rightarrow> string \<Rightarrow> nat \<Rightarrow> disk" where
  "shift_backups d path i =
     (if i \<ge> 2 then
        let src = backup_path path (i - 1); dst = backup_path path i in
          shift_backups (if files d src \<noteq> None then rename_file d src dst else d) path (i - 1)
      else d)"

declare shift_backups.simps [simp del]

definition rotate_if_needed :: "log_config \<Rightarrow> disk \<Rightarrow> disk" where
  "rotate_if_needed cfg d =
     (case files d (log_path cfg) of
        None \<Rightarrow> d
      | Some s \<Rightarrow>
          if length s < unat (max_file_bytes cfg) then d
          else rename_file (shift_backups d (log_path cfg) (nat (max_backups cfg)))
                 (log_path cfg) (backup_path (log_path cfg) 1))"

definition write_entries :: "log_config \<Rightarrow> disk \<Rightarrow> log_entry list \<Rightarrow> disk" where
  "write_entries cfg d entries =
     (if entries = [] then d
      else rotate_if_needed cfg (append_file d (log_path cfg) (concat (map log_line entries))))"

definition flush_pending :: "log_config \<Rightarrow> log_ring \<Rightarrow> disk \<Rightarrow> log_ring \<times> disk" where
  "flush_pending cfg r d =
     (case drain_pending r of (drained, r') \<Rightarrow> (r', write_entries cfg d drained))"

section \<open>Threads\<close>

text \<open>
  The flush thread at the test of its loop, waiting, about to drain, writing what it drained (outside
  the lock), or returned; and the owner of the logger inside \<open>stop\<close>, whose last act is a drain of its
  own.
\<close>

datatype flusher_pc = F_none | F_test | F_wait | F_drain | F_write "log_entry list" | F_done

datatype closer_pc = C_open | C_join | C_drain | C_write "log_entry list" | C_closed

record log_sys =
  ls_ring :: log_ring
  ls_disk :: disk
  ls_flusher :: flusher_pc
  ls_stop :: bool
  ls_running :: bool
  ls_closer :: closer_pc

definition RingBufferLogger :: "disk \<Rightarrow> log_sys" where
  "RingBufferLogger d = \<lparr>ls_ring = new_log_ring, ls_disk = d, ls_flusher = F_none, ls_stop = False,
     ls_running = False, ls_closer = C_open\<rparr>"

definition start_logger :: "log_sys \<Rightarrow> log_sys" where
  "start_logger s =
     (if ls_running s then s else s\<lparr>ls_running := True, ls_flusher := F_test, ls_stop := False\<rparr>)"

text \<open>A step, with the record it logs and the batches it writes.\<close>

inductive log_step ::
  "log_config \<Rightarrow> log_sys \<Rightarrow> log_record list \<times> log_entry list list \<Rightarrow> log_sys \<Rightarrow> bool" for cfg where
  calls_log: "log_step cfg s ([(now, level, message)], [])
     (s\<lparr>ls_ring := log (ls_ring s) now level message\<rparr>)"
| loop_goes_on: "ls_flusher s = F_test \<Longrightarrow> \<not> ls_stop s \<Longrightarrow>
     log_step cfg s ([], []) (s\<lparr>ls_flusher := F_wait\<rparr>)"
| loop_ends: "ls_flusher s = F_test \<Longrightarrow> ls_stop s \<Longrightarrow> log_step cfg s ([], []) (s\<lparr>ls_flusher := F_done\<rparr>)"
| wakes_up: "ls_flusher s = F_wait \<Longrightarrow> log_step cfg s ([], []) (s\<lparr>ls_flusher := F_drain\<rparr>)"
| drains: "ls_flusher s = F_drain \<Longrightarrow> drain_pending (ls_ring s) = (es, r) \<Longrightarrow>
     log_step cfg s ([], []) (s\<lparr>ls_ring := r, ls_flusher := (if es = [] then F_test else F_write es)\<rparr>)"
| writes: "ls_flusher s = F_write es \<Longrightarrow>
     log_step cfg s ([], [es]) (s\<lparr>ls_disk := write_entries cfg (ls_disk s) es, ls_flusher := F_test\<rparr>)"
| asks_stop: "ls_closer s = C_open \<Longrightarrow> ls_running s \<Longrightarrow>
     log_step cfg s ([], []) (s\<lparr>ls_running := False, ls_stop := True, ls_closer := C_join\<rparr>)"
| joins: "ls_closer s = C_join \<Longrightarrow> ls_flusher s = F_done \<Longrightarrow>
     log_step cfg s ([], []) (s\<lparr>ls_closer := C_drain\<rparr>)"
| last_drain: "ls_closer s = C_drain \<Longrightarrow> drain_pending (ls_ring s) = (es, r) \<Longrightarrow>
     log_step cfg s ([], []) (s\<lparr>ls_ring := r, ls_closer := (if es = [] then C_closed else C_write es)\<rparr>)"
| last_write: "ls_closer s = C_write es \<Longrightarrow>
     log_step cfg s ([], [es]) (s\<lparr>ls_disk := write_entries cfg (ls_disk s) es, ls_closer := C_closed\<rparr>)"

inductive log_run ::
  "log_config \<Rightarrow> log_sys \<Rightarrow> log_record list \<Rightarrow> log_entry list list \<Rightarrow> log_sys \<Rightarrow> bool" for cfg s where
  log_run_nil: "log_run cfg s [] [] s"
| log_run_snoc: "log_run cfg s logged written t \<Longrightarrow> log_step cfg t (l, w) u
    \<Longrightarrow> log_run cfg s (logged @ l) (written @ w) u"

text \<open>The entries that are drained and not yet written.\<close>

fun flusher_holds :: "flusher_pc \<Rightarrow> log_entry list" where
  "flusher_holds (F_write es) = es"
| "flusher_holds _ = []"

fun closer_holds :: "closer_pc \<Rightarrow> log_entry list" where
  "closer_holds (C_write es) = es"
| "closer_holds _ = []"

definition in_flight :: "log_sys \<Rightarrow> log_entry list" where
  "in_flight s = flusher_holds (ls_flusher s) @ closer_holds (ls_closer s)"

end
