(* ===== verification/Log_System.thy ===== *)
theory Log_System
  imports Log_Files
begin

text \<open>
  The properties of the logger: what is pending after \<open>log\<close>, what happens to every record under all
  interleavings of producers, flush thread and \<open>stop\<close>, and what rotation does to the files.
\<close>

section \<open>Dates\<close>

text \<open>The number of days from 1 January 1970 to a date, counted year by year and month by month.\<close>

definition days_of_date :: "nat \<times> nat \<times> nat \<Rightarrow> nat" where
  "days_of_date date =
     (case date of (y, m, d) \<Rightarrow>
        sum_list (map days_in_year [1970..<y]) + sum_list (map (days_in_month y) [1..<m]) + (d - 1))"

definition valid_date :: "nat \<times> nat \<times> nat \<Rightarrow> bool" where
  "valid_date date \<longleftrightarrow>
     (case date of (y, m, d) \<Rightarrow> 1970 \<le> y \<and> 1 \<le> m \<and> m \<le> 12 \<and> 1 \<le> d \<and> d \<le> days_in_month y m)"

lemma civil_year_correct:
  assumes "civil_year y d = (y', d')"
  shows "y \<le> y' \<and> d' < days_in_year y' \<and> d = sum_list (map days_in_year [y..<y']) + d'"
  using assms
proof (induction y d rule: civil_year.induct)
  case (1 y d)
  show ?case
  proof (cases "d < days_in_year y")
    case True
    with "1.prems" show ?thesis by (simp add: civil_year.simps)
  next
    case False
    with "1.prems" have "civil_year (Suc y) (d - days_in_year y) = (y', d')"
      by (simp add: civil_year.simps [of y d])
    from "1.IH" [OF False this] False show ?thesis by (auto simp: upt_conv_Cons)
  qed
qed

lemma civil_month_correct:
  assumes "civil_month y m d = (m', d')"
  shows "m \<le> m' \<and> 1 \<le> d' \<and> d' \<le> days_in_month y m' \<and>
    d = sum_list (map (days_in_month y) [m..<m']) + (d' - 1)"
  using assms
proof (induction y m d rule: civil_month.induct)
  case (1 y m d)
  show ?case
  proof (cases "d < days_in_month y m")
    case True
    with "1.prems" show ?thesis by (auto simp: civil_month.simps)
  next
    case False
    with "1.prems" have "civil_month y (Suc m) (d - days_in_month y m) = (m', d')"
      by (simp add: civil_month.simps [of y m d])
    from "1.IH" [OF False this] False show ?thesis by (auto simp: upt_conv_Cons)
  qed
qed

lemma months_of_year: "sum_list (map (days_in_month y) [1..<13]) = days_in_year y"
  by (simp add: upt_rec days_in_month_def days_in_year_def)

lemma civil_month_bound:
  assumes "d < days_in_year y" and "civil_month y 1 d = (m, d')"
  shows "m \<le> 12"
proof (rule ccontr)
  assume "\<not> m \<le> 12"
  then have "[1..<m] = [1..<13] @ [13..<m]"
    using upt_add_eq_append [of 1 13 "m - 13"] by simp
  with civil_month_correct [OF assms(2)] have
    "d = sum_list (map (days_in_month y) ([1..<13] @ [13..<m])) + (d' - 1)" by simp
  then have "days_in_year y \<le> d" unfolding map_append sum_list_append months_of_year by linarith
  with assms(1) show False by simp
qed

section \<open>Rotation\<close>

lemma backup_path_inject [simp]: "backup_path path i = backup_path path j \<longleftrightarrow> i = j"
  by (simp add: backup_path_def dec_string_inject)

lemma backup_path_neq [simp]: "backup_path path i \<noteq> path" "path \<noteq> backup_path path i"
  by (simp_all add: backup_path_def)

definition all_renames :: "disk \<Rightarrow> bool" where
  "all_renames d \<longleftrightarrow> (\<forall>src dst. can_rename d src dst)"

lemma shift_once_files:
  assumes "all_renames d"
  shows "all_renames (if files d (backup_path path n) \<noteq> None
      then rename_file d (backup_path path n) (backup_path path (Suc n)) else d)"
    and "files (if files d (backup_path path n) \<noteq> None
      then rename_file d (backup_path path n) (backup_path path (Suc n)) else d) q =
      (if q = backup_path path n then None
       else if q = backup_path path (Suc n) then
         (case files d (backup_path path n) of Some s \<Rightarrow> Some s | None \<Rightarrow> files d q)
       else files d q)"
  using assms by (auto simp: rename_file_def all_renames_def split: option.splits)

text \<open>What the shifting loop from \<open>n\<close> down to 2 leaves at a backup path, and elsewhere.\<close>

definition shifted :: "(string \<Rightarrow> string option) \<Rightarrow> string \<Rightarrow> nat \<Rightarrow> nat \<Rightarrow> string option" where
  "shifted fs path n j =
     (if j = 1 then None
      else case fs (backup_path path (j - 1)) of
        Some s \<Rightarrow> Some s
      | None \<Rightarrow> if j = n then fs (backup_path path j) else None)"

lemma shifted_step:
  assumes fs': "\<And>q. fs' q = (if q = backup_path path n then None
       else if q = backup_path path (Suc n) then
         (case fs (backup_path path n) of Some s \<Rightarrow> Some s | None \<Rightarrow> fs q)
       else fs q)"
    and "1 \<le> j" and "j \<le> n"
  shows "shifted fs' path n j = shifted fs path (Suc n) j"
proof -
  have "fs' (backup_path path n) = None" by (simp add: fs')
  moreover have "fs' (backup_path path (j - 1)) = fs (backup_path path (j - 1))"
    using assms(2,3) by (auto simp: fs')
  ultimately show ?thesis using assms(2,3) by (simp add: shifted_def split: option.split)
qed

lemma shift_backups_files:
  assumes "all_renames d" and "2 \<le> n"
  shows "all_renames (shift_backups d path n) \<and>
    (\<forall>j\<in>{1..n}. files (shift_backups d path n) (backup_path path j) = shifted (files d) path n j) \<and>
    (\<forall>q. q \<notin> backup_path path ` {1..n} \<longrightarrow> files (shift_backups d path n) q = files d q)"
  using assms(2,1)
proof (induction n arbitrary: d rule: dec_induct)
  case base
  have "shift_backups d path 2 = (if files d (backup_path path 1) \<noteq> None
      then rename_file d (backup_path path 1) (backup_path path (Suc 1)) else d)"
    unfolding numeral_2_eq_2
    by (subst shift_backups.simps) (simp add: shift_backups.simps [of _ path "Suc 0"])
  moreover have "{1..2} = {1, Suc 1}" by auto
  ultimately show ?case
    using shift_once_files [OF base, of path 1] by (simp add: shifted_def numeral_2_eq_2)
next
  case (step n)
  let ?d = "if files d (backup_path path n) \<noteq> None
    then rename_file d (backup_path path n) (backup_path path (Suc n)) else d"
  note once = shift_once_files [OF step.prems, of path n]
  have eq: "shift_backups d path (Suc n) = shift_backups ?d path n"
    using step.hyps by (simp add: shift_backups.simps [of d path "Suc n"])
  note IH = step.IH [OF once(1)]
  have "files (shift_backups ?d path n) (backup_path path j) = shifted (files d) path (Suc n) j"
    if "j \<in> {1..Suc n}" for j
  proof (cases "j = Suc n")
    case True
    then have "backup_path path j \<notin> backup_path path ` {1..n}" by auto
    with IH True step.hyps show ?thesis by (simp only: once(2)) (simp add: shifted_def)
  next
    case False
    with that have "j \<in> {1..n}" by simp
    with IH have "files (shift_backups ?d path n) (backup_path path j) = shifted (files ?d) path n j" by blast
    also have "\<dots> = shifted (files d) path (Suc n) j"
      by (rule shifted_step [OF once(2)]) (use \<open>j \<in> {1..n}\<close> in simp_all)
    finally show ?thesis .
  qed
  moreover have "files (shift_backups ?d path n) q = files d q"
    if "q \<notin> backup_path path ` {1..Suc n}" for q
  proof -
    from that have "q \<notin> backup_path path ` {1..n}" "q \<noteq> backup_path path n" "q \<noteq> backup_path path (Suc n)"
      using step.hyps by auto
    with IH show ?thesis by (simp only: once(2)) simp
  qed
  ultimately show ?case using IH unfolding eq by blast
qed

section \<open>Invariant of the logging threads\<close>

definition owner_draining :: "closer_pc \<Rightarrow> bool" where
  "owner_draining pc \<longleftrightarrow> pc = C_drain \<or> pc = C_closed \<or> (\<exists>es. pc = C_write es)"

definition log_inv :: "log_config \<Rightarrow> disk \<Rightarrow> log_record list \<Rightarrow> log_entry list list \<Rightarrow> log_sys \<Rightarrow> bool" where
  "log_inv cfg d0 logged written t \<longleftrightarrow>
     ring.history new_log_ring logged (map entry_record (concat written @ in_flight t)) (ls_ring t) \<and>
     ls_disk t = foldl (write_entries cfg) d0 written \<and>
     (owner_draining (ls_closer t) \<longrightarrow> ls_flusher t = F_done) \<and>
     (ls_closer t = C_open \<longrightarrow> ls_running t)"

lemma in_flight_simps [simp]:
  "in_flight (s\<lparr>ls_ring := r\<rparr>) = in_flight s" "in_flight (s\<lparr>ls_disk := d\<rparr>) = in_flight s"
  "in_flight (s\<lparr>ls_stop := b\<rparr>) = in_flight s" "in_flight (s\<lparr>ls_running := b\<rparr>) = in_flight s"
  by (simp_all add: in_flight_def)

lemma history_drain:
  assumes "ring.history r0 given taken r" and "drain_pending r = (es, r')"
  shows "ring.history r0 given (taken @ map entry_record es) r'"
  by (rule ring.history.hist_take [OF assms(1)]) (simp add: assms(2))

lemma log_step_inv:
  "log_step cfg s lw t \<Longrightarrow> log_inv cfg d0 logged written s \<Longrightarrow>
   log_inv cfg d0 (logged @ fst lw) (written @ snd lw) t"
proof (induction rule: log_step.induct)
  case (calls_log s now level message)
  then show ?case
    using ring.history.hist_put [of new_log_ring logged _ "ls_ring s" "(now, level, message)"]
    by (simp add: log_inv_def)
next
  case (drains s es r)
  then have closer: "closer_holds (ls_closer s) = []" "ls_flusher s \<noteq> F_done"
    by (cases "ls_closer s"; simp add: log_inv_def owner_draining_def)+
  with drains history_drain [OF _ drains(2)] show ?case
    by (auto simp: log_inv_def in_flight_def)
next
  case (writes s es)
  then have "closer_holds (ls_closer s) = []"
    by (cases "ls_closer s") (simp_all add: log_inv_def owner_draining_def)
  with writes show ?case by (simp add: log_inv_def in_flight_def owner_draining_def)
next
  case (last_drain s es r)
  with history_drain [OF _ last_drain(2)] show ?case
    by (auto simp: log_inv_def in_flight_def owner_draining_def)
qed (auto simp: log_inv_def in_flight_def owner_draining_def)

lemma log_run_inv:
  assumes "log_run cfg s logged written t" and "s = start_logger (RingBufferLogger d0)"
  shows "log_inv cfg d0 logged written t"
  using assms
proof (induction rule: log_run.induct)
  case log_run_nil
  then show ?case
    by (simp add: log_inv_def start_logger_def RingBufferLogger_def in_flight_def owner_draining_def
        ring.history.hist_start)
next
  case (log_run_snoc logged written t l w u)
  then show ?case using log_step_inv by fastforce
qed

text \<open>What the invariant says of the records.\<close>

lemma log_inv_accounts:
  assumes inv: "log_inv cfg d logged written t"
  shows "subseq (map entry_record (concat written @ in_flight t) @ pending_records (ls_ring t))
      (map truncated logged) \<and>
    (\<exists>lost. length logged = length (concat written) + length (in_flight t) +
        length (pending_records (ls_ring t)) + lost \<and>
      rb_dropped (ls_ring t) = of_nat lost \<and> (lost = 0 \<or> 1024 < length logged)) \<and>
    ls_disk t = foldl (write_entries cfg) d written \<and>
    (ls_closer t = C_closed \<longrightarrow> in_flight t = [])"
proof -
  from inv have "ring.history new_log_ring logged (map entry_record (concat written @ in_flight t)) (ls_ring t)"
    by (simp add: log_inv_def)
  moreover have "pending_records new_log_ring = []" "rb_dropped new_log_ring = 0"
    by (simp_all add: pending_records_def pending_entries_def ring_slice_def new_log_ring_def)
  ultimately have "ring.accounted new_log_ring logged (map entry_record (concat written @ in_flight t)) (ls_ring t)"
    using ring.history_accounted [OF _ valid_new_log_ring] by blast
  with inv \<open>rb_dropped new_log_ring = 0\<close> show ?thesis
    by (auto simp: ring.accounted_def log_inv_def in_flight_def owner_draining_def)
qed

section \<open>Properties\<close>

text \<open>
  C33. \<open>log\<close> on a buffer with room appends the record, its message cut to 160 characters, to the pending
  ones; on a full buffer it also forgets the oldest pending record and counts it as dropped. A drain
  hands over all pending records in order and empties the buffer.
\<close>

theorem log_drops_oldest:
  assumes "valid_ring r"
  shows "(let r' = log r now level message; x = (now, level, take kMaxMessageLen message) in
      valid_ring r' \<and>
      (if length (pending_records r) < 1024
       then pending_records r' = pending_records r @ [x] \<and> rb_dropped r' = rb_dropped r
       else pending_records r' = tl (pending_records r) @ [x] \<and> rb_dropped r' = rb_dropped r + 1)) \<and>
    (let (es, r') = drain_pending r in
      map entry_record es = pending_records r \<and> pending_records r' = [] \<and> valid_ring r')"
proof -
  note put = ring.put_ok [OF assms, of "(now, level, message)"]
    ring.put_room [OF assms, of "(now, level, message)"] ring.put_full [OF assms, of "(now, level, message)"]
  from ring.pending_bound [OF assms] put
    ring.take_all_pending [OF assms, of "pending_records r" "r\<lparr>rb_count := 0\<rparr>"]
  show ?thesis
    by (auto simp: Let_def drain_pending_eq [OF assms] pending_records_def)
qed

theorem log_drops_oldest_witness:
  "pending_records (log new_log_ring 5 Warn ''disk full'') = [(5, Warn, ''disk full'')]"
proof -
  have "pending_records new_log_ring = []"
    by (simp add: pending_records_def pending_entries_def ring_slice_def new_log_ring_def)
  with log_drops_oldest [OF valid_new_log_ring, of 5 Warn "''disk full''"] show ?thesis
    by (simp add: Let_def kMaxMessageLen_def)
qed

text \<open>
  C32. Every logged record is accounted for, under every interleaving of \<open>log\<close> calls, the flush thread
  and \<open>stop\<close>: the records written, the ones drained but not yet written and the pending ones are, in
  this order, a subsequence of the records logged; the others are exactly those the drop counter
  counts, none are dropped before 1024 records were logged, the disk is the result of
  writing the batches in order, and once \<open>stop\<close> is through nothing is left in flight.
\<close>

theorem records_accounted:
  assumes "log_run cfg (start_logger (RingBufferLogger d)) logged written t"
  shows "subseq (map entry_record (concat written @ in_flight t) @ pending_records (ls_ring t))
      (map truncated logged) \<and>
    (\<exists>lost. length logged = length (concat written) + length (in_flight t) +
        length (pending_records (ls_ring t)) + lost \<and>
      rb_dropped (ls_ring t) = of_nat lost \<and> (lost = 0 \<or> 1024 < length logged)) \<and>
    ls_disk t = foldl (write_entries cfg) d written \<and>
    (ls_closer t = C_closed \<longrightarrow> in_flight t = [])"
  by (rule log_inv_accounts [OF log_run_inv [OF assms refl]])

theorem records_accounted_witness:
  "subseq [(5, Warn, ''disk full'')] (map truncated [(5, Warn, ''disk full'')])"
proof -
  let ?d = "\<lparr>files = Map.empty, can_open = (\<lambda>_. True), can_rename = (\<lambda>_ _. True)\<rparr>"
  let ?cfg = "\<lparr>log_path = ''softplc.log'', max_file_bytes = 5242880, max_backups = 3\<rparr>"
  let ?s = "start_logger (RingBufferLogger ?d)"
  have "log_run ?cfg ?s ([] @ [(5, Warn, ''disk full'')]) ([] @ [])
      (?s\<lparr>ls_ring := log (ls_ring ?s) 5 Warn ''disk full''\<rparr>)"
    by (rule log_run.log_run_snoc [OF log_run.log_run_nil log_step.calls_log])
  then have run: "log_run ?cfg ?s [(5, Warn, ''disk full'')] []
      (?s\<lparr>ls_ring := log (ls_ring ?s) 5 Warn ''disk full''\<rparr>)" by simp
  have "ls_ring ?s = new_log_ring" "in_flight ?s = []"
    by (simp_all add: start_logger_def RingBufferLogger_def in_flight_def)
  moreover have "pending_records (log new_log_ring 5 Warn ''disk full'') = [(5, Warn, ''disk full'')]"
    using ring.put_room [OF valid_new_log_ring, of "(5, Warn, ''disk full'')"]
    by (simp add: pending_records_def pending_entries_def ring_slice_def new_log_ring_def kMaxMessageLen_def)
  ultimately show ?thesis using records_accounted [OF run] by (simp add: kMaxMessageLen_def)
qed

text \<open>
  C35. Rotation: a log file that has reached the limit becomes backup 1, every backup moves up by one,
  the oldest is overwritten, no other file changes, and a smaller log file is left alone. (With a
  limit of no backups at all the log file still becomes backup 1.)
\<close>

theorem rotation_shifts_backups:
  assumes "files d (log_path cfg) = Some s" and "all_renames d" and "nat (max_backups cfg) = n"
  shows "if length s < unat (max_file_bytes cfg) then rotate_if_needed cfg d = d
    else let path = log_path cfg; after = files (rotate_if_needed cfg d) in
      after path = None \<and> after (backup_path path 1) = Some s \<and>
      (\<forall>j\<in>{2..n}. after (backup_path path j) = shifted (files d) path n j) \<and>
      (\<forall>q. q \<notin> backup_path path ` {1..max n 1} \<longrightarrow> q \<noteq> path \<longrightarrow> after q = files d q)"
proof (cases "length s < unat (max_file_bytes cfg)")
  case True
  with assms(1) show ?thesis by (simp add: rotate_if_needed_def)
next
  case False
  let ?path = "log_path cfg" and ?d = "shift_backups d (log_path cfg) n"
  have shift: "all_renames ?d \<and> (\<forall>j\<in>{2..n}. files ?d (backup_path ?path j) = shifted (files d) ?path n j) \<and>
      (\<forall>q. q \<notin> backup_path ?path ` {1..max n 1} \<longrightarrow> files ?d q = files d q)"
  proof (cases "2 \<le> n")
    case True
    with shift_backups_files [OF assms(2) this, of ?path] show ?thesis by (simp add: max_def)
  next
    case False
    with assms(2) show ?thesis by (simp add: shift_backups.simps)
  qed
  have "?path \<notin> backup_path ?path ` {1..max n 1}" by auto
  with shift assms(1) have "files ?d ?path = Some s" by simp
  with shift False assms(1,3) show ?thesis
    by (auto simp: rotate_if_needed_def rename_file_def all_renames_def Let_def)
qed

theorem rotation_shifts_backups_witness:
  "let d = \<lparr>files = [''a'' \<mapsto> ''new'', ''a.1'' \<mapsto> ''old''], can_open = (\<lambda>_. True), can_rename = (\<lambda>_ _. True)\<rparr>;
       cfg = \<lparr>log_path = ''a'', max_file_bytes = 3, max_backups = 2\<rparr> in
     files (rotate_if_needed cfg d) (backup_path ''a'' 1) = Some ''new'' \<and>
     files (rotate_if_needed cfg d) (backup_path ''a'' 2) = Some ''old''"
proof -
  let ?d = "\<lparr>files = [''a'' \<mapsto> ''new'', ''a.1'' \<mapsto> ''old''], can_open = (\<lambda>_. True), can_rename = (\<lambda>_ _. True)\<rparr>"
  let ?cfg = "\<lparr>log_path = ''a'', max_file_bytes = 3, max_backups = 2\<rparr>"
  have "backup_path ''a'' 1 = ''a.1''" by code_simp
  with rotation_shifts_backups [of ?d ?cfg "''new''" 2] show ?thesis
    by (simp add: all_renames_def Let_def shifted_def)
qed

lemma civil_date_correct:
  "valid_date (civil_date days) \<and> days_of_date (civil_date days) = days"
proof -
  obtain y d where y: "civil_year 1970 days = (y, d)" by (cases "civil_year 1970 days")
  obtain m dd where m: "civil_month y 1 d = (m, dd)" by (cases "civil_month y 1 d")
  have date: "civil_date days = (y, m, dd)" unfolding civil_date_def y prod.case m ..
  have "days_of_date (y, m, dd) = days"
    using civil_year_correct [OF y] civil_month_correct [OF m] unfolding days_of_date_def prod.case by linarith
  moreover have "valid_date (y, m, dd)"
    using civil_year_correct [OF y] civil_month_correct [OF m] civil_month_bound [OF _ m]
    by (auto simp: valid_date_def)
  ultimately show ?thesis by (simp only: date simp_thms)
qed

text \<open>A reader of time stamps: the fields at their places, in milliseconds since the epoch.\<close>

definition read_timestamp :: "string \<Rightarrow> nat" where
  "read_timestamp s =
     (let num = (\<lambda>i k. from_base 10 (take k (drop i s))) in
      (days_of_date (num 0 4, num 5 2, num 8 2) * 86400 + num 11 2 * 3600 + num 14 2 * 60 + num 17 2) * 1000
        + num 20 3)"

lemma length_to_base: "0 < w \<Longrightarrow> n < 10 ^ w \<Longrightarrow> length (to_base 10 n) \<le> w"
proof (induction w arbitrary: n)
  case (Suc w)
  show ?case
  proof (cases "n < 10")
    case False
    with Suc.prems have "w \<noteq> 0" "n div 10 < 10 ^ w" by (auto intro: ccontr simp: div_less_iff_less_mult mult.commute)
    with Suc.IH [of "n div 10"] False show ?thesis by (simp add: to_base.simps [of 10 n])
  qed (simp add: to_base.simps)
qed simp

lemma padded_field:
  assumes "0 < w" and "n < 10 ^ w"
  shows "length (padded w n) = w" and "from_base 10 (padded w n) = n"
proof -
  show "length (padded w n) = w" using length_to_base [OF assms] by (simp add: padded_def dec_string_def)
  have "from_base 10 (replicate k CHR ''0'' @ s) = from_base 10 s" for k s
    by (induction k) (simp_all add: from_base_def digit_val_def)
  then show "from_base 10 (padded w n) = n" by (simp add: padded_def dec_string_def from_base_to_base)
qed

lemma read_fields:
  assumes "length a = 4" "length b = 2" "length c = 2" "length d = 2" "length e = 2" "length f = 2" "length g = 3"
  shows "read_timestamp (a @ ''-'' @ b @ ''-'' @ c @ ''T'' @ d @ '':'' @ e @ '':'' @ f @ ''.'' @ g @ ''Z'') =
    (days_of_date (from_base 10 a, from_base 10 b, from_base 10 c) * 86400 + from_base 10 d * 3600
      + from_base 10 e * 60 + from_base 10 f) * 1000 + from_base 10 g"
  using assms by (simp add: read_timestamp_def)

lemma seconds_of_day: "s div 86400 * 86400 + s mod 86400 div 3600 * 3600 + s mod 86400 div 60 mod 60 * 60
    + s mod 86400 mod 60 = (s :: nat)"
proof -
  have "r div 3600 * 3600 + r div 60 mod 60 * 60 + r mod 60 = r" for r :: nat
  proof -
    have "r div 3600 * 60 + r div 60 mod 60 = r div 60"
      using div_mult_mod_eq [of "r div 60" 60] by (simp flip: div_mult2_eq)
    then have "(r div 3600 * 60 + r div 60 mod 60) * 60 + r mod 60 = r" by (simp only: div_mult_mod_eq)
    then show ?thesis by (simp add: add_mult_distrib)
  qed
  from this [of "s mod 86400"] show ?thesis by (simp add: add.assoc)
qed

text \<open>
  C39. Time stamps of log lines, commits and deployments lose nothing above the millisecond: as long as the
  year has four digits, the text names a date of the calendar and reads back, field by field, as the moment it was made
  from, so different milliseconds have different texts.
\<close>

theorem timestamp_roundtrip:
  assumes "fst (civil_date (tp div 86400000000000)) < 10000"
  shows "read_timestamp (format_timestamp tp) = tp div 1000000 \<and>
    valid_date (civil_date (tp div 86400000000000))"
proof -
  let ?secs = "tp div 1000000000" and ?ms = "tp div 1000000 mod 1000"
  have days: "?secs div 86400 = tp div 86400000000000" by (simp flip: div_mult2_eq)
  obtain y m d where date: "civil_date (?secs div 86400) = (y, m, d)" by (metis prod_cases3)
  from civil_date_correct [of "?secs div 86400"] date
  have valid: "valid_date (y, m, d)" "days_of_date (y, m, d) = ?secs div 86400" by simp_all
  then have "y < 10 ^ 4" "m < 10 ^ 2" "d < 10 ^ 2"
    using assms date unfolding days by (auto simp: valid_date_def days_in_month_def split: if_splits)
  moreover have "?secs mod 86400 div 3600 < 10 ^ 2" "?secs mod 86400 div 60 mod 60 < 10 ^ 2"
    "?secs mod 86400 mod 60 < 10 ^ 2" "?ms < 10 ^ 3" by simp_all
  ultimately have "read_timestamp (format_timestamp tp) =
      (?secs div 86400 * 86400 + ?secs mod 86400 div 3600 * 3600 + ?secs mod 86400 div 60 mod 60 * 60
        + ?secs mod 86400 mod 60) * 1000 + ?ms"
    unfolding format_timestamp_def Let_def date prod.case
    by (subst read_fields) (simp_all only: padded_field valid(2) zero_less_numeral)
  also have "\<dots> = ?secs * 1000 + ?ms" by (simp only: seconds_of_day)
  also have "?secs = tp div 1000000 div 1000" by (simp flip: div_mult2_eq)
  also have "tp div 1000000 div 1000 * 1000 + ?ms = tp div 1000000" by (rule div_mult_mod_eq)
  finally show ?thesis using valid date unfolding days by simp
qed

theorem timestamp_roundtrip_witness: "read_timestamp (format_timestamp 1500000000) = 1500"
  using timestamp_roundtrip [of 1500000000]
  by (simp add: civil_date_def civil_year.simps civil_month.simps days_in_year_def days_in_month_def)

end
