(* ===== verification/Byte_Codec.thy ===== *)
theory Byte_Codec
  imports Aslc_Prelude "HOL-Library.Char_ord"
begin

text \<open>
  Big-endian numbers as byte lists, and how the shifts and masks the code uses produce and read them.
  Shared by the digests (message length, words of a block, base64 groups) and the WebSocket frames
  (extended lengths).
\<close>

unbundle bit_operations_syntax

section \<open>Characters as bytes\<close>

definition bytes_of :: "string \<Rightarrow> u8 list" where
  "bytes_of s = map of_char s"

lemma length_bytes_of [simp]: "length (bytes_of s) = length s"
  by (simp add: bytes_of_def)

lemma bytes_of_eq_Nil [simp]: "bytes_of s = [] \<longleftrightarrow> s = []" "[] = bytes_of s \<longleftrightarrow> s = []"
  by (auto simp: bytes_of_def)

lemma bytes_of_append [simp]: "bytes_of (s @ t) = bytes_of s @ bytes_of t"
  by (simp add: bytes_of_def)

lemma unat_of_nat_u8: "unat (of_nat n :: u8) = n mod 256"
  by (simp add: unat_of_nat)

lemma of_char_u8_inject [simp]: "(of_char c :: u8) = of_char d \<longleftrightarrow> c = d"
proof
  assume "(of_char c :: u8) = of_char d"
  then have "unat (of_char c :: u8) = unat (of_char d :: u8)" by simp
  moreover have "unat (of_char x :: u8) = of_char x" for x
    using of_nat_of_char [of x, where ?'a = "8 word"] nat_of_char_less_256 [of x]
    by (metis unat_of_nat_u8 mod_less)
  ultimately show "c = d" by simp
qed simp

lemma bytes_of_inject [simp]: "bytes_of s = bytes_of t \<longleftrightarrow> s = t"
  by (auto simp: bytes_of_def inj_map_eq_map inj_def)

definition text_of :: "u8 list \<Rightarrow> string" where
  "text_of bs = map (\<lambda>b. char_of (unat b)) bs"

lemma text_of_simps [simp]: "text_of [] = []" "length (text_of bs) = length bs"
  "text_of (as @ bs) = text_of as @ text_of bs"
  by (simp_all add: text_of_def)

lemma text_of_bytes_of [simp]: "text_of (bytes_of s) = s"
proof -
  have "unat (of_char c :: u8) = of_char c" for c
    using of_nat_of_char [of c, where ?'a = "8 word"] nat_of_char_less_256 [of c]
    by (metis unat_of_nat_u8 mod_less)
  then show ?thesis by (simp add: text_of_def bytes_of_def comp_def)
qed

section \<open>Big-endian numbers\<close>

definition be_nat :: "u8 list \<Rightarrow> nat" where
  "be_nat bs = foldl (\<lambda>n b. n * 256 + unat b) 0 bs"

primrec to_be :: "nat \<Rightarrow> nat \<Rightarrow> u8 list" where
  "to_be 0 n = []"
| "to_be (Suc k) n = to_be k (n div 256) @ [of_nat n]"

lemma length_to_be [simp]: "length (to_be k n) = k"
  by (induction k arbitrary: n) simp_all

lemma be_nat_Nil [simp]: "be_nat [] = 0"
  by (simp add: be_nat_def)

lemma be_nat_snoc [simp]: "be_nat (bs @ [b]) = be_nat bs * 256 + unat b"
  by (simp add: be_nat_def)

lemma be_nat_to_be: "be_nat (to_be k n) = n mod 256 ^ k"
proof (induction k arbitrary: n)
  case (Suc k)
  have "n mod (256 * 256 ^ k) = 256 * (n div 256 mod 256 ^ k) + n mod 256"
    by (rule mod_mult2_eq)
  with Suc show ?case by (simp add: unat_of_nat_u8)
qed simp

lemma to_be_be_nat: "to_be (length bs) (be_nat bs) = bs"
proof (induction bs rule: rev_induct)
  case (snoc b bs)
  have "unat b < 256" using unsigned_less [of b, where ?'a = nat] by simp
  then have "(be_nat bs * 256 + unat b) div 256 = be_nat bs" by simp
  moreover have "(of_nat (be_nat bs * 256 + unat b) :: u8) = b"
    unfolding word_unat_eq_iff unat_of_nat_u8 using \<open>unat b < 256\<close> by simp
  ultimately show ?case using snoc by simp
qed simp

lemma be_nat_less: "be_nat bs < 256 ^ length bs"
  by (metis be_nat_to_be to_be_be_nat mod_less_divisor zero_less_power zero_less_numeral)

lemma be_nat_inject: "length as = length bs \<Longrightarrow> be_nat as = be_nat bs \<longleftrightarrow> as = bs"
  by (metis to_be_be_nat)

text \<open>The byte \<open>(x >> (i * 8)) & 0xFF\<close> of a 64-bit number.\<close>

lemma mask_byte: "(x AND 0xFF :: 'a::len word) = take_bit 8 x"
proof -
  have "(0xFF :: 'a word) = mask 8" by (simp add: mask_eq_exp_minus_1)
  then show ?thesis by (simp add: take_bit_eq_mask)
qed

lemma shift_byte: "(ucast (drop_bit n x AND 0xFF) :: u8) = of_nat (unat (x :: 'a::len word) div 2 ^ n)"
proof -
  have "unat (ucast (drop_bit n x AND 0xFF) :: u8) = take_bit 8 (drop_bit n (unat x))"
    using take_bit_nat_eq_self [of "unat x" "LENGTH('a)"]
    by (simp add: mask_byte unsigned_ucast_eq unsigned_take_bit_eq unsigned_drop_bit_eq)
  then have "unat (ucast (drop_bit n x AND 0xFF) :: u8) = unat x div 2 ^ n mod 256"
    by (simp add: take_bit_eq_mod drop_bit_eq_div)
  then show ?thesis unfolding word_unat_eq_iff unat_of_nat_u8 .
qed

definition be_bytes :: "nat \<Rightarrow> 'a::len word \<Rightarrow> u8 list" where
  "be_bytes k x = map (\<lambda>i. ucast (drop_bit (i * 8) x AND 0xFF)) (rev [0..<k])"

lemma to_be_map: "to_be k n = map (\<lambda>i. of_nat (n div 2 ^ (i * 8))) (rev [0..<k])"
proof (induction k arbitrary: n)
  case (Suc k)
  have "map (\<lambda>i. of_nat (n div 2 ^ (i * 8)) :: u8) (rev [0..<Suc k]) =
      map (\<lambda>i. of_nat (n div 256 div 2 ^ (i * 8))) (rev [0..<k]) @ [of_nat n]"
    by (simp add: upt_conv_Cons map_Suc_upt [symmetric] rev_map power_add div_mult2_eq
        del: upt_Suc)
  with Suc show ?case by simp
qed simp

lemma be_bytes_to_be: "be_bytes k x = to_be k (unat x)"
  unfolding be_bytes_def to_be_map shift_byte ..

text \<open>Shifting bytes in from the right reads such a number.\<close>

lemma shift_in_byte: "(push_bit 8 x OR ucast b :: 'a::len word) = x * 256 + ucast (b :: u8)"
proof -
  have "push_bit 8 x + ucast b = (push_bit 8 x OR ucast b :: 'a word)"
    by (rule disjunctive_add) (auto simp: bit_simps dest: bit_imp_le_length)
  then show ?thesis by (simp add: push_bit_eq_mult mult.commute)
qed

lemma shift_in_bytes: "foldl (\<lambda>x b. push_bit 8 x OR ucast b) 0 bs = (of_nat (be_nat bs) :: 'a::len word)"
proof (induction bs rule: rev_induct)
  case (snoc b bs)
  then show ?case by (simp add: shift_in_byte)
qed simp

end
