(* ===== verification/Digests.thy ===== *)
theory Digests
  imports Byte_Codec
begin

text \<open>
  The hand-written SHA-256 of \<open>config_archive.cpp\<close>, from which the commit ids are made, with the message
  padding that the SHA-1 of \<open>telemetry_server.cpp\<close> writes out in the same way. Loops over arrays are
  folds that append to lists; array elements are read with \<open>!\<close> inside their bounds.
\<close>

unbundle bit_operations_syntax

section \<open>Padding\<close>

function zero_fill :: "u8 list \<Rightarrow> u8 list" where
  "zero_fill data = (if length data mod 64 \<noteq> 56 then zero_fill (data @ [0]) else data)"
  by pat_completeness auto

text \<open>The number of zero bytes the loop still appends.\<close>

definition zeros_missing :: "nat \<Rightarrow> nat" where
  "zeros_missing n = (if n mod 64 \<le> 56 then 56 - n mod 64 else 120 - n mod 64)"

lemma zeros_missing_Suc:
  assumes "n mod 64 \<noteq> 56"
  shows "zeros_missing n = Suc (zeros_missing (Suc n))"
proof (cases "n mod 64 = 63")
  case True
  then have "Suc n mod 64 = 0" by (simp only: mod_Suc) simp
  with True show ?thesis unfolding zeros_missing_def by simp
next
  case False
  then have "Suc n mod 64 = Suc (n mod 64)" by (simp only: mod_Suc) simp
  then obtain r where r: "n mod 64 = r" "Suc n mod 64 = Suc r" "r < 64"
    using mod_less_divisor [of 64 n] by simp
  with assms False have "r \<noteq> 56" "r \<noteq> 63" by simp_all
  then show ?thesis using r(3) unfolding zeros_missing_def r(1,2) by (cases "r < 56") auto
qed

termination zero_fill
  by (relation "measure (\<lambda>d. zeros_missing (length d))") (simp_all add: zeros_missing_Suc)

declare zero_fill.simps [simp del]

definition length_bytes :: "u64 \<Rightarrow> u8 list" where
  "length_bytes bit_len = be_bytes 8 bit_len"

definition pad_message :: "u8 list \<Rightarrow> u8 list" where
  "pad_message data =
     (let bit_len = of_nat (length data) * 8 :: u64 in zero_fill (data @ [0x80]) @ length_bytes bit_len)"

lemma zero_fill_eq: "zero_fill data = data @ replicate (zeros_missing (length data)) 0"
proof (induction data rule: zero_fill.induct)
  case (1 data)
  show ?case
  proof (cases "length data mod 64 = 56")
    case True
    then show ?thesis by (simp add: zero_fill.simps zeros_missing_def)
  next
    case False
    with 1 show ?thesis
      by (subst zero_fill.simps) (simp add: zeros_missing_Suc)
  qed
qed

lemma length_zero_fill: "length (zero_fill data) mod 64 = 56"
proof (induction data rule: zero_fill.induct)
  case (1 data)
  then show ?case by (subst zero_fill.simps) simp
qed

lemma length_length_bytes [simp]: "length (length_bytes n) = 8"
  by (simp add: length_bytes_def be_bytes_to_be)

text \<open>Padded messages consist of whole 64-byte blocks.\<close>

lemma length_pad_message: "length (pad_message data) mod 64 = 0"
proof -
  have "length (pad_message data) mod 64 = (length (zero_fill (data @ [0x80])) mod 64 + 8) mod 64"
    by (simp add: pad_message_def Let_def mod_add_left_eq)
  then show ?thesis by (simp add: length_zero_fill)
qed

section \<open>SHA-256\<close>

text \<open>The table in the source's rows of eight.\<close>

definition kSha256K :: "u32 list" where
  "kSha256K = concat
    [[0x428a2f98, 0x71374491, 0xb5c0fbcf, 0xe9b5dba5, 0x3956c25b, 0x59f111f1, 0x923f82a4, 0xab1c5ed5],
     [0xd807aa98, 0x12835b01, 0x243185be, 0x550c7dc3, 0x72be5d74, 0x80deb1fe, 0x9bdc06a7, 0xc19bf174],
     [0xe49b69c1, 0xefbe4786, 0x0fc19dc6, 0x240ca1cc, 0x2de92c6f, 0x4a7484aa, 0x5cb0a9dc, 0x76f988da],
     [0x983e5152, 0xa831c66d, 0xb00327c8, 0xbf597fc7, 0xc6e00bf3, 0xd5a79147, 0x06ca6351, 0x14292967],
     [0x27b70a85, 0x2e1b2138, 0x4d2c6dfc, 0x53380d13, 0x650a7354, 0x766a0abb, 0x81c2c92e, 0x92722c85],
     [0xa2bfe8a1, 0xa81a664b, 0xc24b8b70, 0xc76c51a3, 0xd192e819, 0xd6990624, 0xf40e3585, 0x106aa070],
     [0x19a4c116, 0x1e376c08, 0x2748774c, 0x34b0bcb5, 0x391c0cb3, 0x4ed8aa4a, 0x5b9cca4f, 0x682e6ff3],
     [0x748f82ee, 0x78a5636f, 0x84c87814, 0x8cc70208, 0x90befffa, 0xa4506ceb, 0xbef9a3f7, 0xc67178f2]]"

definition rotr :: "u32 \<Rightarrow> nat \<Rightarrow> u32" where
  "rotr x n = drop_bit n x OR push_bit (32 - n) x"

text \<open>Four bytes, most significant first.\<close>

definition big_endian_word :: "u8 list \<Rightarrow> nat \<Rightarrow> u32" where
  "big_endian_word block i =
     push_bit 24 (ucast (block ! i)) OR push_bit 16 (ucast (block ! (i + 1))) OR
     push_bit 8 (ucast (block ! (i + 2))) OR ucast (block ! (i + 3))"

text \<open>One turn of the loop that extends the schedule.\<close>

definition extend_schedule :: "nat \<Rightarrow> u32 list \<Rightarrow> u32 list" where
  "extend_schedule i w =
     (let s0 = rotr (w ! (i - 15)) 7 XOR rotr (w ! (i - 15)) 18 XOR drop_bit 3 (w ! (i - 15));
          s1 = rotr (w ! (i - 2)) 17 XOR rotr (w ! (i - 2)) 19 XOR drop_bit 10 (w ! (i - 2))
      in w @ [w ! (i - 16) + s0 + w ! (i - 7) + s1])"

definition sha256_schedule :: "u8 list \<Rightarrow> u32 list" where
  "sha256_schedule block =
     fold extend_schedule [16..<64] (map (\<lambda>i. big_endian_word block (i * 4)) [0..<16])"

type_synonym sha256_vars = "u32 \<times> u32 \<times> u32 \<times> u32 \<times> u32 \<times> u32 \<times> u32 \<times> u32"

definition sha256_round :: "u32 list \<Rightarrow> nat \<Rightarrow> sha256_vars \<Rightarrow> sha256_vars" where
  "sha256_round w i v =
     (case v of (a, b, c, d, e, f, g, hh) \<Rightarrow>
        let s1 = rotr e 6 XOR rotr e 11 XOR rotr e 25;
            ch = (e AND f) XOR (NOT e AND g);
            temp1 = hh + s1 + ch + kSha256K ! i + w ! i;
            s0 = rotr a 2 XOR rotr a 13 XOR rotr a 22;
            maj = (a AND b) XOR (a AND c) XOR (b AND c);
            temp2 = s0 + maj
        in (temp1 + temp2, a, b, c, d + temp1, e, f, g))"

text \<open>
  Equations for evaluation: a word that is used twice is brought to a numeral first, so that the
  evaluation of a digest stays linear.
\<close>

lemma rotr_code [code]: "rotr x n = word_of_int (uint (drop_bit n x OR push_bit (32 - n) x))"
  by (simp add: rotr_def)

lemma sha256_round_code [code]:
  "sha256_round w i v =
     (case v of (a, b, c, d, e, f, g, hh) \<Rightarrow>
        let temp1 = hh + (rotr e 6 XOR rotr e 11 XOR rotr e 25) + ((e AND f) XOR (NOT e AND g)) +
              kSha256K ! i + w ! i;
            temp2 = (rotr a 2 XOR rotr a 13 XOR rotr a 22) + ((a AND b) XOR (a AND c) XOR (b AND c))
        in (word_of_int (uint (temp1 + temp2)), a, b, c, word_of_int (uint (d + temp1)), e, f, g))"
  by (simp add: sha256_round_def Let_def)

definition sha256_process_block :: "u8 list \<Rightarrow> sha256_vars \<Rightarrow> sha256_vars" where
  "sha256_process_block block h =
     (case (h, fold (sha256_round (sha256_schedule block)) [0..<64] h) of
        ((h0, h1, h2, h3, h4, h5, h6, h7), (a, b, c, d, e, f, g, hh)) \<Rightarrow>
          (h0 + a, h1 + b, h2 + c, h3 + d, h4 + e, h5 + f, h6 + g, h7 + hh))"

definition sha256_initial :: sha256_vars where
  "sha256_initial = (0x6a09e667, 0xbb67ae85, 0x3c6ef372, 0xa54ff53a,
                     0x510e527f, 0x9b05688c, 0x1f83d9ab, 0x5be0cd19)"

text \<open>The loop over the blocks: \<open>&data[i]\<close> for \<open>i = 0, 64, ...\<close> while \<open>i < data.size()\<close>.\<close>

function over_blocks :: "(u8 list \<Rightarrow> 'h \<Rightarrow> 'h) \<Rightarrow> u8 list \<Rightarrow> 'h \<Rightarrow> 'h" where
  "over_blocks f data h = (if data = [] then h else over_blocks f (drop 64 data) (f (take 64 data) h))"
  by pat_completeness auto
termination by (relation "measure (\<lambda>(f, data, h). length data)") auto

declare over_blocks.simps [simp del]

text \<open>\<open>std::hex\<close> with width 8 and fill 0: the eight hexadecimal digits.\<close>

definition hex8 :: "u32 \<Rightarrow> string" where
  "hex8 x = map (\<lambda>i. digit_char (unat (drop_bit (4 * i) x AND 0xF))) [7, 6, 5, 4, 3, 2, 1, 0]"

definition sha256_hex :: "string \<Rightarrow> string" where
  "sha256_hex input =
     (case over_blocks sha256_process_block (pad_message (bytes_of input)) sha256_initial of
        (h0, h1, h2, h3, h4, h5, h6, h7) \<Rightarrow> concat (map hex8 [h0, h1, h2, h3, h4, h5, h6, h7]))"

section \<open>Padding loses nothing\<close>

lemma pad_message_eq:
  "pad_message data = data @ [0x80] @ replicate (zeros_missing (Suc (length data))) 0 @
     to_be 8 (unat (of_nat (length data) * 8 :: u64))"
  by (simp add: pad_message_def Let_def zero_fill_eq length_bytes_def be_bytes_to_be)

text \<open>A reader of padded messages: the last eight bytes say how many bits come before the padding.\<close>

definition unpad :: "u8 list \<Rightarrow> u8 list" where
  "unpad padded = take (be_nat (drop (length padded - 8) padded) div 8) padded"

lemma unpad_pad:
  assumes "length data < 2 ^ 61"
  shows "unpad (pad_message data) = data"
proof -
  have "unat (of_nat (length data) * 8 :: u64) = length data * 8"
    using assms by (simp add: unat_word_ariths unat_of_nat)
  moreover have "be_nat (to_be 8 (length data * 8)) = length data * 8"
    using assms by (simp add: be_nat_to_be)
  ultimately show ?thesis by (simp add: unpad_def pad_message_eq)
qed

section \<open>The message schedule as a recurrence\<close>

text \<open>The words of FIPS 180-4: sixteen from the block, the others from earlier ones.\<close>

definition block_word :: "u8 list \<Rightarrow> nat \<Rightarrow> u32" where
  "block_word block t = of_nat (be_nat (take 4 (drop (4 * t) block)))"

fun fips_schedule :: "(nat \<Rightarrow> u32) \<Rightarrow> nat \<Rightarrow> u32" where
  "fips_schedule M t =
     (if t < 16 then M t
      else fips_schedule M (t - 16)
        + (word_rotr 7 (fips_schedule M (t - 15)) XOR word_rotr 18 (fips_schedule M (t - 15))
           XOR drop_bit 3 (fips_schedule M (t - 15)))
        + fips_schedule M (t - 7)
        + (word_rotr 17 (fips_schedule M (t - 2)) XOR word_rotr 19 (fips_schedule M (t - 2))
           XOR drop_bit 10 (fips_schedule M (t - 2))))"

declare fips_schedule.simps [simp del]

lemma fips_schedule_first: "t < 16 \<Longrightarrow> fips_schedule M t = M t"
  by (simp add: fips_schedule.simps)

lemma rotr_word_rotr:
  assumes "0 < n" and "n < 32"
  shows "rotr x n = word_rotr n x"
proof (rule bit_eqI)
  fix k assume "possible_bit TYPE(u32) k"
  then have k: "k < 32" by simp
  have "bit (word_rotr n x) k = bit x ((k + n) mod 32)" using k by (simp add: bit_word_rotr_iff)
  moreover have "(k + n) mod 32 = (if k + n < 32 then k + n else k + n - 32)"
    using assms k by (simp add: mod_if)
  ultimately show "bit (rotr x n) k = bit (word_rotr n x) k"
    using assms k by (auto simp: rotr_def bit_simps add.commute dest: bit_imp_le_length)
qed

lemma four_bytes:
  assumes "i + 3 < length block"
  shows "take 4 (drop i block) = [block ! i, block ! (i + 1), block ! (i + 2), block ! (i + 3)]"
  using assms by (simp add: list_eq_iff_nth_eq nth_Cons' less_Suc_eq numeral_eq_Suc)

lemma big_endian_word_be:
  assumes "i + 3 < length block"
  shows "big_endian_word block i = of_nat (be_nat (take 4 (drop i block)))"
proof -
  have "of_nat (be_nat (take 4 (drop i block))) =
      push_bit 8 (push_bit 8 (push_bit 8 (push_bit 8 (0 :: u32) OR ucast (block ! i)) OR ucast (block ! (i + 1)))
        OR ucast (block ! (i + 2))) OR ucast (block ! (i + 3))"
    unfolding shift_in_bytes [symmetric] four_bytes [OF assms] by simp
  then show ?thesis by (simp add: big_endian_word_def push_bit_or or.assoc)
qed

lemma extend_schedule_fips:
  assumes "16 \<le> n"
  shows "extend_schedule n (map (fips_schedule M) [0..<n]) = map (fips_schedule M) [0..<Suc n]"
proof -
  have nth: "map (fips_schedule M) [0..<n] ! (n - j) = fips_schedule M (n - j)" if "0 < j" for j
    using that assms by simp
  note nths = nth [of 16, simplified] nth [of 15, simplified] nth [of 7, simplified] nth [of 2, simplified]
  note rots = rotr_word_rotr [of 7, simplified] rotr_word_rotr [of 18, simplified]
    rotr_word_rotr [of 17, simplified] rotr_word_rotr [of 19, simplified]
  have not_less: "(n < 16) = False" using assms by simp
  have "map (fips_schedule M) [0..<Suc n] = map (fips_schedule M) [0..<n] @ [fips_schedule M n]"
    by simp
  then show ?thesis
    unfolding extend_schedule_def Let_def nths rots
    by (simp only: fips_schedule.simps [of M n] not_less if_False)
qed

text \<open>A loop that appends the words of a recurrence one by one makes the list of them.\<close>

lemma fold_schedule:
  assumes "\<And>n. 16 \<le> n \<Longrightarrow> ext n (map W [0..<n]) = map W [0..<Suc n]" and "16 \<le> n"
  shows "fold ext [16..<n] (map W [0..<16]) = map W [0..<n]"
  using assms(2)
proof (induction n rule: dec_induct)
  case (step n)
  then show ?case using assms(1) [of n] by (simp del: upt_Suc add: upt_Suc_append)
qed simp

lemma first_words:
  assumes "length block = 64" and "\<And>t. t < 16 \<Longrightarrow> W t = block_word block t"
  shows "map (\<lambda>i. big_endian_word block (i * 4)) [0..<16] = map W [0..<16]"
proof (intro map_cong refl)
  fix i assume "i \<in> set [0..<16 :: nat]"
  then show "big_endian_word block (i * 4) = W i"
    using big_endian_word_be [of "i * 4" block] assms by (simp add: block_word_def mult.commute)
qed

section \<open>Properties\<close>

text \<open>
  The message schedule of \<open>sha256_process_block\<close> is the recurrence of FIPS 180-4 on the big-endian
  words of the block, with the rotations of the library; all 64 words of it.
\<close>

lemma sha256_schedule_fips:
  assumes "length block = 64"
  shows "sha256_schedule block = map (fips_schedule (block_word block)) [0..<64]"
proof -
  have "map (\<lambda>i. big_endian_word block (i * 4)) [0..<16] = map (fips_schedule (block_word block)) [0..<16]"
    using assms by (rule first_words) (rule fips_schedule_first)
  moreover have "fold extend_schedule [16..<64] (map (fips_schedule M) [0..<16]) = map (fips_schedule M) [0..<64]"
    for M by (rule fold_schedule [where ext = extend_schedule]) (rule extend_schedule_fips, assumption, simp)
  ultimately show ?thesis unfolding sha256_schedule_def by (simp only:)
qed

text \<open>
  Padding makes whole 64-byte blocks and loses nothing: a message shorter than \<open>2 ^ 61\<close> bytes can be
  read back from its padded form, so different messages are hashed as different block sequences.
\<close>

theorem padding_roundtrip:
  assumes "length data < 2 ^ 61"
  shows "length (pad_message data) mod 64 = 0 \<and> unpad (pad_message data) = data"
  using length_pad_message unpad_pad [OF assms] by simp

theorem padding_roundtrip_witness:
  "unpad (pad_message (bytes_of ''abc'')) = bytes_of ''abc''"
  using padding_roundtrip [of "bytes_of ''abc''"] by simp

text \<open>
  The digest on the FIPS 180-4 example message, computed by the kernel from the definitions.
\<close>

theorem sha256_test_vector:
  "sha256_hex ''abc'' = ''ba7816bf8f01cfea414140de5dae2223b00361a396177a9cb410ff61f20015ad''"
  by code_simp

end
