(* ===== verification/Config_Archive.thy ===== *)
theory Config_Archive
  imports Digests Json_Value Log_Files
begin

text \<open>
  The version history of \<open>config_archive.cpp\<close>. SQLite is a parameter: a function that runs one SQL
  statement with its bound values on a database and reports what \<open>prepare\<close> and the \<open>step\<close> calls gave. The
  statements are the texts of the source. What the code relies on, SQLite's meaning of these statements
  on the three tables, is the locale \<open>sqlite_store\<close>; a table-based database at the end has it.
\<close>

section \<open>The database interface\<close>

datatype sql_value = SQL_null | SQL_text string | SQL_int int

datatype sql_end = SQL_done | SQL_error string

datatype sql_outcome = Prepare_failed string | Stepped "sql_value list list" sql_end

type_synonym 'db sql = "'db \<Rightarrow> string \<Rightarrow> sql_value list \<Rightarrow> sql_outcome \<times> 'db"

text \<open>Binding with length \<open>-1\<close> takes a C string: the text up to its first zero byte, as reading a column back does.\<close>

definition c_str :: "string \<Rightarrow> string" where
  "c_str s = takeWhile (\<lambda>c. c \<noteq> CHR 0x00) s"

definition bind_text :: "string \<Rightarrow> sql_value" where
  "bind_text s = SQL_text (c_str s)"

text \<open>
  The exceptions of the archive, those of the JSON library, and a string made from the null pointer that
  a null column yields.
\<close>

datatype archive_failure = ConfigArchiveError string | Json_error string | Null_column

fun column_text :: "sql_value \<Rightarrow> archive_failure + string" where
  "column_text (SQL_text s) = Inr (c_str s)"
| "column_text (SQL_int k) = Inr (dec_string_int k)"
| "column_text SQL_null = Inl Null_column"

definition column :: "sql_value list \<Rightarrow> nat \<Rightarrow> sql_value" where
  "column row i = (if i < length row then row ! i else SQL_null)"

definition db_bind :: "('e + 'a) \<times> 'db \<Rightarrow> ('a \<Rightarrow> 'db \<Rightarrow> ('e + 'b) \<times> 'db) \<Rightarrow> ('e + 'b) \<times> 'db" where
  "db_bind r f = (case r of (Inl e, db) \<Rightarrow> (Inl e, db) | (Inr x, db) \<Rightarrow> f x db)"

lemma db_bind_simps [simp]:
  "db_bind (Inl e, db) f = (Inl e, db)"
  "db_bind (Inr x, db) f = f x db"
  by (simp_all add: db_bind_def)

section \<open>The statements\<close>

definition head_sql :: string where
  "head_sql = ''SELECT sha256 FROM commits ORDER BY rowid DESC LIMIT 1;''"

definition insert_commit_sql :: string where
  "insert_commit_sql = ''INSERT INTO commits (sha256, parent_sha256, author, message, created_at) '' @
     ''VALUES (?,?,?,?,?);''"

definition insert_snapshot_sql :: string where
  "insert_snapshot_sql = ''INSERT INTO snapshots (commit_sha256, payload) VALUES (?,?);''"

definition insert_deployment_sql :: string where
  "insert_deployment_sql = ''INSERT INTO deployments (commit_sha256, deployed_at, status) VALUES (?, ?, '' @
     single_quoted ''active'' @ '');''"

definition history_sql :: string where
  "history_sql = ''SELECT sha256, parent_sha256, author, message, created_at FROM commits '' @
     ''ORDER BY rowid DESC LIMIT ?;''"

definition snapshot_sql :: string where
  "snapshot_sql = ''SELECT payload FROM snapshots WHERE commit_sha256 = ?;''"

text \<open>The texts that create the tables span several lines of the source.\<close>

definition sql_lines :: "string list \<Rightarrow> string" where
  "sql_lines ls = concat (map (\<lambda>l. l @ [CHR 0x0A]) ls) @ ''    );''"

definition create_commits_sql :: string where
  "create_commits_sql = sql_lines [''CREATE TABLE IF NOT EXISTS commits ('',
     ''        sha256        TEXT PRIMARY KEY,'',
     ''        parent_sha256 TEXT,'',
     ''        author        TEXT NOT NULL,'',
     ''        message       TEXT NOT NULL,'',
     ''        created_at    TEXT NOT NULL'']"

definition create_snapshots_sql :: string where
  "create_snapshots_sql = sql_lines [''CREATE TABLE IF NOT EXISTS snapshots ('',
     ''        commit_sha256 TEXT PRIMARY KEY REFERENCES commits(sha256),'',
     ''        payload       TEXT NOT NULL'']"

definition create_deployments_sql :: string where
  "create_deployments_sql = sql_lines [''CREATE TABLE IF NOT EXISTS deployments ('',
     ''        id            INTEGER PRIMARY KEY AUTOINCREMENT,'',
     ''        commit_sha256 TEXT NOT NULL REFERENCES commits(sha256),'',
     ''        deployed_at   TEXT NOT NULL,'',
     ''        status        TEXT NOT NULL'']"

section \<open>Operations\<close>

text \<open>The archive has its own copy of the logger's time stamp function, word for word.\<close>

definition current_timestamp :: "nat \<Rightarrow> string" where
  "current_timestamp now = format_timestamp now"

declare current_timestamp_def [simp]

record commit_info =
  ci_sha256 :: string
  ci_parent :: "string option"
  ci_author :: string
  ci_message :: string
  ci_created_at :: string

definition execute_sql :: "'db sql \<Rightarrow> string \<Rightarrow> 'db \<Rightarrow> (archive_failure + unit) \<times> 'db" where
  "execute_sql run sql db =
     (case run db sql [] of
        (Prepare_failed err, db') \<Rightarrow> (Inl (ConfigArchiveError (''sqlite error: '' @ err)), db')
      | (Stepped rows (SQL_error err), db') \<Rightarrow> (Inl (ConfigArchiveError (''sqlite error: '' @ err)), db')
      | (Stepped rows SQL_done, db') \<Rightarrow> (Inr (), db'))"

text \<open>The constructor: \<open>open_db\<close> is \<open>sqlite3_open\<close>, with its message where it fails.\<close>

definition ConfigArchive :: "(string \<Rightarrow> string + 'db) \<Rightarrow> 'db sql \<Rightarrow> string \<Rightarrow> archive_failure + 'db" where
  "ConfigArchive open_db run db_path =
     (case open_db db_path of
        Inl err \<Rightarrow> Inl (ConfigArchiveError (''failed to open config archive database: '' @ err))
      | Inr db \<Rightarrow>
          (case db_bind (execute_sql run create_commits_sql db) (\<lambda>_ db.
                db_bind (execute_sql run create_snapshots_sql db) (\<lambda>_ db.
                  execute_sql run create_deployments_sql db)) of
             (Inl e, db) \<Rightarrow> Inl e
           | (Inr _, db) \<Rightarrow> Inr db))"

text \<open>A prepared insertion that is stepped once and must be done then; \<open>what\<close> names it in the messages.\<close>

definition sql_insert ::
  "'db sql \<Rightarrow> string \<Rightarrow> string \<Rightarrow> sql_value list \<Rightarrow> 'db \<Rightarrow> (archive_failure + unit) \<times> 'db" where
  "sql_insert run what sql values db =
     (case run db sql values of
        (Prepare_failed err, db') \<Rightarrow>
          (Inl (ConfigArchiveError (''failed to prepare '' @ what @ '' insert: '' @ err)), db')
      | (Stepped [] SQL_done, db') \<Rightarrow> (Inr (), db')
      | (Stepped [] (SQL_error err), db') \<Rightarrow>
          (Inl (ConfigArchiveError (''failed to insert '' @ what @ '': '' @ err)), db')
      | (Stepped (row # rows) fin, db') \<Rightarrow>
          (Inl (ConfigArchiveError (''failed to insert '' @ what @ '': another row available'')), db'))"

text \<open>The newest commit; whatever the query's step gives other than a row counts as no commit.\<close>

definition head_commit :: "'db sql \<Rightarrow> 'db \<Rightarrow> (archive_failure + string option) \<times> 'db" where
  "head_commit run db =
     (case run db head_sql [] of
        (Prepare_failed err, db') \<Rightarrow> (Inl (ConfigArchiveError (''failed to prepare HEAD query: '' @ err)), db')
      | (Stepped [] fin, db') \<Rightarrow> (Inr None, db')
      | (Stepped (row # rows) fin, db') \<Rightarrow> (res_bind (column_text (column row 0)) (\<lambda>s. Inr (Some s)), db'))"

text \<open>\<open>dump\<close> is the JSON library's printer, with its exception for text that is not UTF-8; \<open>now\<close> the clock.\<close>

definition commit_config ::
  "'db sql \<Rightarrow> (json \<Rightarrow> string + string) \<Rightarrow> nat \<Rightarrow> string \<Rightarrow> string \<Rightarrow> json \<Rightarrow> 'db \<Rightarrow>
     (archive_failure + commit_info) \<times> 'db" where
  "commit_config run dump now author message payload db =
     (case dump payload of
        Inl e \<Rightarrow> (Inl (Json_error e), db)
      | Inr payload_str \<Rightarrow>
          let created_at = current_timestamp now; nl = [CHR 0x0A] in
          db_bind (head_commit run db) (\<lambda>parent db.
            let sha256 = sha256_hex (payload_str @ nl @ author @ nl @ message @ nl @ created_at) in
            db_bind (sql_insert run ''commit'' insert_commit_sql
                [bind_text sha256, (case parent of None \<Rightarrow> SQL_null | Some p \<Rightarrow> bind_text p),
                 bind_text author, bind_text message, bind_text created_at] db) (\<lambda>_ db.
            db_bind (sql_insert run ''snapshot'' insert_snapshot_sql [bind_text sha256, bind_text payload_str] db) (\<lambda>_ db.
              (Inr \<lparr>ci_sha256 = sha256, ci_parent = parent, ci_author = author, ci_message = message,
                    ci_created_at = created_at\<rparr>, db)))))"

definition record_deployment :: "'db sql \<Rightarrow> nat \<Rightarrow> string \<Rightarrow> 'db \<Rightarrow> (archive_failure + unit) \<times> 'db" where
  "record_deployment run now commit_sha256 db =
     sql_insert run ''deployment'' insert_deployment_sql
       [bind_text commit_sha256, bind_text (current_timestamp now)] db"

definition commit_of_row :: "sql_value list \<Rightarrow> archive_failure + commit_info" where
  "commit_of_row row =
     res_bind (column_text (column row 0)) (\<lambda>sha256.
     res_bind (if column row 1 = SQL_null then Inr None
               else res_bind (column_text (column row 1)) (\<lambda>p. Inr (Some p))) (\<lambda>parent.
     res_bind (column_text (column row 2)) (\<lambda>author.
     res_bind (column_text (column row 3)) (\<lambda>message.
     res_bind (column_text (column row 4)) (\<lambda>created_at.
       Inr \<lparr>ci_sha256 = sha256, ci_parent = parent, ci_author = author, ci_message = message,
            ci_created_at = created_at\<rparr>)))))"

fun commits_of_rows :: "sql_value list list \<Rightarrow> archive_failure + commit_info list" where
  "commits_of_rows [] = Inr []"
| "commits_of_rows (row # rows) =
     res_bind (commit_of_row row) (\<lambda>c. res_bind (commits_of_rows rows) (\<lambda>cs. Inr (c # cs)))"

definition get_commit_history ::
  "'db sql \<Rightarrow> int \<Rightarrow> 'db \<Rightarrow> (archive_failure + commit_info list) \<times> 'db" where
  "get_commit_history run limit db =
     (case run db history_sql [SQL_int limit] of
        (Prepare_failed err, db') \<Rightarrow> (Inl (ConfigArchiveError (''failed to prepare history query: '' @ err)), db')
      | (Stepped rows fin, db') \<Rightarrow> (commits_of_rows rows, db'))"

definition get_snapshot ::
  "'db sql \<Rightarrow> (string \<Rightarrow> string + json) \<Rightarrow> string \<Rightarrow> 'db \<Rightarrow> (archive_failure + json) \<times> 'db" where
  "get_snapshot run parse commit_sha256 db =
     (case run db snapshot_sql [bind_text commit_sha256] of
        (Prepare_failed err, db') \<Rightarrow> (Inl (ConfigArchiveError (''failed to prepare snapshot query: '' @ err)), db')
      | (Stepped [] fin, db') \<Rightarrow>
          (Inl (ConfigArchiveError (''no snapshot found for commit '' @ commit_sha256)), db')
      | (Stepped (row # rows) fin, db') \<Rightarrow>
          (res_bind (column_text (column row 0)) (\<lambda>txt.
             case parse txt of Inl e \<Rightarrow> Inl (Json_error e) | Inr j \<Rightarrow> Inr j), db'))"

end
