(* ===== verification/Archive_Store.thy ===== *)
theory Archive_Store
  imports Config_Archive "HOL-Library.Sublist"
begin

text \<open>
  What SQLite promises for the statements of the archive, as a locale over the three tables, and what the
  archive is on top of it: a linear history whose commits name their parents and whose snapshots can be
  read back. A database of plain tables satisfies the locale.
\<close>

section \<open>Tables\<close>

record archive_tables =
  tab_commits :: "commit_info list"
  tab_snapshots :: "(string \<times> string) list"
  tab_deployments :: "(string \<times> string) list"

fun null_or_text :: "string option \<Rightarrow> sql_value" where
  "null_or_text None = SQL_null"
| "null_or_text (Some s) = SQL_text s"

definition commit_row :: "commit_info \<Rightarrow> sql_value list" where
  "commit_row c = [SQL_text (ci_sha256 c), null_or_text (ci_parent c), SQL_text (ci_author c),
     SQL_text (ci_message c), SQL_text (ci_created_at c)]"

text \<open>A negative limit is no limit.\<close>

definition sql_limit :: "int \<Rightarrow> 'a list \<Rightarrow> 'a list" where
  "sql_limit n rows = (if n < 0 then rows else take (nat n) rows)"

definition done_if :: "bool \<Rightarrow> archive_tables \<Rightarrow> archive_tables \<Rightarrow> sql_outcome \<Rightarrow> archive_tables \<Rightarrow> bool" where
  "done_if ok before after outcome final \<longleftrightarrow>
     (if outcome = Stepped [] SQL_done then ok \<and> final = after
      else (\<forall>row rows fin. outcome \<noteq> Stepped (row # rows) fin) \<and> final = before)"

text \<open>A query that ends early has given the first rows of its answer.\<close>

fun answers :: "sql_value list list \<Rightarrow> sql_outcome \<Rightarrow> bool" where
  "answers full (Prepare_failed err) \<longleftrightarrow> True"
| "answers full (Stepped rows SQL_done) \<longleftrightarrow> rows = full"
| "answers full (Stepped rows (SQL_error err)) \<longleftrightarrow> prefix rows full"

definition newest :: "commit_info list \<Rightarrow> string option" where
  "newest cs = (if cs = [] then None else Some (ci_sha256 (last cs)))"

locale sqlite_store =
  fixes run :: "'db sql"
    and tables :: "'db \<Rightarrow> archive_tables"
  assumes head_query: "run db head_sql [] = (out, db') \<Longrightarrow> tables db' = tables db \<and>
      answers (case newest (tab_commits (tables db)) of None \<Rightarrow> [] | Some s \<Rightarrow> [[SQL_text s]]) out"
    and history_query: "run db history_sql [SQL_int n] = (out, db') \<Longrightarrow> tables db' = tables db \<and>
      answers (map commit_row (sql_limit n (rev (tab_commits (tables db))))) out"
    and snapshot_query: "run db snapshot_sql [SQL_text k] = (out, db') \<Longrightarrow> tables db' = tables db \<and>
      answers (map (\<lambda>r. [SQL_text (snd r)]) (filter (\<lambda>r. fst r = k) (tab_snapshots (tables db)))) out"
    and commit_insert: "run db insert_commit_sql (commit_row c) = (out, db') \<Longrightarrow>
      done_if (ci_sha256 c \<notin> ci_sha256 ` set (tab_commits (tables db))) (tables db)
        (tables db\<lparr>tab_commits := tab_commits (tables db) @ [c]\<rparr>) out (tables db')"
    and snapshot_insert: "run db insert_snapshot_sql [SQL_text k, SQL_text p] = (out, db') \<Longrightarrow>
      done_if (k \<notin> fst ` set (tab_snapshots (tables db))) (tables db)
        (tables db\<lparr>tab_snapshots := tab_snapshots (tables db) @ [(k, p)]\<rparr>) out (tables db')"
    and deployment_insert: "run db insert_deployment_sql [SQL_text k, SQL_text t] = (out, db') \<Longrightarrow>
      done_if True (tables db)
        (tables db\<lparr>tab_deployments := tab_deployments (tables db) @ [(k, t)]\<rparr>) out (tables db')"

section \<open>C strings\<close>

lemma c_str_idem [simp]: "c_str (c_str s) = c_str s"
  by (simp add: c_str_def)

lemma c_str_id: "CHR 0x00 \<notin> set s \<Longrightarrow> c_str s = s"
  unfolding c_str_def by (rule takeWhile_eq_all_conv [THEN iffD2]) auto

lemma digit_char_nonzero: "d < 16 \<Longrightarrow> digit_char d \<noteq> CHR 0x00"
  by (drule less_16_cases) (elim disjE; simp add: digit_char_def)

lemma to_base_nonzero: "2 \<le> b \<Longrightarrow> b \<le> 16 \<Longrightarrow> CHR 0x00 \<notin> set (to_base b n)"
proof (induction b n rule: to_base.induct)
  case (1 b n)
  have "n mod b < 16" using 1(2,3) by (intro less_le_trans [OF mod_less_divisor]) auto
  with 1 show ?case
    by (subst to_base.simps) (auto simp: digit_char_nonzero [of "n mod b", symmetric] digit_char_nonzero [of n, symmetric])
qed

lemma hex8_nonzero: "CHR 0x00 \<notin> set (hex8 x)"
proof -
  have "digit_char (unat (y AND 0xF)) \<noteq> CHR 0x00" for y :: u32
  proof (rule digit_char_nonzero)
    have "y AND 0xF = take_bit 4 y" unfolding take_bit_eq_mask by (simp add: mask_eq_exp_minus_1)
    then show "unat (y AND 0xF) < 16" using take_bit_nat_less_exp [of 4 "unat y"] by (simp add: unsigned_take_bit_eq)
  qed
  then show ?thesis by (auto simp: hex8_def dest: sym)
qed

lemma length_hex8: "length (hex8 x) = 8"
  by (simp add: hex8_def)

lemma length_sha256_hex: "length (sha256_hex s) = 64"
  by (simp add: sha256_hex_def length_hex8 split: prod.split)

lemma c_str_sha256 [simp]: "c_str (sha256_hex s) = sha256_hex s"
proof (rule c_str_id)
  show "CHR 0x00 \<notin> set (sha256_hex s)"
    unfolding sha256_hex_def
    by (cases "over_blocks sha256_process_block (pad_message (bytes_of s)) sha256_initial") (simp add: hex8_nonzero)
qed

lemma padded_nonzero: "CHR 0x00 \<notin> set (padded w n)"
  using to_base_nonzero [of 10 n] by (auto simp: padded_def dec_string_def)

lemma c_str_timestamp [simp]: "c_str (format_timestamp tp) = format_timestamp tp"
  by (rule c_str_id) (simp add: format_timestamp_def Let_def padded_nonzero split: prod.split)

text \<open>What is stored of a commit.\<close>

definition stored :: "commit_info \<Rightarrow> commit_info" where
  "stored c = \<lparr>ci_sha256 = c_str (ci_sha256 c), ci_parent = map_option c_str (ci_parent c),
     ci_author = c_str (ci_author c), ci_message = c_str (ci_message c), ci_created_at = c_str (ci_created_at c)\<rparr>"

section \<open>Histories\<close>

definition linear_history :: "commit_info list \<Rightarrow> bool" where
  "linear_history cs \<longleftrightarrow> distinct (map ci_sha256 cs) \<and>
     map ci_parent cs = take (length cs) (None # map (\<lambda>c. Some (ci_sha256 c)) cs)"

lemma linear_history_snoc:
  assumes "linear_history cs" and "ci_sha256 c \<notin> ci_sha256 ` set cs" and "ci_parent c = newest cs"
  shows "linear_history (cs @ [c])"
proof (cases cs rule: rev_cases)
  case Nil
  with assms show ?thesis by (simp add: linear_history_def newest_def)
next
  case (snoc ds d)
  with assms show ?thesis by (auto simp: linear_history_def newest_def)
qed

text \<open>Every snapshot belongs to one commit and has one row, and what is stored can be read back as it is.\<close>

definition archive_ok :: "archive_tables \<Rightarrow> bool" where
  "archive_ok t \<longleftrightarrow> linear_history (tab_commits t) \<and> list_all (\<lambda>c. stored c = c) (tab_commits t) \<and>
     distinct (map fst (tab_snapshots t)) \<and> fst ` set (tab_snapshots t) \<subseteq> ci_sha256 ` set (tab_commits t)"

lemma stored_stored [simp]: "stored (stored c) = stored c"
  by (cases "ci_parent c") (simp_all add: stored_def)

lemma newest_clean: "list_all (\<lambda>c. stored c = c) cs \<Longrightarrow> map_option c_str (newest cs) = newest cs"
proof (cases cs rule: rev_cases)
  case (snoc ds d)
  assume "list_all (\<lambda>c. stored c = c) cs"
  with snoc have "ci_sha256 (stored d) = ci_sha256 d" by simp
  with snoc show ?thesis by (simp add: newest_def stored_def)
qed (simp add: newest_def)

text \<open>The HEAD query is prepared or not, but once prepared it does not fail.\<close>

definition head_reliable :: "'db sql \<Rightarrow> bool" where
  "head_reliable run \<longleftrightarrow> (\<forall>db rows e db'. run db head_sql [] \<noteq> (Stepped rows (SQL_error e), db'))"

lemma sql_insert_outcome:
  assumes "sql_insert run what sql vs db = (r, db')"
  shows "\<exists>out. run db sql vs = (out, db') \<and> (r = Inr () \<longleftrightarrow> out = Stepped [] SQL_done)"
  using assms
  by (auto simp: sql_insert_def split: prod.splits sql_outcome.splits list.splits sql_end.splits)

text \<open>The commit that \<open>commit_config\<close> makes.\<close>

definition made_commit :: "string option \<Rightarrow> string \<Rightarrow> nat \<Rightarrow> string \<Rightarrow> string \<Rightarrow> commit_info" where
  "made_commit parent payload now author message =
     (let created_at = format_timestamp now; nl = [CHR 0x0A] in
      \<lparr>ci_sha256 = sha256_hex (payload @ nl @ author @ nl @ message @ nl @ created_at), ci_parent = parent,
       ci_author = author, ci_message = message, ci_created_at = created_at\<rparr>)"

lemma made_commit_stored:
  "ci_sha256 (stored (made_commit parent txt now author message)) = ci_sha256 (made_commit parent txt now author message)"
  "c_str (ci_sha256 (made_commit parent txt now author message)) = ci_sha256 (made_commit parent txt now author message)"
  "ci_parent (stored (made_commit parent txt now author message)) = map_option c_str parent"
  by (simp_all add: stored_def made_commit_def Let_def)

lemma made_commit_row:
  "[bind_text (ci_sha256 (made_commit parent txt now author message)),
    (case parent of None \<Rightarrow> SQL_null | Some p \<Rightarrow> bind_text p), bind_text author, bind_text message,
    bind_text (format_timestamp now)] = commit_row (stored (made_commit parent txt now author message))"
  by (cases parent) (simp_all add: commit_row_def stored_def made_commit_def bind_text_def Let_def)

lemma commit_config_eq:
  assumes "dump payload = Inr txt"
  shows "commit_config run dump now author message payload db =
    db_bind (head_commit run db) (\<lambda>parent db.
      let c = made_commit parent txt now author message in
      db_bind (sql_insert run ''commit'' insert_commit_sql (commit_row (stored c)) db) (\<lambda>_ db.
      db_bind (sql_insert run ''snapshot'' insert_snapshot_sql [SQL_text (ci_sha256 c), SQL_text (c_str txt)] db) (\<lambda>_ db.
        (Inr c, db))))"
  by (simp add: commit_config_def assms made_commit_row [symmetric] Let_def)
    (simp add: made_commit_def bind_text_def Let_def)

lemma filter_key:
  assumes "(k, v) \<in> set xs" and "distinct (map fst xs)"
  shows "filter (\<lambda>r. fst r = k) xs = [(k, v)]"
  using assms by (induction xs) (auto simp: filter_empty_conv image_iff)

lemma commit_of_commit_row: "commit_of_row (commit_row c) = Inr (stored c)"
  by (cases "ci_parent c") (simp_all add: commit_of_row_def commit_row_def column_def stored_def)

lemma commits_of_commit_rows: "commits_of_rows (map commit_row cs) = Inr (map stored cs)"
  by (induction cs) (simp_all add: commit_of_commit_row)

section \<open>The archive on such a database\<close>

context sqlite_store
begin

lemma inserted:
  assumes "done_if ok (tables db) after out (tables db')" and "r = Inr () \<longleftrightarrow> out = Stepped [] SQL_done"
  shows "if r = Inr () then ok \<and> tables db' = after else tables db' = tables db"
  using assms by (auto simp: done_if_def split: if_splits)

lemma insert_commit:
  assumes "sql_insert run what insert_commit_sql (commit_row c) db = (r, db')"
  shows "if r = Inr () then ci_sha256 c \<notin> ci_sha256 ` set (tab_commits (tables db)) \<and>
      tables db' = tables db\<lparr>tab_commits := tab_commits (tables db) @ [c]\<rparr> else tables db' = tables db"
  using sql_insert_outcome [OF assms] commit_insert inserted by blast

lemma insert_snapshot:
  assumes "sql_insert run what insert_snapshot_sql [SQL_text k, SQL_text p] db = (r, db')"
  shows "if r = Inr () then k \<notin> fst ` set (tab_snapshots (tables db)) \<and>
      tables db' = tables db\<lparr>tab_snapshots := tab_snapshots (tables db) @ [(k, p)]\<rparr> else tables db' = tables db"
  using sql_insert_outcome [OF assms] snapshot_insert inserted by blast

lemma insert_deployment:
  assumes "sql_insert run what insert_deployment_sql [SQL_text k, SQL_text t] db = (r, db')"
  shows "if r = Inr () then tables db' = tables db\<lparr>tab_deployments := tab_deployments (tables db) @ [(k, t)]\<rparr>
    else tables db' = tables db"
proof -
  from sql_insert_outcome [OF assms] obtain out where
    out: "run db insert_deployment_sql [SQL_text k, SQL_text t] = (out, db')"
    and r: "r = Inr () \<longleftrightarrow> out = Stepped [] SQL_done" by blast
  from inserted [OF deployment_insert [OF out] r] show ?thesis by simp
qed

lemma head_commit_tables: "head_commit run db = (r, db') \<Longrightarrow> tables db' = tables db"
  using head_query [of db]
  by (auto simp: head_commit_def split: prod.splits sql_outcome.splits list.splits)

lemma head_commit_newest:
  assumes "head_commit run db = (Inr parent, db')" and "head_reliable run"
  shows "parent = map_option c_str (newest (tab_commits (tables db)))"
proof -
  obtain out db1 where out: "run db head_sql [] = (out, db1)" by (cases "run db head_sql []")
  from assms(1) obtain rows fin where "out = Stepped rows fin"
    by (cases out) (simp_all add: head_commit_def out)
  with assms(2) out have "out = Stepped rows SQL_done" by (cases fin) (auto simp: head_reliable_def)
  with head_query [OF out] assms(1) show ?thesis
    by (auto simp: head_commit_def out column_def split: option.splits)
qed

text \<open>
  The two ways of \<open>commit_config\<close>: it returns the commit, which is then in the tables with its snapshot,
  or it throws, and then nothing is stored or the commit without its snapshot.
\<close>

lemma commit_config_cases:
  assumes "commit_config run dump now author message payload db = (res, db')" and "dump payload = Inr txt"
  shows "(\<exists>e. res = Inl e \<and> tables db' = tables db) \<or>
    (\<exists>parent db1 c. head_commit run db = (Inr parent, db1) \<and> c = made_commit parent txt now author message \<and>
      ci_sha256 c \<notin> ci_sha256 ` set (tab_commits (tables db)) \<and>
      ((\<exists>e. res = Inl e \<and> tables db' = tables db\<lparr>tab_commits := tab_commits (tables db) @ [stored c]\<rparr>) \<or>
       res = Inr c \<and> ci_sha256 c \<notin> fst ` set (tab_snapshots (tables db)) \<and>
       tables db' = tables db\<lparr>tab_commits := tab_commits (tables db) @ [stored c],
         tab_snapshots := tab_snapshots (tables db) @ [(ci_sha256 c, c_str txt)]\<rparr>))"
proof -
  obtain hr db1 where head: "head_commit run db = (hr, db1)" by (cases "head_commit run db")
  have t1: "tables db1 = tables db" by (rule head_commit_tables [OF head])
  show ?thesis
  proof (cases hr)
    case (Inl e)
    with assms(1) head t1 show ?thesis by (auto simp: commit_config_eq [of dump payload "txt", OF assms(2)])
  next
    case (Inr parent)
    obtain c where c: "c = made_commit parent txt now author message" by blast
    obtain r2 db2 where i2: "sql_insert run ''commit'' insert_commit_sql (commit_row (stored c)) db1 = (r2, db2)"
      by (cases "sql_insert run ''commit'' insert_commit_sql (commit_row (stored c)) db1")
    obtain r3 db3 where
      i3: "sql_insert run ''snapshot'' insert_snapshot_sql [SQL_text (ci_sha256 c), SQL_text (c_str txt)] db2 = (r3, db3)"
      by (cases "sql_insert run ''snapshot'' insert_snapshot_sql [SQL_text (ci_sha256 c), SQL_text (c_str txt)] db2")
    have sha: "ci_sha256 (stored c) = ci_sha256 c" by (simp add: c made_commit_stored)
    have run: "(res, db') = db_bind (r2, db2) (\<lambda>_ db. db_bind
        (sql_insert run ''snapshot'' insert_snapshot_sql [SQL_text (ci_sha256 c), SQL_text (c_str txt)] db) (\<lambda>_ db. (Inr c, db)))"
      using assms(1) unfolding commit_config_eq [of dump payload "txt", OF assms(2)] head Inr by (simp add: c [symmetric] i2 Let_def)
    note t2 = insert_commit [OF i2, unfolded sha t1] and t3 = insert_snapshot [OF i3]
    show ?thesis
    proof (cases r2)
      case (Inl e)
      with run t2 show ?thesis by simp
    next
      case (Inr u)
      with run i3 have "(res, db') = db_bind (r3, db3) (\<lambda>_ db. (Inr c, db))" by simp
      moreover from Inr t2 have "ci_sha256 c \<notin> ci_sha256 ` set (tab_commits (tables db))"
        "tables db2 = tables db\<lparr>tab_commits := tab_commits (tables db) @ [stored c]\<rparr>" by simp_all
      ultimately show ?thesis
        using head \<open>hr = Inr parent\<close> c t3 by (cases r3) auto
    qed
  qed
qed

lemma commit_config_keeps:
  assumes "commit_config run dump now author message payload db = (res, db')" and "dump payload = Inr txt"
    and "head_reliable run" and "archive_ok (tables db)"
  shows "archive_ok (tables db')"
proof -
  let ?cs = "tab_commits (tables db)"
  from assms(4) have ok: "linear_history ?cs" "list_all (\<lambda>c. stored c = c) ?cs" by (simp_all add: archive_ok_def)
  from commit_config_cases [OF assms(1,2)] show ?thesis
  proof (elim disjE exE conjE)
    fix e assume "tables db' = tables db"
    with assms(4) show ?thesis by simp
  next
    fix parent db1 c
    assume head: "head_commit run db = (Inr parent, db1)" and c: "c = made_commit parent txt now author message"
      and new: "ci_sha256 c \<notin> ci_sha256 ` set ?cs"
    have "parent = newest ?cs"
      using head_commit_newest [OF head assms(3)] newest_clean [OF ok(2)] by simp
    then have "linear_history (?cs @ [stored c])"
      using linear_history_snoc [OF ok(1), of "stored c"] new newest_clean [OF ok(2)] by (simp add: c made_commit_stored)
    with assms(4) have added: "archive_ok (tables db\<lparr>tab_commits := ?cs @ [stored c]\<rparr>)"
      by (auto simp: archive_ok_def)
    {
      fix e assume "tables db' = tables db\<lparr>tab_commits := ?cs @ [stored c]\<rparr>"
      with added show ?thesis by simp
    next
      assume "ci_sha256 c \<notin> fst ` set (tab_snapshots (tables db))"
        and "tables db' = tables db\<lparr>tab_commits := ?cs @ [stored c],
          tab_snapshots := tab_snapshots (tables db) @ [(ci_sha256 c, c_str txt)]\<rparr>"
      with added show ?thesis by (auto simp: archive_ok_def c made_commit_stored)
    }
  qed
qed

lemma snapshot_read_back:
  assumes "get_snapshot run parse k db = (r, db')" and "c_str k = k" and "(k, txt) \<in> set (tab_snapshots (tables db))"
    and "distinct (map fst (tab_snapshots (tables db)))" and "c_str txt = txt" and "parse txt = Inr payload"
  shows "tables db' = tables db \<and> (r = Inr payload \<or> (\<exists>e. r = Inl (ConfigArchiveError e)))"
proof -
  obtain out where out: "run db snapshot_sql [SQL_text k] = (out, db')"
    using assms(1) by (auto simp: get_snapshot_def bind_text_def assms(2) split: prod.splits sql_outcome.splits list.splits)
  note ans = snapshot_query [OF out, unfolded filter_key [OF assms(3,4)], simplified]
  show ?thesis
  proof (cases out)
    case (Stepped rows fin)
    with ans have "rows = [] \<or> rows = [[SQL_text txt]]" by (cases fin; cases rows) (auto simp: prefix_Cons)
    with assms(1,5,6) ans out Stepped show ?thesis
      by (auto simp: get_snapshot_def bind_text_def assms(2) column_def)
  qed (use assms(1) ans out in \<open>auto simp: get_snapshot_def bind_text_def assms(2)\<close>)
qed

lemma history_prefix:
  assumes "get_commit_history run n db = (Inr h, db')" and "archive_ok (tables db)"
  shows "tables db' = tables db \<and> prefix h (sql_limit n (rev (tab_commits (tables db))))"
proof -
  let ?full = "sql_limit n (rev (tab_commits (tables db)))"
  obtain out where out: "run db history_sql [SQL_int n] = (out, db')" and
    "\<exists>rows fin. out = Stepped rows fin \<and> commits_of_rows rows = Inr h"
    using assms(1) by (auto simp: get_commit_history_def split: prod.splits sql_outcome.splits)
  then obtain rows fin where rows: "out = Stepped rows fin" "commits_of_rows rows = Inr h" by blast
  note ans = history_query [OF out]
  with rows(1) have "prefix rows (map commit_row ?full)" by (cases fin) simp_all
  then obtain cs where cs: "prefix cs ?full" "rows = map commit_row cs" using prefix_map_rightE by blast
  have "set cs \<subseteq> set (tab_commits (tables db))"
    using set_mono_prefix [OF cs(1)] set_take_subset [of "nat n" "rev (tab_commits (tables db))"]
    by (auto simp: sql_limit_def split: if_splits)
  with assms(2) have "map stored cs = cs"
    by (auto simp: archive_ok_def list_all_iff intro!: map_idI)
  with rows(2) cs ans show ?thesis by (simp add: commits_of_commit_rows)
qed

end

section \<open>A database of plain tables\<close>

fun commit_of_values :: "sql_value list \<Rightarrow> commit_info option" where
  "commit_of_values [SQL_text h, SQL_null, SQL_text a, SQL_text m, SQL_text t] =
     Some \<lparr>ci_sha256 = h, ci_parent = None, ci_author = a, ci_message = m, ci_created_at = t\<rparr>"
| "commit_of_values [SQL_text h, SQL_text p, SQL_text a, SQL_text m, SQL_text t] =
     Some \<lparr>ci_sha256 = h, ci_parent = Some p, ci_author = a, ci_message = m, ci_created_at = t\<rparr>"
| "commit_of_values vs = None"

fun pair_of_values :: "sql_value list \<Rightarrow> (string \<times> string) option" where
  "pair_of_values [SQL_text k, SQL_text v] = Some (k, v)"
| "pair_of_values vs = None"

definition unique_failure :: sql_outcome where
  "unique_failure = Stepped [] (SQL_error ''UNIQUE constraint failed'')"

definition table_run :: "archive_tables sql" where
  "table_run t sql vs =
     (if sql = head_sql then
        (Stepped (case newest (tab_commits t) of None \<Rightarrow> [] | Some s \<Rightarrow> [[SQL_text s]]) SQL_done, t)
      else if sql = history_sql then
        (case vs of
           [SQL_int n] \<Rightarrow> (Stepped (map commit_row (sql_limit n (rev (tab_commits t)))) SQL_done, t)
         | _ \<Rightarrow> (Prepare_failed ''bad parameters'', t))
      else if sql = snapshot_sql then
        (case vs of
           [SQL_text k] \<Rightarrow>
             (Stepped (map (\<lambda>r. [SQL_text (snd r)]) (filter (\<lambda>r. fst r = k) (tab_snapshots t))) SQL_done, t)
         | _ \<Rightarrow> (Prepare_failed ''bad parameters'', t))
      else if sql = insert_commit_sql then
        (case commit_of_values vs of
           Some c \<Rightarrow>
             if ci_sha256 c \<in> set (map ci_sha256 (tab_commits t)) then (unique_failure, t)
             else (Stepped [] SQL_done, t\<lparr>tab_commits := tab_commits t @ [c]\<rparr>)
         | None \<Rightarrow> (Prepare_failed ''bad parameters'', t))
      else if sql = insert_snapshot_sql then
        (case pair_of_values vs of
           Some r \<Rightarrow>
             if fst r \<in> set (map fst (tab_snapshots t)) then (unique_failure, t)
             else (Stepped [] SQL_done, t\<lparr>tab_snapshots := tab_snapshots t @ [r]\<rparr>)
         | None \<Rightarrow> (Prepare_failed ''bad parameters'', t))
      else if sql = insert_deployment_sql then
        (case pair_of_values vs of
           Some r \<Rightarrow> (Stepped [] SQL_done, t\<lparr>tab_deployments := tab_deployments t @ [r]\<rparr>)
         | None \<Rightarrow> (Prepare_failed ''bad parameters'', t))
      else (Prepare_failed ''near text: syntax error'', t))"

lemma sql_distinct:
  "history_sql \<noteq> head_sql" "snapshot_sql \<noteq> head_sql" "snapshot_sql \<noteq> history_sql"
  "insert_commit_sql \<noteq> head_sql" "insert_commit_sql \<noteq> history_sql" "insert_commit_sql \<noteq> snapshot_sql"
  "insert_snapshot_sql \<noteq> head_sql" "insert_snapshot_sql \<noteq> history_sql" "insert_snapshot_sql \<noteq> snapshot_sql"
  "insert_snapshot_sql \<noteq> insert_commit_sql"
  "insert_deployment_sql \<noteq> head_sql" "insert_deployment_sql \<noteq> history_sql" "insert_deployment_sql \<noteq> snapshot_sql"
  "insert_deployment_sql \<noteq> insert_commit_sql" "insert_deployment_sql \<noteq> insert_snapshot_sql"
  by (simp_all add: head_sql_def history_sql_def snapshot_sql_def insert_commit_sql_def insert_snapshot_sql_def
      insert_deployment_sql_def)

lemma commit_of_commit_row_values [simp]: "commit_of_values (commit_row c) = Some c"
  by (cases "ci_parent c") (simp_all add: commit_row_def)

interpretation plain: sqlite_store table_run id
  by unfold_locales
    (auto simp: table_run_def sql_distinct done_if_def unique_failure_def split: if_splits option.splits)

lemma head_reliable_table_run: "head_reliable table_run"
  by (auto simp: head_reliable_def table_run_def)

definition empty_tables :: archive_tables where
  "empty_tables = \<lparr>tab_commits = [], tab_snapshots = [], tab_deployments = []\<rparr>"

lemma archive_ok_empty: "archive_ok empty_tables"
  by (simp add: archive_ok_def empty_tables_def linear_history_def)

text \<open>The same database with an error whenever one chosen statement is stepped.\<close>

definition failing_run :: "string \<Rightarrow> archive_tables sql" where
  "failing_run bad t sql vs =
     (if sql = bad then (Stepped [] (SQL_error ''disk I/O error''), t) else table_run t sql vs)"

interpretation failing: sqlite_store "failing_run bad" id for bad
  by unfold_locales
    (auto simp: failing_run_def table_run_def sql_distinct done_if_def unique_failure_def
      split: if_splits option.splits)

lemma sqlite_stores: "sqlite_store table_run id" "sqlite_store (failing_run bad) id"
  by (rule plain.sqlite_store_axioms, rule failing.sqlite_store_axioms)

text \<open>A first commit on empty tables, its snapshot stored or refused.\<close>

definition first_tables :: "commit_info \<Rightarrow> archive_tables" where
  "first_tables c = empty_tables\<lparr>tab_commits := [stored c]\<rparr>"

lemma first_commit:
  fixes now author message payload
  defines "c \<equiv> made_commit None ''{}'' now author message"
  shows "commit_config table_run (\<lambda>_. Inr ''{}'') now author message payload empty_tables =
      (Inr c, first_tables c\<lparr>tab_snapshots := [(ci_sha256 c, ''{}'')]\<rparr>)"
    and "commit_config (failing_run insert_snapshot_sql) (\<lambda>_. Inr ''{}'') now author message payload empty_tables =
      (Inl (ConfigArchiveError ''failed to insert snapshot: disk I/O error''), first_tables c)"
  by (simp_all add: commit_config_eq head_commit_def sql_insert_def failing_run_def table_run_def sql_distinct
      sql_distinct [symmetric] newest_def first_tables_def empty_tables_def c_def Let_def c_str_def)

section \<open>Properties\<close>

text \<open>
  A commit that is returned is recorded: it carries the id hashed from its contents and time, the
  newest commit as its parent, and author, message and time; the tables then hold it as the newest commit
  and its payload as its snapshot, and nothing else has changed. An id that exists already is refused.
\<close>

theorem commit_is_recorded:
  assumes "sqlite_store run tables" and "head_reliable run" and "archive_ok (tables db)" and "dump payload = Inr txt"
    and "commit_config run dump now author message payload db = (Inr c, db')"
  shows "c = made_commit (newest (tab_commits (tables db))) txt now author message \<and>
    ci_sha256 c \<notin> ci_sha256 ` set (tab_commits (tables db)) \<and>
    tables db' = tables db\<lparr>tab_commits := tab_commits (tables db) @ [stored c],
      tab_snapshots := tab_snapshots (tables db) @ [(ci_sha256 c, c_str txt)]\<rparr>"
proof -
  from sqlite_store.commit_config_cases [OF assms(1,5,4)] obtain parent db1 where
    head: "head_commit run db = (Inr parent, db1)" and c: "c = made_commit parent txt now author message"
    and rest: "ci_sha256 c \<notin> ci_sha256 ` set (tab_commits (tables db))"
      "tables db' = tables db\<lparr>tab_commits := tab_commits (tables db) @ [stored c],
        tab_snapshots := tab_snapshots (tables db) @ [(ci_sha256 c, c_str txt)]\<rparr>" by auto
  have "parent = newest (tab_commits (tables db))"
    using sqlite_store.head_commit_newest [OF assms(1) head assms(2)] newest_clean assms(3)
    by (simp add: archive_ok_def)
  with c rest show ?thesis by simp
qed

theorem commit_is_recorded_witness:
  "\<exists>c t. commit_config table_run (\<lambda>_. Inr ''{}'') 0 ''ann'' ''first'' (J_object []) empty_tables = (Inr c, t) \<and>
     c = made_commit None ''{}'' 0 ''ann'' ''first'' \<and> tab_commits t = [stored c]"
proof -
  have ok: "archive_ok (id empty_tables)" by (simp add: archive_ok_empty)
  note commit = first_commit(1) [of 0 "''ann''" "''first''" "J_object []"]
  from commit_is_recorded [OF sqlite_stores(1) head_reliable_table_run ok refl commit]
  have "tab_commits (id (snd (commit_config table_run (\<lambda>_. Inr ''{}'') 0 ''ann'' ''first'' (J_object []) empty_tables))) =
      [stored (made_commit None ''{}'' 0 ''ann'' ''first'')]"
    unfolding commit by (simp add: empty_tables_def first_tables_def newest_def)
  with commit show ?thesis by simp
qed

text \<open>
  C29. Whatever the database answers, as long as no HEAD query fails half way, the archive stays a linear
  history: distinct ids, every commit naming the one before it as its parent, every snapshot
  belonging to one commit. A commit that fails and the recording of a deployment keep this too, and
  reading changes nothing.
\<close>

theorem archive_stays_linear:
  assumes "sqlite_store run tables" and "head_reliable run" and "archive_ok (tables db)"
  shows "archive_ok (tables (snd (commit_config run dump now author message payload db))) \<and>
    archive_ok (tables (snd (record_deployment run now k db))) \<and>
    tables (snd (get_commit_history run n db)) = tables db \<and>
    tables (snd (get_snapshot run parse k db)) = tables db"
proof -
  have "archive_ok (tables (snd (commit_config run dump now author message payload db)))"
  proof (cases "dump payload")
    case (Inl e)
    with assms(3) show ?thesis by (simp add: commit_config_def)
  next
    case (Inr printed)
    obtain res db' where res: "commit_config run dump now author message payload db = (res, db')" by (metis surj_pair)
    with sqlite_store.commit_config_keeps [OF assms(1) res Inr assms(2,3)] show ?thesis by simp
  qed
  moreover have "archive_ok (tables (snd (record_deployment run now k db)))"
  proof -
    obtain r db' where r: "sql_insert run ''deployment'' insert_deployment_sql
        [SQL_text (c_str k), SQL_text (c_str (format_timestamp now))] db = (r, db')" by (metis surj_pair)
    from sqlite_store.insert_deployment [OF assms(1) r] assms(3) show ?thesis
      using r by (auto simp: record_deployment_def bind_text_def archive_ok_def split: if_splits)
  qed
  moreover have "tables (snd (get_commit_history run n db)) = tables db"
    using sqlite_store.history_query [OF assms(1), of db n]
    by (cases "run db history_sql [SQL_int n]") (auto simp: get_commit_history_def split: sql_outcome.split)
  moreover have "tables (snd (get_snapshot run parse k db)) = tables db"
    using sqlite_store.snapshot_query [OF assms(1), of db "c_str k"]
    by (cases "run db snapshot_sql [SQL_text (c_str k)]")
      (auto simp: get_snapshot_def bind_text_def split: sql_outcome.split list.split)
  ultimately show ?thesis by blast
qed

theorem archive_stays_linear_witness:
  "linear_history (tab_commits (snd (commit_config table_run (\<lambda>_. Inr ''{}'') 0 ''ann'' ''first'' (J_object []) empty_tables)))"
proof -
  have "archive_ok (id empty_tables)" by (simp add: archive_ok_empty)
  from archive_stays_linear [OF sqlite_stores(1) head_reliable_table_run this, of "\<lambda>_. Inr ''{}''" 0 "''ann''" "''first''" "J_object []"]
  show ?thesis by (simp add: archive_ok_def)
qed

text \<open>
  What was committed comes back: after \<open>commit_config\<close> returned, \<open>get_snapshot\<close> of the new id gives the very
  document, when the JSON library reads back what it printed and the query runs to its end.
\<close>

theorem snapshot_roundtrip:
  assumes "sqlite_store run tables" and "head_reliable run" and "archive_ok (tables db)"
    and "dump payload = Inr printed" and "parse printed = Inr payload" and "CHR 0x00 \<notin> set printed"
    and "commit_config run dump now author message payload db = (Inr c, db1)"
    and "run db1 snapshot_sql [SQL_text (ci_sha256 c)] = (Stepped rows SQL_done, db2)"
  shows "get_snapshot run parse (ci_sha256 c) db1 = (Inr payload, db2)"
proof -
  let ?snaps = "tab_snapshots (tables db1)"
  from sqlite_store.commit_config_cases [OF assms(1,7,4)] have sha: "c_str (ci_sha256 c) = ci_sha256 c"
    and "(ci_sha256 c, c_str printed) \<in> set ?snaps" by (auto simp: made_commit_stored)
  moreover have "c_str printed = printed" by (rule c_str_id [OF assms(6)])
  moreover have "distinct (map fst ?snaps)"
    using sqlite_store.commit_config_keeps [OF assms(1,7,4,2,3)] by (simp add: archive_ok_def)
  ultimately have "filter (\<lambda>r. fst r = ci_sha256 c) ?snaps = [(ci_sha256 c, printed)]" by (simp add: filter_key)
  with sqlite_store.snapshot_query [OF assms(1,8)] have "rows = [[SQL_text printed]]" by simp
  with assms(5,8) \<open>c_str printed = printed\<close> show ?thesis by (simp add: get_snapshot_def bind_text_def sha column_def)
qed

theorem snapshot_roundtrip_witness:
  "\<exists>c t. commit_config table_run (\<lambda>_. Inr ''{}'') 0 ''ann'' ''first'' (J_object []) empty_tables = (Inr c, t) \<and>
     fst (get_snapshot table_run (\<lambda>_. Inr (J_object [])) (ci_sha256 c) t) = Inr (J_object [])"
proof -
  have ok: "archive_ok (id empty_tables)" by (simp add: archive_ok_empty)
  note commit = first_commit(1) [of 0 "''ann''" "''first''" "J_object []"]
  let ?c = "made_commit None ''{}'' 0 ''ann'' ''first''"
  let ?t = "first_tables ?c\<lparr>tab_snapshots := [(ci_sha256 ?c, ''{}'')]\<rparr>"
  obtain rows where rows: "table_run ?t snapshot_sql [SQL_text (ci_sha256 ?c)] = (Stepped rows SQL_done, ?t)"
    by (simp add: table_run_def sql_distinct)
  from snapshot_roundtrip [OF sqlite_stores(1) head_reliable_table_run ok refl refl _ commit rows] commit
  show ?thesis by simp
qed

text \<open>
  A \<open>commit_config\<close> that throws leaves the tables as they were, or, where only the snapshot was refused,
  with the new commit at their end and no snapshot for it: nothing undoes the first insertion.
\<close>

theorem failed_commit_leaves:
  assumes "sqlite_store run tables" and "archive_ok (tables db)"
    and "commit_config run dump now author message payload db = (Inl e, db')"
  shows "tables db' = tables db \<or>
    (\<exists>c. tables db' = tables db\<lparr>tab_commits := tab_commits (tables db) @ [c]\<rparr> \<and>
      ci_sha256 c \<notin> ci_sha256 ` set (tab_commits (tables db)) \<and> ci_sha256 c \<notin> fst ` set (tab_snapshots (tables db')))"
proof (cases "dump payload")
  case (Inl x)
  with assms(3) show ?thesis by (simp add: commit_config_def)
next
  case (Inr printed)
  from sqlite_store.commit_config_cases [OF assms(1,3) Inr] show ?thesis
  proof (elim disjE exE conjE)
    fix parent db1 c
    assume "c = made_commit parent printed now author message" "ci_sha256 c \<notin> ci_sha256 ` set (tab_commits (tables db))"
      "tables db' = tables db\<lparr>tab_commits := tab_commits (tables db) @ [stored c]\<rparr>"
    with assms(2) show ?thesis
      by (intro disjI2 exI [of _ "stored c"]) (auto simp: archive_ok_def made_commit_stored)
  qed simp_all
qed

theorem failed_commit_leaves_witness:
  "\<exists>e c t. commit_config (failing_run insert_snapshot_sql) (\<lambda>_. Inr ''{}'') 0 ''ann'' ''first'' (J_object []) empty_tables =
     (Inl e, t) \<and> tab_commits t = [c] \<and> tab_snapshots t = []"
proof -
  have ok: "archive_ok (id empty_tables)" by (simp add: archive_ok_empty)
  note commit = first_commit(2) [of 0 "''ann''" "''first''" "J_object []"]
  from failed_commit_leaves [OF sqlite_stores(2) ok commit] commit show ?thesis
    by (auto simp: first_tables_def empty_tables_def)
qed

text \<open>
  The HEAD query is taken for an empty history when its step fails: a commit made then starts a second
  root although there are commits before it.
\<close>

theorem failing_head_starts_new_root:
  assumes "sqlite_store run tables" and "run db head_sql [] = (Stepped [] (SQL_error e), db1)"
    and "dump payload = Inr printed" and "commit_config run dump now author message payload db = (Inr c, db')"
  shows "ci_parent c = None \<and> tab_commits (tables db') = tab_commits (tables db) @ [stored c]"
proof -
  have "head_commit run db = (Inr None, db1)" by (simp add: head_commit_def assms(2))
  with sqlite_store.commit_config_cases [OF assms(1,4,3)] show ?thesis by (auto simp: made_commit_def Let_def)
qed

theorem failing_head_starts_new_root_witness:
  "\<exists>c t. commit_config (failing_run head_sql) (\<lambda>_. Inr ''{}'') 0 ''ann'' ''second'' (J_object [])
       (empty_tables\<lparr>tab_commits := [\<lparr>ci_sha256 = ''old'', ci_parent = None, ci_author = ''ann'', ci_message = ''first'',
          ci_created_at = []\<rparr>]\<rparr>) = (Inr c, t) \<and> ci_parent c = None \<and> length (tab_commits t) = 2"
proof -
  let ?old = "\<lparr>ci_sha256 = ''old'', ci_parent = None, ci_author = ''ann'', ci_message = ''first'', ci_created_at = []\<rparr>"
  let ?t = "empty_tables\<lparr>tab_commits := [?old]\<rparr>"
  let ?c = "made_commit None ''{}'' 0 ''ann'' ''second''"
  have sha: "length (ci_sha256 ?c) = 64" by (simp add: made_commit_def Let_def length_sha256_hex)
  then have "ci_sha256 ?c \<noteq> ''old''" by auto
  then have commit: "commit_config (failing_run head_sql) (\<lambda>_. Inr ''{}'') 0 ''ann'' ''second'' (J_object []) ?t =
      (Inr ?c, ?t\<lparr>tab_commits := [?old, stored ?c], tab_snapshots := [(ci_sha256 ?c, c_str ''{}'')]\<rparr>)"
    by (simp add: commit_config_eq head_commit_def sql_insert_def failing_run_def table_run_def sql_distinct
      empty_tables_def Let_def made_commit_stored)
  have "failing_run head_sql ?t head_sql [] = (Stepped [] (SQL_error ''disk I/O error''), ?t)"
    by (simp add: failing_run_def)
  from failing_head_starts_new_root [OF sqlite_stores(2) this refl commit] commit show ?thesis by simp
qed

end
