(* ===== verification/Web_Server.thy ===== *)
theory Web_Server
  imports Logic_Runtime Mock_Driver Archive_Store
begin

text \<open>
  The HTTP handlers of \<open>web_server.cpp\<close> and the life of the server object. The HTTP library is seen through
  what a handler asks of a request and sets on a response; the JSON library is a record of the calls the
  handlers make. An exception a handler does not catch leaves it: \<open>Escaped\<close>.
\<close>

section \<open>Requests, responses and libraries\<close>

record request =
  rq_body :: string
  rq_has_param :: "string \<Rightarrow> bool"
  rq_param :: "string \<Rightarrow> string"

record response =
  rs_status :: int
  rs_content :: string
  rs_content_type :: string

datatype handler_end = Responded response | Escaped string

text \<open>A failing call gives the message of its exception.\<close>

record json_lib =
  jl_parse :: "string \<Rightarrow> string + json"
  jl_dump :: "json \<Rightarrow> string + string"
  jl_at :: "json \<Rightarrow> string \<Rightarrow> string + json"
  jl_get_size :: "json \<Rightarrow> string + size_t"
  jl_get_u8 :: "json \<Rightarrow> string + u8"
  jl_get_bool :: "json \<Rightarrow> string + bool"

section \<open>Deploying\<close>

text \<open>What the server is given: an archive or none, a logger or none, a callback for inputs or none.\<close>

record web_config =
  wc_archive :: bool
  wc_logger :: bool
  wc_input :: bool

record 'db web_world =
  ww_runtime :: logic_runtime
  ww_heap :: program_heap
  ww_db :: 'db
  ww_log :: log_ring

text \<open>The clock as the calls of a handler read it.\<close>

record web_times =
  at_commit :: nat
  at_deployment :: nat
  at_log :: nat

definition commit_to_json :: "commit_info \<Rightarrow> json" where
  "commit_to_json c = J_object
     [(''author'', J_string (ci_author c)),
      (''created_at'', J_string (ci_created_at c)),
      (''message'', J_string (ci_message c)),
      (''parent_sha256'', (case ci_parent c of None \<Rightarrow> J_null | Some p \<Rightarrow> J_string p)),
      (''sha256'', J_string (ci_sha256 c))]"

definition write_log :: "web_config \<Rightarrow> nat \<Rightarrow> log_level \<Rightarrow> string \<Rightarrow> 'db web_world \<Rightarrow> 'db web_world" where
  "write_log cfg now level message w =
     (if wc_logger cfg then w\<lparr>ww_log := log (ww_log w) now level message\<rparr> else w)"

definition json_response :: "int \<Rightarrow> string \<Rightarrow> handler_end" where
  "json_response status body =
     Responded \<lparr>rs_status = status, rs_content = body, rs_content_type = ''application/json''\<rparr>"

text \<open>A catch clause: the error object is printed, which may throw again, and then the failure is logged.\<close>

definition reply_error ::
  "json_lib \<Rightarrow> web_config \<Rightarrow> nat \<Rightarrow> int \<Rightarrow> string \<Rightarrow> log_level \<Rightarrow> string \<Rightarrow> 'db web_world \<Rightarrow>
     handler_end \<times> 'db web_world" where
  "reply_error lib cfg now status err level message w =
     (case jl_dump lib (J_object [(''error'', J_string err)]) of
        Inl e \<Rightarrow> (Escaped e, w)
      | Inr body \<Rightarrow> (json_response status body, write_log cfg now level message w))"

definition reply_archive_error ::
  "json_lib \<Rightarrow> web_config \<Rightarrow> nat \<Rightarrow> archive_failure \<Rightarrow> 'db web_world \<Rightarrow> handler_end \<times> 'db web_world" where
  "reply_archive_error lib cfg now f w =
     (case f of
        ConfigArchiveError e \<Rightarrow>
          reply_error lib cfg now 500 (''deploy succeeded but archiving failed: '' @ e) Error
            (''archive write failed: '' @ e) w
      | Json_error e \<Rightarrow> (Escaped e, w)
      | Null_column \<Rightarrow> (Escaped ''null column'', w))"

text \<open>The end of the try block: the commit, if one was made, is in the reply, sorted before the count.\<close>

definition reply_deployed :: "json_lib \<Rightarrow> nat \<Rightarrow> commit_info option \<Rightarrow> 'db web_world \<Rightarrow> handler_end \<times> 'db web_world" where
  "reply_deployed lib rules commit w =
     (case jl_dump lib (J_object
        ((case commit of None \<Rightarrow> [] | Some c \<Rightarrow> [(''commit'', commit_to_json c)]) @
         [(''rule_count'', J_uint (of_nat rules))])) of
        Inl e \<Rightarrow> (Escaped e, w)
      | Inr body \<Rightarrow> (json_response 200 body, w))"

definition deploy_message :: "commit_info \<Rightarrow> string \<Rightarrow> nat \<Rightarrow> string" where
  "deploy_message c author rules =
     ''deploy: commit '' @ take 8 (ci_sha256 c) @ '' by '' @ author @ '' ('' @ dec_string rules @ '' rules)''"

definition deploy_archived ::
  "json_lib \<Rightarrow> 'db sql \<Rightarrow> web_config \<Rightarrow> web_times \<Rightarrow> request \<Rightarrow> json \<Rightarrow> nat \<Rightarrow> 'db web_world \<Rightarrow>
     handler_end \<times> 'db web_world" where
  "deploy_archived lib run cfg tm req doc rules w =
     (let author = (if rq_param req ''author'' = [] then ''anonymous'' else rq_param req ''author'') in
      case commit_config run (jl_dump lib) (at_commit tm) author (rq_param req ''message'') doc (ww_db w) of
        (Inl f, db) \<Rightarrow> reply_archive_error lib cfg (at_log tm) f (w\<lparr>ww_db := db\<rparr>)
      | (Inr commit, db) \<Rightarrow>
          (case record_deployment run (at_deployment tm) (ci_sha256 commit) db of
             (Inl f, db') \<Rightarrow> reply_archive_error lib cfg (at_log tm) f (w\<lparr>ww_db := db'\<rparr>)
           | (Inr _, db') \<Rightarrow>
               reply_deployed lib rules (Some commit)
                 (write_log cfg (at_log tm) Info (deploy_message commit author rules) (w\<lparr>ww_db := db'\<rparr>))))"

text \<open>The program a successful reload points to; \<open>rule_count\<close> is asked of it through the pointer.\<close>

definition pointed_program :: "program_heap \<Rightarrow> nat \<Rightarrow> logic_program" where
  "pointed_program h a = (case heap_cells h a of Some p \<Rightarrow> p | None \<Rightarrow> [])"

definition handle_deploy ::
  "json_lib \<Rightarrow> 'db sql \<Rightarrow> web_config \<Rightarrow> web_times \<Rightarrow> request \<Rightarrow> 'db web_world \<Rightarrow> handler_end \<times> 'db web_world" where
  "handle_deploy lib run cfg tm req w =
     (case jl_parse lib (rq_body req) of
        Inl e \<Rightarrow> reply_error lib cfg (at_log tm) 400 (''invalid JSON: '' @ e) Warn
                  (''deploy rejected: invalid JSON: '' @ e) w
      | Inr doc \<Rightarrow>
          (case reload_from_json (ww_runtime w) (ww_heap w) doc of
             (Inl f, rt, h) \<Rightarrow>
               (case f of
                  Logic_parse_error m \<Rightarrow> reply_error lib cfg (at_log tm) 400 m Warn (''deploy rejected: '' @ m) w
                | Out_of_range m \<Rightarrow> (Escaped m, w)
                | Invalid_argument m \<Rightarrow> (Escaped m, w)
                | Undefined_behaviour \<Rightarrow> (Escaped ''undefined behaviour'', w))
           | (Inr a, rt, h) \<Rightarrow>
               let w1 = w\<lparr>ww_runtime := rt, ww_heap := h\<rparr>; rules = rule_count (pointed_program h a) in
                 if wc_archive cfg then deploy_archived lib run cfg tm req doc rules w1
                 else reply_deployed lib rules None w1))"

section \<open>History\<close>

text \<open>\<open>std::stoi\<close>: blanks, a sign, digits; \<open>None\<close> where it throws, for no digits or a number that is no \<open>int\<close>.\<close>

definition stoi :: "string \<Rightarrow> int option" where
  "stoi s =
     (let t = dropWhile (\<lambda>c. c \<in> {CHR '' '', CHR 0x09, CHR 0x0A, CHR 0x0B, CHR 0x0C, CHR 0x0D}) s;
          neg = (t \<noteq> [] \<and> hd t = CHR ''-''); signed = (t \<noteq> [] \<and> (hd t = CHR ''-'' \<or> hd t = CHR ''+''));
          ds = takeWhile (\<lambda>c. c \<in> set ''0123456789'') (if signed then tl t else t);
          v = (if neg then - int (from_base 10 ds) else int (from_base 10 ds)) in
      if ds = [] \<or> v < - (2 ^ 31) \<or> 2 ^ 31 \<le> v then None else Some v)"

definition history_limit :: "request \<Rightarrow> int" where
  "history_limit req =
     (if rq_has_param req ''limit'' then (case stoi (rq_param req ''limit'') of None \<Rightarrow> 50 | Some v \<Rightarrow> v) else 50)"

definition handle_history ::
  "json_lib \<Rightarrow> 'db sql \<Rightarrow> request \<Rightarrow> 'db web_world \<Rightarrow> handler_end \<times> 'db web_world" where
  "handle_history lib run req w =
     (case get_commit_history run (history_limit req) (ww_db w) of
        (Inl (ConfigArchiveError e), db) \<Rightarrow> (Escaped e, w\<lparr>ww_db := db\<rparr>)
      | (Inl (Json_error e), db) \<Rightarrow> (Escaped e, w\<lparr>ww_db := db\<rparr>)
      | (Inl Null_column, db) \<Rightarrow> (Escaped ''null column'', w\<lparr>ww_db := db\<rparr>)
      | (Inr commits, db) \<Rightarrow>
          (case jl_dump lib (J_object [(''commits'', J_array (map commit_to_json commits))]) of
             Inl e \<Rightarrow> (Escaped e, w\<lparr>ww_db := db\<rparr>)
           | Inr body \<Rightarrow> (json_response 200 body, w\<lparr>ww_db := db\<rparr>)))"

section \<open>Simulated inputs\<close>

definition json_field :: "json_lib \<Rightarrow> json \<Rightarrow> string \<Rightarrow> (json \<Rightarrow> string + 'a) \<Rightarrow> string + 'a" where
  "json_field lib doc key get = res_bind (jl_at lib doc key) get"

definition input_request :: "json_lib \<Rightarrow> string \<Rightarrow> string + size_t \<times> u8 \<times> bool" where
  "input_request lib body =
     res_bind (jl_parse lib body) (\<lambda>doc.
     res_bind (json_field lib doc ''byte'' (jl_get_size lib)) (\<lambda>byte.
     res_bind (json_field lib doc ''bit'' (jl_get_u8 lib)) (\<lambda>idx.
     res_bind (json_field lib doc ''value'' (jl_get_bool lib)) (\<lambda>v.
       Inr (byte, idx, v)))))"

text \<open>\<open>set_input\<close> is the callback, with the state it changes.\<close>

definition handle_input ::
  "json_lib \<Rightarrow> (size_t \<Rightarrow> u8 \<Rightarrow> bool \<Rightarrow> 'd \<Rightarrow> 'd) \<Rightarrow> request \<Rightarrow> 'd \<Rightarrow> handler_end \<times> 'd" where
  "handle_input lib set_input req d =
     (case input_request lib (rq_body req) of
        Inr (byte, idx, v) \<Rightarrow>
          (json_response 200 (''{'' @ double_quoted ''ok'' @ '':true}''), set_input byte idx v d)
      | Inl e \<Rightarrow>
          (case jl_dump lib (J_object [(''error'', J_string (''invalid input request: '' @ e))]) of
             Inl e' \<Rightarrow> (Escaped e', d)
           | Inr body \<Rightarrow> (json_response 400 body, d)))"

section \<open>The server object\<close>

text \<open>
  \<open>server_\<close> set or not, the flag, the thread that listens, the routes registered, the messages on
  \<open>std::cerr\<close>; \<open>bound\<close> is what \<open>listen\<close> returns.
\<close>

record web_server =
  sv_port :: int
  sv_server :: bool
  sv_running :: bool
  sv_thread :: bool
  sv_routes :: "(string \<times> string) list"
  sv_errors :: "string list"

definition WebServer :: "int \<Rightarrow> web_server" where
  "WebServer port = \<lparr>sv_port = port, sv_server = False, sv_running = False, sv_thread = False, sv_routes = [],
     sv_errors = []\<rparr>"

definition web_routes :: "web_config \<Rightarrow> (string \<times> string) list" where
  "web_routes cfg =
     [(''GET'', ''/''), (''POST'', ''/api/deploy'')] @
     (if wc_archive cfg then [(''GET'', ''/api/history'')] else []) @
     (if wc_input cfg then [(''POST'', ''/api/input'')] else [])"

definition web_start :: "web_config \<Rightarrow> bool \<Rightarrow> web_server \<Rightarrow> web_server" where
  "web_start cfg bound s =
     (if sv_server s then s
      else s\<lparr>sv_server := True, sv_routes := web_routes cfg, sv_running := True, sv_thread := True,
             sv_errors := (if bound then sv_errors s
               else sv_errors s @ [''[Error] WebServer: failed to bind port '' @ dec_string_int (sv_port s)])\<rparr>)"

definition web_stop :: "web_server \<Rightarrow> web_server" where
  "web_stop s =
     (if \<not> sv_server s then s
      else s\<lparr>sv_thread := False, sv_server := False, sv_routes := [], sv_running := False\<rparr>)"

end
