(* ===== verification/Web_System.thy ===== *)
theory Web_System
  imports Web_Server
begin

text \<open>
  What the handlers do, on every branch, and how they compose with the logic runtime, the archive and the
  simulated hardware.
\<close>

lemma write_log_simps [simp]:
  "ww_runtime (write_log cfg now level message w) = ww_runtime w"
  "ww_heap (write_log cfg now level message w) = ww_heap w"
  "ww_db (write_log cfg now level message w) = ww_db w"
  by (simp_all add: write_log_def)

lemma reply_error_cases:
  assumes "reply_error lib cfg now status err level message w = (out, w')"
  shows "ww_runtime w' = ww_runtime w \<and> ww_heap w' = ww_heap w \<and> ww_db w' = ww_db w \<and>
    (\<forall>r. out = Responded r \<longrightarrow> rs_status r = status)"
  using assms by (auto simp: reply_error_def json_response_def split: sum.splits)

lemma reply_deployed_cases:
  assumes "reply_deployed lib rules commit w = (out, w')"
  shows "w' = w \<and> (\<forall>r. out = Responded r \<longrightarrow> rs_status r = 200)"
  using assms by (auto simp: reply_deployed_def json_response_def split: sum.splits)

lemma reply_archive_error_cases:
  assumes "reply_archive_error lib cfg now f w = (out, w')"
  shows "ww_runtime w' = ww_runtime w \<and> ww_heap w' = ww_heap w \<and> ww_db w' = ww_db w \<and>
    (\<forall>r. out = Responded r \<longrightarrow> rs_status r = 500)"
  using assms reply_error_cases by (fastforce simp: reply_archive_error_def split: archive_failure.splits)

text \<open>After a successful reload the archive part only adds to the database and the log.\<close>

lemma deploy_archived_cases:
  assumes "deploy_archived lib run cfg tm req doc rules w = (out, w')"
  shows "ww_runtime w' = ww_runtime w \<and> ww_heap w' = ww_heap w \<and>
    (\<forall>r. out = Responded r \<longrightarrow> rs_status r = 500 \<or> rs_status r = 200 \<and>
      (\<exists>author c db db'. commit_config run (jl_dump lib) (at_commit tm) author (rq_param req ''message'') doc (ww_db w) =
          (Inr c, db) \<and> record_deployment run (at_deployment tm) (ci_sha256 c) db = (Inr (), db') \<and> ww_db w' = db'))"
proof -
  obtain author where author:
    "author = (if rq_param req ''author'' = [] then ''anonymous'' else rq_param req ''author'')" by blast
  obtain r1 db1 where c: "commit_config run (jl_dump lib) (at_commit tm) author (rq_param req ''message'') doc (ww_db w) =
      (r1, db1)" by (metis surj_pair)
  note run = assms [unfolded deploy_archived_def Let_def, folded author, unfolded c]
  show ?thesis
  proof (cases r1)
    case (Inl f)
    with run reply_archive_error_cases [of lib cfg "at_log tm" f "w\<lparr>ww_db := db1\<rparr>" out w'] show ?thesis by auto
  next
    case (Inr commit)
    obtain r2 db2 where d: "record_deployment run (at_deployment tm) (ci_sha256 commit) db1 = (r2, db2)"
      by (metis surj_pair)
    show ?thesis
    proof (cases r2)
      case (Inl f)
      with run d \<open>r1 = Inr commit\<close> reply_archive_error_cases [of lib cfg "at_log tm" f "w\<lparr>ww_db := db2\<rparr>" out w']
      show ?thesis by auto
    next
      case ok: (Inr u)
      with run d Inr reply_deployed_cases [of lib rules "Some commit" _ out w'] have
        "w' = write_log cfg (at_log tm) Info (deploy_message commit author rules) (w\<lparr>ww_db := db2\<rparr>)"
        and "\<forall>r. out = Responded r \<longrightarrow> rs_status r = 200" by auto
      with c d Inr ok show ?thesis by auto
    qed
  qed
qed

text \<open>The world with a fresh object for a program, made the current one.\<close>

definition installed :: "'db web_world \<Rightarrow> logic_program \<Rightarrow> 'db web_world" where
  "installed w p = (let a = heap_next (ww_heap w) in
     w\<lparr>ww_runtime := (ww_runtime w)\<lparr>rt_current := Some a\<rparr>,
       ww_heap := \<lparr>heap_cells = (heap_cells (ww_heap w))(a \<mapsto> p), heap_next = Suc a\<rparr>\<rparr>)"

lemma installed_simps [simp]:
  "rt_current (ww_runtime (installed w p)) = Some (heap_next (ww_heap w))"
  "heap_cells (ww_heap (installed w p)) (heap_next (ww_heap w)) = Some p"
  "ww_db (installed w p) = ww_db w"
  by (simp_all add: installed_def Let_def)

lemma handle_deploy_accepted:
  assumes "jl_parse lib (rq_body req) = Inr doc" and "from_json doc (rt_period (ww_runtime w)) = Inr p"
  shows "handle_deploy lib run cfg tm req w =
    (if wc_archive cfg then deploy_archived lib run cfg tm req doc (rule_count p) (installed w p)
     else reply_deployed lib (rule_count p) None (installed w p))"
  using assms by (simp add: handle_deploy_def reload_from_json_cases installed_def pointed_program_def Let_def)

lemma handle_deploy_rejected:
  assumes "handle_deploy lib run cfg tm req w = (Responded r, w')" and "jl_parse lib (rq_body req) = Inr doc"
    and "from_json doc (rt_period (ww_runtime w)) = Inl f"
  shows "\<exists>m. f = Logic_parse_error m \<and>
    reply_error lib cfg (at_log tm) 400 m Warn (''deploy rejected: '' @ m) w = (Responded r, w')"
  using assms by (auto simp: handle_deploy_def reload_from_json_cases split: failure.splits)

section \<open>Conversions of the JSON library\<close>

text \<open>
  What the library documents of the calls on a request body: \<open>at\<close> finds a field of an object, numbers
  convert like a cast, so \<open>get<uint8_t>\<close> keeps the low eight bits, and a boolean is a boolean.
\<close>

locale json_conversions =
  fixes lib :: json_lib
  assumes at_field: "map_of kvs key = Some v \<Longrightarrow> jl_at lib (J_object kvs) key = Inr v"
    and get_size_number: "jl_get_size lib (J_uint n) = Inr n"
    and get_u8_number: "jl_get_u8 lib (J_uint n) = Inr (ucast n)"
    and get_bool_boolean: "jl_get_bool lib (J_bool b) = Inr b"
begin

lemma input_request_fields:
  assumes "jl_parse lib body = Inr (J_object kvs)" and "map_of kvs ''byte'' = Some (J_uint n)"
    and "map_of kvs ''bit'' = Some (J_uint k)" and "map_of kvs ''value'' = Some (J_bool b)"
  shows "input_request lib body = Inr (n, ucast k, b)"
  using assms
  by (simp add: input_request_def json_field_def at_field get_size_number get_u8_number get_bool_boolean)

end

text \<open>A library with these conversions, whatever its parser and printer are.\<close>

definition plain_lib :: "(string \<Rightarrow> string + json) \<Rightarrow> (json \<Rightarrow> string + string) \<Rightarrow> json_lib" where
  "plain_lib parse dump = \<lparr>jl_parse = parse, jl_dump = dump,
     jl_at = (\<lambda>j key. case map_of (json_fields j) key of None \<Rightarrow> Inl (''key '' @ single_quoted key @ '' not found'') | Some v \<Rightarrow> Inr v),
     jl_get_size = (\<lambda>j. case j of J_uint n \<Rightarrow> Inr n | J_int n \<Rightarrow> Inr n | _ \<Rightarrow> Inl ''type must be number''),
     jl_get_u8 = (\<lambda>j. case j of J_uint n \<Rightarrow> Inr (ucast n) | J_int n \<Rightarrow> Inr (ucast n) | _ \<Rightarrow> Inl ''type must be number''),
     jl_get_bool = (\<lambda>j. case j of J_bool b \<Rightarrow> Inr b | _ \<Rightarrow> Inl ''type must be boolean'')\<rparr>"

interpretation plain_json: json_conversions "plain_lib parse dump" for parse dump
  by unfold_locales (simp_all add: plain_lib_def)

lemma plain_json_conversions: "json_conversions (plain_lib parse dump)"
  by (rule plain_json.json_conversions_axioms)

section \<open>Examples\<close>

definition demo_runtime :: "'db \<Rightarrow> 'db web_world" where
  "demo_runtime db = \<lparr>ww_runtime = LogicRuntime 20 None, ww_heap = empty_heap, ww_db = db, ww_log = new_log_ring\<rparr>"

definition demo_doc :: json where
  "demo_doc = J_object [(''rules'', J_array [])]"

definition demo_lib :: json_lib where
  "demo_lib = plain_lib (\<lambda>_. Inr demo_doc) (\<lambda>_. Inr ''{}'')"

definition demo_request :: request where
  "demo_request = \<lparr>rq_body = ''{}'', rq_has_param = (\<lambda>_. False), rq_param = (\<lambda>_. [])\<rparr>"

definition demo_config :: web_config where
  "demo_config = \<lparr>wc_archive = True, wc_logger = True, wc_input = True\<rparr>"

definition demo_times :: web_times where
  "demo_times = \<lparr>at_commit = 0, at_deployment = 0, at_log = 0\<rparr>"

lemma demo_parsed: "from_json demo_doc period = Inr []"
  by (simp add: from_json_def demo_doc_def require_field_def contains_def json_at_def)

lemma demo_deployed:
  "\<exists>r w'. handle_deploy demo_lib table_run demo_config demo_times demo_request (demo_runtime empty_tables) =
    (Responded r, w') \<and> rs_status r = 200"
proof -
  have lib: "jl_parse demo_lib (rq_body demo_request) = Inr demo_doc" "jl_dump demo_lib = (\<lambda>_. Inr ''{}'')"
    by (simp_all add: demo_lib_def plain_lib_def)
  show ?thesis
    by (simp add: handle_deploy_accepted [OF lib(1) demo_parsed] lib(2) demo_config_def deploy_archived_def
        demo_runtime_def first_commit record_deployment_def sql_insert_def table_run_def sql_distinct
        bind_text_def reply_deployed_def json_response_def Let_def)
qed

section \<open>Properties\<close>

text \<open>
  C10. A deployment is all or nothing for the running program: a 400 means the body is no JSON or no valid
  program, and then the running program, the heap of programs and the archive are untouched; a 200 or a
  500 means the program of the document is the running one, whether the archive worked or not.
\<close>

theorem deploy_all_or_nothing:
  assumes "handle_deploy lib run cfg tm req w = (Responded r, w')"
  shows "(rs_status r = 400 \<and> ww_runtime w' = ww_runtime w \<and> ww_heap w' = ww_heap w \<and> ww_db w' = ww_db w \<and>
      (\<forall>doc. jl_parse lib (rq_body req) = Inr doc \<longrightarrow>
        (\<exists>m. from_json doc (rt_period (ww_runtime w)) = Inl (Logic_parse_error m)))) \<or>
    ((rs_status r = 200 \<or> rs_status r = 500 \<and> wc_archive cfg) \<and>
      (\<exists>doc p a. jl_parse lib (rq_body req) = Inr doc \<and> from_json doc (rt_period (ww_runtime w)) = Inr p \<and>
        rt_current (ww_runtime w') = Some a \<and> heap_cells (ww_heap w') a = Some p))"
proof (cases "jl_parse lib (rq_body req)")
  case (Inl e)
  with assms show ?thesis using reply_error_cases by (fastforce simp: handle_deploy_def)
next
  case doc: (Inr doc)
  show ?thesis
  proof (cases "from_json doc (rt_period (ww_runtime w))")
    case (Inl f)
    from handle_deploy_rejected [OF assms doc Inl] reply_error_cases doc Inl show ?thesis by fastforce
  next
    case (Inr p)
    note run = assms [unfolded handle_deploy_accepted [OF doc Inr]]
    have "ww_runtime w' = ww_runtime (installed w p) \<and> ww_heap w' = ww_heap (installed w p) \<and>
        (rs_status r = 200 \<or> rs_status r = 500 \<and> wc_archive cfg)"
    proof (cases "wc_archive cfg")
      case True
      with run have "deploy_archived lib run cfg tm req doc (rule_count p) (installed w p) = (Responded r, w')" by simp
      from deploy_archived_cases [OF this] True show ?thesis by auto
    next
      case False
      with run have "reply_deployed lib (rule_count p) None (installed w p) = (Responded r, w')" by simp
      from reply_deployed_cases [OF this] show ?thesis by auto
    qed
    with doc Inr show ?thesis by auto
  qed
qed

theorem deploy_all_or_nothing_witness:
  "\<exists>r w'. handle_deploy demo_lib table_run \<lparr>wc_archive = False, wc_logger = True, wc_input = True\<rparr>
      \<lparr>at_commit = 0, at_deployment = 0, at_log = 0\<rparr> demo_request (demo_runtime empty_tables) = (Responded r, w') \<and>
    (\<exists>a. rt_current (ww_runtime w') = Some a \<and> heap_cells (ww_heap w') a = Some [])"
proof -
  let ?cfg = "\<lparr>wc_archive = False, wc_logger = True, wc_input = True\<rparr>"
  let ?tm = "\<lparr>at_commit = 0, at_deployment = 0, at_log = 0\<rparr>"
  let ?w = "demo_runtime empty_tables"
  obtain r w' where run: "handle_deploy demo_lib table_run ?cfg ?tm demo_request ?w = (Responded r, w')"
    and "rs_status r = 200"
    by (simp add: handle_deploy_def demo_lib_def plain_lib_def reload_from_json_cases demo_parsed
        reply_deployed_def json_response_def Let_def)
  with deploy_all_or_nothing [OF run] have "\<exists>a. rt_current (ww_runtime w') = Some a \<and> heap_cells (ww_heap w') a = Some []"
    by (auto simp: demo_lib_def plain_lib_def demo_parsed)
  with run show ?thesis by blast
qed

text \<open>
  C9. What runs is what is archived: after a deployment answered with 200, on a server with an archive, the
  newest commit's snapshot is the printed text of a document whose program is the running one, and the
  last deployment on record names that commit.
\<close>

theorem deploy_archives_what_runs:
  assumes "sqlite_store run tables" and "head_reliable run" and "archive_ok (tables (ww_db w))" and "wc_archive cfg"
    and "jl_parse lib (rq_body req) = Inr doc" and "jl_dump lib doc = Inr printed" and "CHR 0x00 \<notin> set printed"
    and "handle_deploy lib run cfg tm req w = (Responded r, w')" and "rs_status r = 200"
  shows "\<exists>c t p a. tab_commits (tables (ww_db w')) = tab_commits (tables (ww_db w)) @ [c] \<and>
    (ci_sha256 c, printed) \<in> set (tab_snapshots (tables (ww_db w'))) \<and>
    tab_deployments (tables (ww_db w')) = tab_deployments (tables (ww_db w)) @ [(ci_sha256 c, t)] \<and>
    from_json doc (rt_period (ww_runtime w)) = Inr p \<and>
    rt_current (ww_runtime w') = Some a \<and> heap_cells (ww_heap w') a = Some p"
proof (cases "from_json doc (rt_period (ww_runtime w))")
  case (Inl f)
  from handle_deploy_rejected [OF assms(8,5) Inl] obtain m where
    "reply_error lib cfg (at_log tm) 400 m Warn (''deploy rejected: '' @ m) w = (Responded r, w')" by blast
  from reply_error_cases [OF this] assms(9) show ?thesis by simp
next
  case (Inr p)
  have "deploy_archived lib run cfg tm req doc (rule_count p) (installed w p) = (Responded r, w')"
    using assms(4,8) by (simp add: handle_deploy_accepted [OF assms(5) Inr])
  from deploy_archived_cases [OF this] assms(9) obtain author c db db' where
    w': "ww_runtime w' = ww_runtime (installed w p)" "ww_heap w' = ww_heap (installed w p)" "ww_db w' = db'"
    and commit: "commit_config run (jl_dump lib) (at_commit tm) author (rq_param req ''message'') doc (ww_db w) = (Inr c, db)"
    and deployed: "record_deployment run (at_deployment tm) (ci_sha256 c) db = (Inr (), db')" by auto
  have printed: "c_str printed = printed" by (rule c_str_id [OF assms(7)])
  from sqlite_store.commit_config_cases [OF assms(1) commit assms(6)] have sha: "c_str (ci_sha256 c) = ci_sha256 c"
    and stored: "ci_sha256 (stored c) = ci_sha256 c"
    and tabs: "tables db = tables (ww_db w)\<lparr>tab_commits := tab_commits (tables (ww_db w)) @ [stored c],
         tab_snapshots := tab_snapshots (tables (ww_db w)) @ [(ci_sha256 c, printed)]\<rparr>"
    by (auto simp: made_commit_stored printed)
  have "sql_insert run ''deployment'' insert_deployment_sql
      [SQL_text (ci_sha256 c), SQL_text (format_timestamp (at_deployment tm))] db = (Inr (), db')"
    using deployed by (simp add: record_deployment_def bind_text_def sha)
  from sqlite_store.insert_deployment [OF assms(1) this] tabs
  have "tables db' = tables db\<lparr>tab_deployments := tab_deployments (tables (ww_db w)) @
      [(ci_sha256 c, format_timestamp (at_deployment tm))]\<rparr>" by simp
  with tabs w' Inr stored show ?thesis
    by (intro exI [of _ "stored c"] exI [of _ "format_timestamp (at_deployment tm)"] exI [of _ p]
        exI [of _ "heap_next (ww_heap w)"]) simp
qed

theorem deploy_archives_what_runs_witness:
  "\<exists>r w' c t. handle_deploy demo_lib table_run demo_config demo_times demo_request (demo_runtime empty_tables) =
      (Responded r, w') \<and> rs_status r = 200 \<and> tab_deployments (ww_db w') = [(ci_sha256 c, t)] \<and>
    tab_commits (ww_db w') = [c] \<and> (ci_sha256 c, ''{}'') \<in> set (tab_snapshots (ww_db w'))"
proof -
  have ok: "archive_ok (id (ww_db (demo_runtime empty_tables)))" by (simp add: demo_runtime_def archive_ok_empty)
  have lib: "jl_parse demo_lib (rq_body demo_request) = Inr demo_doc" "jl_dump demo_lib demo_doc = Inr ''{}''"
    by (simp_all add: demo_lib_def plain_lib_def)
  obtain r w' where run: "handle_deploy demo_lib table_run demo_config demo_times demo_request (demo_runtime empty_tables) =
      (Responded r, w')" and status: "rs_status r = 200" using demo_deployed by blast
  have "wc_archive demo_config" "CHR 0x00 \<notin> set ''{}''" by (simp_all add: demo_config_def)
  from deploy_archives_what_runs [OF sqlite_stores(1) head_reliable_table_run ok this(1) lib this(2) run status] run status
  show ?thesis by (auto simp: demo_runtime_def empty_tables_def)
qed

text \<open>
  From the browser to the logic: a well-formed input request is answered with 200, and after the next
  read of the inputs the scan sees the value at the byte and bit of the request. The bit number is narrowed
  to eight bits on the way, before any range check: the request for bit 256 sets bit 0.
\<close>

theorem posted_input_reaches_scan:
  assumes "json_conversions lib" and "jl_parse lib (rq_body req) = Inr (J_object kvs)"
    and "map_of kvs ''byte'' = Some (J_uint n)" and "map_of kvs ''bit'' = Some (J_uint k)"
    and "map_of kvs ''value'' = Some (J_bool b)"
    and "valid_mock d" and "valid_memory mem" and "unat n < 512" and "unat k mod 256 \<le> 7"
  shows "\<exists>r d' mem'. handle_input lib (\<lambda>n k b d. set_mock_input_bit d n k b) req d = (Responded r, d') \<and>
    rs_status r = 200 \<and> mock_read_inputs d' mem = Inr (d', mem') \<and>
    read_bit mem' Input n (of_nat (unat k mod 256)) = Inr b"
proof -
  have k: "(ucast k :: u8) = of_nat (unat k mod 256)"
    by (simp add: word_unat_eq_iff unsigned_ucast_eq unat_of_nat take_bit_eq_mod)
  have "(of_nat (unat k mod 256) :: u8) \<le> 7" using assms(9) by (simp add: word_le_nat_alt unat_of_nat_u8)
  from set_input_then_read_inputs [OF assms(6,7,8) this assms(8) this] obtain mem' where
    "mock_read_inputs (set_mock_input_bit d n (of_nat (unat k mod 256)) b) mem =
      Inr (set_mock_input_bit d n (of_nat (unat k mod 256)) b, mem')"
    "read_bit mem' Input n (of_nat (unat k mod 256)) = Inr b" by auto
  moreover have "input_request lib (rq_body req) = Inr (n, of_nat (unat k mod 256), b)"
    using json_conversions.input_request_fields [OF assms(1-5)] by (simp only: k)
  ultimately show ?thesis by (simp add: handle_input_def json_response_def)
qed

theorem posted_input_reaches_scan_witness:
  "\<exists>r d' mem'. handle_input
      (plain_lib (\<lambda>_. Inr (J_object [(''bit'', J_uint 256), (''byte'', J_uint 3), (''value'', J_bool True)])) (\<lambda>_. Inr []))
      (\<lambda>n k b d. set_mock_input_bit d n k b) demo_request (MockDriver True) = (Responded r, d') \<and> rs_status r = 200 \<and>
    mock_read_inputs d' new_memory_map = Inr (d', mem') \<and> read_bit mem' Input 3 0 = Inr True"
proof -
  let ?kvs = "[(''bit'', J_uint 256), (''byte'', J_uint 3), (''value'', J_bool True)]"
  let ?lib = "plain_lib (\<lambda>_. Inr (J_object ?kvs)) (\<lambda>_. Inr [])"
  have "jl_parse ?lib (rq_body demo_request) = Inr (J_object ?kvs)" by (simp add: plain_lib_def)
  from posted_input_reaches_scan [OF plain_json_conversions this, of 3 256 True "MockDriver True" new_memory_map]
  show ?thesis using valid_MockDriver [of True] valid_new_memory_map by simp
qed

text \<open>
  The history a browser gets: the commits from the newest back, at most as many as the limit asks for
  (all for a negative one, 50 without a number), in the reply of status 200; asking changes nothing.
\<close>

theorem history_reply:
  assumes "sqlite_store run tables" and "archive_ok (tables (ww_db w))"
    and "handle_history lib run req w = (Responded r, w')"
  shows "\<exists>commits. rs_status r = 200 \<and>
    jl_dump lib (J_object [(''commits'', J_array (map commit_to_json commits))]) = Inr (rs_content r) \<and>
    prefix commits (sql_limit (history_limit req) (rev (tab_commits (tables (ww_db w))))) \<and>
    tables (ww_db w') = tables (ww_db w) \<and> ww_runtime w' = ww_runtime w \<and> ww_heap w' = ww_heap w"
proof -
  obtain commits db where h: "get_commit_history run (history_limit req) (ww_db w) = (Inr commits, db)"
    and "w' = w\<lparr>ww_db := db\<rparr>" "rs_status r = 200"
    "jl_dump lib (J_object [(''commits'', J_array (map commit_to_json commits))]) = Inr (rs_content r)"
    using assms(3) by (auto simp: handle_history_def json_response_def split: prod.splits sum.splits archive_failure.splits)
  with sqlite_store.history_prefix [OF assms(1) h assms(2)] show ?thesis by auto
qed

theorem history_reply_witness:
  "\<exists>r w'. handle_history demo_lib table_run demo_request (demo_runtime empty_tables) = (Responded r, w') \<and>
     tab_commits (ww_db w') = []"
proof -
  have ok: "archive_ok (id (ww_db (demo_runtime empty_tables)))" by (simp add: demo_runtime_def archive_ok_empty)
  obtain r w' where run: "handle_history demo_lib table_run demo_request (demo_runtime empty_tables) = (Responded r, w')"
    by (simp add: handle_history_def get_commit_history_def table_run_def sql_distinct demo_runtime_def empty_tables_def
        sql_limit_def demo_lib_def plain_lib_def json_response_def)
  from history_reply [OF sqlite_stores(1) ok run] run show ?thesis by (auto simp: demo_runtime_def empty_tables_def)
qed

end
