(* ===== verification/Ws_Handshake.thy ===== *)
theory Ws_Handshake
  imports Digests "HOL-Library.Sublist"
begin

text \<open>
  The WebSocket handshake of \<open>telemetry_server.cpp\<close>: SHA-1, base64, the reader of the upgrade request and
  the reply.
\<close>

unbundle bit_operations_syntax

section \<open>SHA-1\<close>

definition left_rotate :: "u32 \<Rightarrow> nat \<Rightarrow> u32" where
  "left_rotate value bits = push_bit bits value OR drop_bit (32 - bits) value"

definition sha1_extend :: "nat \<Rightarrow> u32 list \<Rightarrow> u32 list" where
  "sha1_extend i w = w @ [left_rotate (w ! (i - 3) XOR w ! (i - 8) XOR w ! (i - 14) XOR w ! (i - 16)) 1]"

definition sha1_schedule :: "u8 list \<Rightarrow> u32 list" where
  "sha1_schedule chunk = fold sha1_extend [16..<80] (map (\<lambda>i. big_endian_word chunk (i * 4)) [0..<16])"

type_synonym sha1_vars = "u32 \<times> u32 \<times> u32 \<times> u32 \<times> u32"

definition sha1_f :: "nat \<Rightarrow> u32 \<Rightarrow> u32 \<Rightarrow> u32 \<Rightarrow> u32" where
  "sha1_f i b c d =
     (if i < 20 then (b AND c) OR (NOT b AND d)
      else if i < 40 then b XOR c XOR d
      else if i < 60 then (b AND c) OR (b AND d) OR (c AND d)
      else b XOR c XOR d)"

definition sha1_k :: "nat \<Rightarrow> u32" where
  "sha1_k i = (if i < 20 then 0x5A827999 else if i < 40 then 0x6ED9EBA1 else if i < 60 then 0x8F1BBCDC
     else 0xCA62C1D6)"

definition sha1_round :: "u32 list \<Rightarrow> nat \<Rightarrow> sha1_vars \<Rightarrow> sha1_vars" where
  "sha1_round w i v =
     (case v of (a, b, c, d, e) \<Rightarrow>
        let temp = left_rotate a 5 + sha1_f i b c d + e + sha1_k i + w ! i
        in (temp, a, left_rotate b 30, c, d))"

definition sha1_chunk :: "u8 list \<Rightarrow> sha1_vars \<Rightarrow> sha1_vars" where
  "sha1_chunk chunk h =
     (case (h, fold (sha1_round (sha1_schedule chunk)) [0..<80] h) of
        ((h0, h1, h2, h3, h4), (a, b, c, d, e)) \<Rightarrow> (h0 + a, h1 + b, h2 + c, h3 + d, h4 + e))"

definition sha1_initial :: sha1_vars where
  "sha1_initial = (0x67452301, 0xEFCDAB89, 0x98BADCFE, 0x10325476, 0xC3D2E1F0)"

definition sha1 :: "u8 list \<Rightarrow> u8 list" where
  "sha1 input =
     (case over_blocks sha1_chunk (pad_message input) sha1_initial of
        (h0, h1, h2, h3, h4) \<Rightarrow> concat (map (be_bytes 4) [h0, h1, h2, h3, h4]))"

text \<open>
  Equations for evaluation: a word that is used twice is brought to a numeral first, so that the
  evaluation of a digest stays linear.
\<close>

lemma left_rotate_code [code]:
  "left_rotate value bits = word_of_int (uint (push_bit bits value OR drop_bit (32 - bits) value))"
  by (simp add: left_rotate_def)

lemma sha1_round_code [code]:
  "sha1_round w i v =
     (case v of (a, b, c, d, e) \<Rightarrow>
        (word_of_int (uint (left_rotate a 5 + sha1_f i b c d + e + sha1_k i + w ! i)), a,
         left_rotate b 30, c, d))"
  by (simp add: sha1_round_def Let_def)

section \<open>Base64\<close>

definition base64_table :: string where
  "base64_table = ''ABCDEFGHIJKLMNOPQRSTUVWXYZabcdefghijklmnopqrstuvwxyz0123456789+/''"

text \<open>The character for the six bits of \<open>n\<close> from bit \<open>s\<close> on.\<close>

definition base64_char :: "u32 \<Rightarrow> nat \<Rightarrow> char" where
  "base64_char n s = base64_table ! unat (drop_bit s n AND 0x3F)"

function base64_from :: "u8 list \<Rightarrow> nat \<Rightarrow> string" where
  "base64_from data i =
     (if i + 3 \<le> length data then
        (let n = push_bit 16 (ucast (data ! i)) OR push_bit 8 (ucast (data ! (i + 1))) OR ucast (data ! (i + 2))
         in [base64_char n 18, base64_char n 12, base64_char n 6, base64_char n 0] @ base64_from data (i + 3))
      else if length data - i = 1 then
        (let n = push_bit 16 (ucast (data ! i)) in [base64_char n 18, base64_char n 12, CHR ''='', CHR ''=''])
      else if length data - i = 2 then
        (let n = push_bit 16 (ucast (data ! i)) OR push_bit 8 (ucast (data ! (i + 1)))
         in [base64_char n 18, base64_char n 12, base64_char n 6, CHR ''=''])
      else [])"
  by pat_completeness auto
termination by (relation "measure (\<lambda>(data, i). length data - i)") auto

declare base64_from.simps [simp del]

definition base64_encode :: "u8 list \<Rightarrow> string" where
  "base64_encode data = base64_from data 0"

section \<open>The upgrade request\<close>

definition crlf :: string where "crlf = [CHR 0x0D, CHR 0x0A]"

text \<open>\<open>std::string::find\<close> from a position on: the first index at which the pattern occurs.\<close>

function find_from :: "string \<Rightarrow> string \<Rightarrow> nat \<Rightarrow> nat option" where
  "find_from s pat i =
     (if i > length s then None
      else if prefix pat (drop i s) then Some i
      else find_from s pat (Suc i))"
  by pat_completeness auto
termination by (relation "measure (\<lambda>(s, pat, i). Suc (length s) - i)") auto

declare find_from.simps [simp del]

text \<open>
  The receive loop: the bytes still to come, one per call of \<open>recv\<close>; at their end \<open>recv\<close> reports a closed
  connection or an error and the reader gives up.
\<close>

function read_request :: "string \<Rightarrow> string \<Rightarrow> string option" where
  "read_request request incoming =
     (if find_from request (crlf @ crlf) 0 = None \<and> length request < 8192 then
        (case incoming of [] \<Rightarrow> None | c # cs \<Rightarrow> read_request (request @ [c]) cs)
      else Some request)"
  by pat_completeness auto
termination by (relation "measure (\<lambda>(request, incoming). length incoming)") auto

declare read_request.simps [simp del]

definition is_blank :: "char \<Rightarrow> bool" where
  "is_blank c \<longleftrightarrow> c = CHR '' '' \<or> c = CHR 0x09"

text \<open>\<open>find_first_not_of\<close>, \<open>find_last_not_of\<close> and \<open>substr\<close> of the key: its blanks at both ends are dropped.\<close>

definition trim_blanks :: "string \<Rightarrow> string" where
  "trim_blanks key =
     (if list_all is_blank key then []
      else
        let first = length (takeWhile is_blank key);
            last = length key - 1 - length (takeWhile is_blank (rev key))
        in take (last - first + 1) (drop first key))"

definition key_marker :: string where
  "key_marker = ''Sec-WebSocket-Key:''"

text \<open>The value of the key header in the text of a request, or nothing.\<close>

definition key_of_request :: "string \<Rightarrow> string" where
  "key_of_request request =
     (case find_from request key_marker 0 of
        None \<Rightarrow> []
      | Some p \<Rightarrow>
          let pos = p + length key_marker in
            (case find_from request crlf pos of
               None \<Rightarrow> []
             | Some fin \<Rightarrow> trim_blanks (take (fin - pos) (drop pos request))))"

definition read_websocket_key :: "string \<Rightarrow> string" where
  "read_websocket_key incoming =
     (case read_request [] incoming of None \<Rightarrow> [] | Some request \<Rightarrow> key_of_request request)"

section \<open>The reply\<close>

definition kWsMagicGuid :: string where
  "kWsMagicGuid = ''258EAFA5-E914-47DA-95CA-C5AB0DC85B11''"

definition accept_key :: "string \<Rightarrow> string" where
  "accept_key key = base64_encode (sha1 (bytes_of (key @ kWsMagicGuid)))"

definition upgrade_response :: "string \<Rightarrow> string" where
  "upgrade_response key =
     ''HTTP/1.1 101 Switching Protocols'' @ crlf @ ''Upgrade: websocket'' @ crlf @
     ''Connection: Upgrade'' @ crlf @ ''Sec-WebSocket-Accept: '' @ accept_key key @ crlf @ crlf"

text \<open>What the accept loop makes of a connection: nothing for a request without a key, else the reply.\<close>

definition handshake :: "string \<Rightarrow> string option" where
  "handshake incoming =
     (let key = read_websocket_key incoming in if key = [] then None else Some (upgrade_response key))"

section \<open>Decoding base64\<close>

text \<open>The place of a character in the alphabet, and the reader of groups of four characters.\<close>

definition base64_value :: "char \<Rightarrow> nat" where
  "base64_value c = length (takeWhile (\<lambda>x. x \<noteq> c) base64_table)"

fun base64_decode :: "string \<Rightarrow> u8 list" where
  "base64_decode (a # b # c # d # rest) =
     (let n = (base64_value a * 64 + base64_value b) * 64 + base64_value c in
      if c = CHR ''='' then to_be 1 ((base64_value a * 64 + base64_value b) div 16)
      else if d = CHR ''='' then to_be 2 (n div 4)
      else to_be 3 (n * 64 + base64_value d) @ base64_decode rest)"
| "base64_decode _ = []"

lemma length_base64_table: "length base64_table = 64"
  by (simp add: base64_table_def)

lemma base64_table_values: "list_all (\<lambda>i. base64_value (base64_table ! i) = i \<and> base64_table ! i \<noteq> CHR ''='') [0..<64]"
  by code_simp

lemma base64_char_value:
  "base64_value (base64_char n s) = unat n div 2 ^ s mod 64 \<and> base64_char n s \<noteq> CHR ''=''"
proof -
  have "(0x3F :: u32) = mask 6" by (simp add: mask_eq_exp_minus_1)
  then have mask: "drop_bit s n AND 0x3F = take_bit 6 (drop_bit s n)" by (simp add: take_bit_eq_mask)
  have "take_bit 32 (unat n) = unat n"
    using unsigned_less [of n, where ?'a = nat] by (simp add: take_bit_nat_eq_self)
  then have "unat (drop_bit s n AND 0x3F) = take_bit 6 (drop_bit s (unat n))"
    unfolding mask by (simp add: unsigned_take_bit_eq unsigned_drop_bit_eq)
  then have "unat (drop_bit s n AND 0x3F) = unat n div 2 ^ s mod 64"
    by (simp add: take_bit_eq_mod drop_bit_eq_div)
  moreover have "unat n div 2 ^ s mod 64 < 64" by simp
  ultimately show ?thesis
    using base64_table_values by (simp add: base64_char_def list_all_iff)
qed

lemma three_bytes:
  "(push_bit 16 (ucast a) OR push_bit 8 (ucast b) OR ucast c :: u32) = of_nat (be_nat [a, b, c])"
proof -
  have "(of_nat (be_nat [a, b, c]) :: u32) =
      push_bit 8 (push_bit 8 (push_bit 8 0 OR ucast a) OR ucast b) OR ucast c"
    unfolding shift_in_bytes [symmetric] by simp
  then show ?thesis by (simp add: push_bit_or or.assoc)
qed

lemma unat_three_bytes: "unat (of_nat (be_nat [a, b, c]) :: u32) = be_nat [a, b, c]"
  using be_nat_less [of "[a, b, c]"] by (simp add: unat_of_nat)

lemma six_bit_digits:
  assumes "n < 2 ^ 24"
  shows "n div 2 ^ 18 mod 64 * 64 + n div 2 ^ 12 mod 64 = n div 2 ^ 12"
    and "(n div 2 ^ 18 mod 64 * 64 + n div 2 ^ 12 mod 64) * 64 + n div 2 ^ 6 mod 64 = n div 64"
    and "((n div 2 ^ 18 mod 64 * 64 + n div 2 ^ 12 mod 64) * 64 + n div 2 ^ 6 mod 64) * 64 + n div 2 ^ 0 mod 64 =
      (n :: nat)"
proof -
  have step: "m div 64 * 64 + m mod 64 = m" for m :: nat by simp
  have top: "n div 2 ^ 18 mod 64 = n div 2 ^ 18" using assms by simp
  have split: "n div 2 ^ 18 = n div 2 ^ 12 div 64" "n div 2 ^ 12 = n div 2 ^ 6 div 64" "n div 2 ^ 6 = n div 64"
    by (simp_all flip: div_mult2_eq)
  show two: "n div 2 ^ 18 mod 64 * 64 + n div 2 ^ 12 mod 64 = n div 2 ^ 12"
    unfolding top unfolding split(1) by (rule step)
  show three: "(n div 2 ^ 18 mod 64 * 64 + n div 2 ^ 12 mod 64) * 64 + n div 2 ^ 6 mod 64 = n div 64"
    unfolding two unfolding split(2,3) by (rule step)
  show "((n div 2 ^ 18 mod 64 * 64 + n div 2 ^ 12 mod 64) * 64 + n div 2 ^ 6 mod 64) * 64 + n div 2 ^ 0 mod 64 = n"
    unfolding three power_0 div_by_1 by (rule step)
qed

text \<open>One group of the encoder, and the decoder on it.\<close>

lemma base64_group3:
  assumes "n = (of_nat (be_nat [a, b, c]) :: u32)"
  shows "base64_decode ([base64_char n 18, base64_char n 12, base64_char n 6, base64_char n 0] @ rest) =
    [a, b, c] @ base64_decode rest"
proof -
  have n: "unat n = be_nat [a, b, c]" by (simp add: assms unat_three_bytes)
  have less: "be_nat [a, b, c] < 2 ^ 24" using be_nat_less [of "[a, b, c]"] by simp
  have "to_be 3 (be_nat [a, b, c]) = [a, b, c]"
    using to_be_be_nat [of "[a, b, c]"] by (simp add: numeral_3_eq_3 del: to_be.simps)
  then show ?thesis
    unfolding append_Cons append_Nil base64_decode.simps Let_def
    by (simp only: base64_char_value if_False n six_bit_digits(3) [OF less] append_Cons append_Nil)
qed

lemma base64_group2:
  assumes "n = (of_nat (be_nat [a, b, 0]) :: u32)"
  shows "base64_decode [base64_char n 18, base64_char n 12, base64_char n 6, CHR ''=''] = [a, b]"
proof -
  have n: "unat n = be_nat [a, b] * 256"
    unfolding assms unat_three_bytes using be_nat_snoc [of "[a, b]" 0] by simp
  have less: "be_nat [a, b] * 256 < 2 ^ 24" using be_nat_less [of "[a, b]"] by simp
  have "((unat n div 2 ^ 18 mod 64 * 64 + unat n div 2 ^ 12 mod 64) * 64 + unat n div 2 ^ 6 mod 64) div 4 =
      be_nat [a, b]"
    unfolding n six_bit_digits(2) [OF less] by simp
  moreover have "to_be 2 (be_nat [a, b]) = [a, b]"
    using to_be_be_nat [of "[a, b]"] by (simp add: numeral_2_eq_2 del: to_be.simps)
  ultimately show ?thesis by (simp add: Let_def base64_char_value del: to_be.simps)
qed

lemma base64_group1:
  assumes "n = (of_nat (be_nat [a, 0, 0]) :: u32)"
  shows "base64_decode [base64_char n 18, base64_char n 12, CHR ''='', CHR ''=''] = [a]"
proof -
  have n: "unat n = unat a * 65536"
    unfolding assms unat_three_bytes using be_nat_snoc [of "[a, 0]" 0] be_nat_snoc [of "[a]" 0] be_nat_snoc [of "[]" a]
    by simp
  have less: "unat a * 65536 < 2 ^ 24" using unsigned_less [of a, where ?'a = nat] by simp
  have "(unat n div 2 ^ 18 mod 64 * 64 + unat n div 2 ^ 12 mod 64) div 16 = unat a"
    unfolding n six_bit_digits(1) [OF less] by simp
  then show ?thesis by (simp add: Let_def base64_char_value)
qed

lemma base64_decode_from: "base64_decode (base64_from data i) = drop i data"
proof (induction data i rule: base64_from.induct)
  case (1 data i)
  consider "i + 3 \<le> length data" | "length data - i = 1" | "length data - i = 2" | "length data \<le> i"
    by linarith
  then show ?case
  proof cases
    case 1
    then have "drop i data = [data ! i, data ! (i + 1), data ! (i + 2)] @ drop (i + 3) data"
      by (simp add: Cons_nth_drop_Suc numeral_3_eq_3)
    with 1 "1.IH" show ?thesis
      by (subst base64_from.simps) (simp only: if_True Let_def three_bytes base64_group3 [OF refl])
  next
    case 2
    then have "drop i data = [data ! i]" by (simp add: list_eq_iff_nth_eq)
    moreover have "(push_bit 16 (ucast (data ! i)) :: u32) = of_nat (be_nat [data ! i, 0, 0])"
      using three_bytes [of "data ! i" 0 0] by simp
    moreover have "\<not> i + 3 \<le> length data" using 2 by simp
    ultimately have "base64_from data i =
        (let n = of_nat (be_nat [data ! i, 0, 0]) in [base64_char n 18, base64_char n 12, CHR ''='', CHR ''=''])"
      using 2 by (subst base64_from.simps) (simp add: Let_def)
    with \<open>drop i data = _\<close> show ?thesis by (simp only: Let_def base64_group1 [OF refl])
  next
    case 3
    then have "drop i data = [data ! i, data ! (i + 1)]"
      by (simp add: list_eq_iff_nth_eq less_2_cases_iff)
    moreover have "(push_bit 16 (ucast (data ! i)) OR push_bit 8 (ucast (data ! (i + 1))) :: u32) =
        of_nat (be_nat [data ! i, data ! (i + 1), 0])"
      using three_bytes [of "data ! i" "data ! (i + 1)" 0] by simp
    moreover have "\<not> i + 3 \<le> length data" using 3 by simp
    ultimately have "base64_from data i = (let n = of_nat (be_nat [data ! i, data ! (i + 1), 0])
        in [base64_char n 18, base64_char n 12, base64_char n 6, CHR ''=''])"
      using 3 by (subst base64_from.simps) (simp add: Let_def)
    with \<open>drop i data = _\<close> show ?thesis by (simp only: Let_def base64_group2 [OF refl])
  next
    case 4
    then show ?thesis by (subst base64_from.simps) simp
  qed
qed

section \<open>Searching and reading the request\<close>

lemma find_from_None:
  "i \<le> length s \<Longrightarrow> find_from s pat i = None \<longleftrightarrow> \<not> sublist pat (drop i s)"
proof (induction s pat i rule: find_from.induct)
  case (1 s pat i)
  show ?case
  proof (cases "prefix pat (drop i s)")
    case True
    with 1(2) show ?thesis
      by (subst find_from.simps) (auto simp: prefix_imp_sublist)
  next
    case False
    then have step: "find_from s pat i = find_from s pat (Suc i)" using 1(2) by (subst find_from.simps) simp
    show ?thesis
    proof (cases "i = length s")
      case True
      then have "find_from s pat (Suc i) = None" by (subst find_from.simps) simp
      then have "find_from s pat i = None" by (simp only: step)
      moreover have "\<not> sublist pat (drop i s)" using True False by simp
      ultimately show ?thesis by blast
    next
      case less: False
      with 1(2) have "drop i s = s ! i # drop (Suc i) s" by (simp add: Cons_nth_drop_Suc)
      with False have "sublist pat (drop i s) \<longleftrightarrow> sublist pat (drop (Suc i) s)"
        by (simp add: sublist_Cons_right)
      with less 1 False show ?thesis by (simp add: step)
    qed
  qed
qed

lemma find_from_least:
  assumes "i \<le> k" and "k \<le> length s" and "prefix pat (drop k s)"
    and "\<And>j. i \<le> j \<Longrightarrow> j < k \<Longrightarrow> \<not> prefix pat (drop j s)"
  shows "find_from s pat i = Some k"
  using assms(1,2,4)
proof (induction "k - i" arbitrary: i)
  case 0
  with assms(3) show ?case by (subst find_from.simps) simp
next
  case (Suc n)
  then have "\<not> prefix pat (drop i s)" "\<not> length s < i" by auto
  moreover have "find_from s pat (Suc i) = Some k" using Suc by auto
  ultimately show ?case by (subst find_from.simps) simp
qed

lemma find_from_shift:
  "find_from (xs @ ys) pat (length xs + i) = map_option (\<lambda>k. length xs + k) (find_from ys pat i)"
proof (induction ys pat i rule: find_from.induct)
  case (1 ys pat i)
  then show ?case
    by (subst (1 2) find_from.simps) simp
qed

text \<open>An occurrence that ends a text which did not contain the pattern before its last character.\<close>

lemma find_from_first:
  assumes "\<not> sublist pat (butlast (pre @ pat))" and "pat \<noteq> []"
  shows "find_from (pre @ pat @ post) pat 0 = Some (length pre)"
proof (rule find_from_least)
  fix j assume j: "j < length pre"
  show "\<not> prefix pat (drop j (pre @ pat @ post))"
  proof
    assume "prefix pat (drop j (pre @ pat @ post))"
    then obtain zs where zs: "drop j ((pre @ pat) @ post) = pat @ zs" by (elim prefixE) simp
    have "pat = take (length pat) (drop j ((pre @ pat) @ post))" unfolding zs by simp
    also have "drop j ((pre @ pat) @ post) = drop j (pre @ pat) @ post" using j by simp
    also have "take (length pat) (drop j (pre @ pat) @ post) = take (length pat) (drop j (pre @ pat))"
      using j by simp
    also have "\<dots> = take (length pat) (drop j (butlast (pre @ pat)))"
      using j assms(2) by (simp only: butlast_conv_take drop_take take_take) (simp add: min_def)
    finally have "pat = take (length pat) (drop j (butlast (pre @ pat)))" .
    then have "sublist pat (butlast (pre @ pat))"
      by (metis sublist_take sublist_drop sublist_order.order_trans)
    with assms(1) show False ..
  qed
qed simp_all

lemma read_request_whole:
  assumes "sublist (crlf @ crlf) (request @ more)" and "\<not> sublist (crlf @ crlf) (butlast (request @ more))"
    and "length (request @ more) \<le> 8192"
  shows "read_request request (more @ rest) = Some (request @ more)"
  using assms
proof (induction more arbitrary: request)
  case Nil
  then show ?case by (subst read_request.simps) (simp add: find_from_None)
next
  case (Cons c cs)
  have "\<not> sublist (crlf @ crlf) request"
  proof
    assume "sublist (crlf @ crlf) request"
    then have "sublist (crlf @ crlf) (butlast (request @ c # cs))"
      by (simp add: butlast_append)
        (metis (no_types, lifting) append_butlast_last_id sublist_appendI sublist_order.order_trans sublist_append_rightI)
    with Cons.prems(2) show False ..
  qed
  moreover have "length request < 8192" using Cons.prems(3) by simp
  ultimately show ?case
    using Cons.IH [of "request @ [c]"] Cons.prems
    by (subst read_request.simps) (simp add: find_from_None)
qed

lemma trim_blanks_eq:
  assumes "list_all is_blank b1" and "list_all is_blank b2" and "key \<noteq> []"
    and "\<not> is_blank (hd key)" and "\<not> is_blank (last key)"
  shows "trim_blanks (b1 @ key @ b2) = key"
proof -
  from assms(3,4) obtain k ks where key: "key = k # ks" "\<not> is_blank k" by (cases key) auto
  from assms(3,5) obtain l ls where rev: "rev key = l # ls" "\<not> is_blank l"
    by (cases "rev key") (auto simp: rev_swap)
  have "\<forall>x\<in>set b1. is_blank x" "\<forall>x\<in>set (rev b2). is_blank x"
    using assms(1,2) by (simp_all add: list_all_iff)
  then have "takeWhile is_blank (b1 @ key @ b2) = b1" "takeWhile is_blank (rev b2 @ rev key @ rev b1) = rev b2"
    unfolding rev(1) using key rev(2) by (subst takeWhile_append2; simp)+
  then have "takeWhile is_blank (b1 @ key @ b2) = b1" "takeWhile is_blank (rev (b1 @ key @ b2)) = rev b2"
    by simp_all
  moreover have "\<not> list_all is_blank (b1 @ key @ b2)" using key by simp
  moreover have "length key > 0" using assms(3) by simp
  ultimately show ?thesis by (simp add: trim_blanks_def Let_def)
qed

lemma read_request_prefix: "read_request request more = Some r \<Longrightarrow> \<exists>k. r = request @ take k more"
proof (induction request more rule: read_request.induct)
  case (1 request more)
  show ?case
  proof (cases "find_from request (crlf @ crlf) 0 = None \<and> length request < 8192")
    case False
    with "1.prems" have "r = request @ take 0 more" by (subst (asm) read_request.simps) (auto split: if_splits)
    then show ?thesis ..
  next
    case True
    with "1.prems" obtain c cs where more: "more = c # cs" and r: "read_request (request @ [c]) cs = Some r"
      by (subst (asm) read_request.simps) (auto split: list.splits)
    from "1.IH" [OF True more r] obtain k where "r = request @ take (Suc k) more" by (auto simp: more)
    then show ?thesis ..
  qed
qed

lemma read_request_short:
  "length (request @ more) < 8192 \<Longrightarrow> \<not> sublist (crlf @ crlf) (request @ more) \<Longrightarrow>
   read_request request more = None"
proof (induction more arbitrary: request)
  case Nil
  then show ?case by (subst read_request.simps) (simp add: find_from_None)
next
  case (Cons c cs)
  have "\<not> sublist (crlf @ crlf) request"
    using Cons.prems(2) sublist_order.order_trans [OF _ sublist_append_rightI [of request "c # cs"]] by blast
  with Cons.IH [of "request @ [c]"] Cons.prems show ?case
    by (subst read_request.simps) (simp add: find_from_None)
qed

lemma websocket_key_found:
  assumes "req = pre @ key_marker @ b1 @ key @ b2 @ crlf @ post"
    and "sublist (crlf @ crlf) req" and "\<not> sublist (crlf @ crlf) (butlast req)" and "length req \<le> 8192"
    and "\<not> sublist key_marker (butlast (pre @ key_marker))"
    and "\<not> sublist crlf (butlast (b1 @ key @ b2 @ crlf))"
    and "list_all is_blank b1" and "list_all is_blank b2" and "key \<noteq> []"
    and "\<not> is_blank (hd key)" and "\<not> is_blank (last key)"
  shows "read_websocket_key (req @ rest) = key"
proof -
  have request: "read_request [] (req @ rest) = Some req"
    using read_request_whole [of "[]" req rest] assms(2-4) by simp
  have marker: "find_from req key_marker 0 = Some (length pre)"
    unfolding assms(1) by (rule find_from_first [OF assms(5)]) (simp add: key_marker_def)
  let ?pos = "length pre + length key_marker" and ?line = "b1 @ key @ b2"
  have "find_from (?line @ crlf @ post) crlf 0 = Some (length ?line)"
    by (rule find_from_first) (use assms(6) in \<open>simp_all add: crlf_def\<close>)
  then have line_end: "find_from req crlf ?pos = Some (?pos + length ?line)"
    using find_from_shift [of "pre @ key_marker" "?line @ crlf @ post" crlf 0] by (simp add: assms(1))
  have "take (length ?line) (drop ?pos req) = ?line" by (simp add: assms(1))
  with request marker line_end trim_blanks_eq [OF assms(7-11)] show ?thesis
    by (simp add: read_websocket_key_def key_of_request_def)
qed

text \<open>An example request, with the facts the lemma asks for.\<close>

definition example_start :: string where
  "example_start = ''GET /ws HTTP/1.1'' @ crlf"

definition example_request :: string where
  "example_request = example_start @ key_marker @ '' '' @ ''abc='' @ [] @ crlf @ crlf"

lemma example_request_facts:
  "sublist (crlf @ crlf) example_request" "\<not> sublist (crlf @ crlf) (butlast example_request)"
  "\<not> sublist key_marker (butlast (example_start @ key_marker))"
  "\<not> sublist crlf (butlast ('' '' @ ''abc='' @ [] @ crlf))" "length example_request \<le> 8192"
  "list_all is_blank '' ''" "list_all is_blank []" "\<not> is_blank (hd ''abc='')" "\<not> is_blank (last ''abc='')"
proof -
  have "example_request = (example_start @ key_marker @ '' '' @ ''abc='') @ (crlf @ crlf) @ []"
    by (simp add: example_request_def)
  then show "sublist (crlf @ crlf) example_request" unfolding sublist_def by blast
  show "\<not> sublist (crlf @ crlf) (butlast example_request)"
    "\<not> sublist key_marker (butlast (example_start @ key_marker))"
    "\<not> sublist crlf (butlast ('' '' @ ''abc='' @ [] @ crlf))" by code_simp+
qed (simp_all add: example_request_def example_start_def crlf_def key_marker_def is_blank_def)

lemma example_request_key: "read_websocket_key (example_request @ rest) = ''abc=''"
  using websocket_key_found [OF example_request_def example_request_facts(1,2,5,3,4,6,7) _ example_request_facts(8,9)]
  by simp

section \<open>Properties\<close>

text \<open>
  C36. The reader finds the key of a request: it consumes exactly the request, up to the first empty
  line and at most 8192 bytes, takes the first key header in it and returns its value without the
  blanks around it, whatever follows on the connection.
\<close>

theorem websocket_key_of_request:
  assumes "req = pre @ key_marker @ b1 @ key @ b2 @ crlf @ post"
    and "sublist (crlf @ crlf) req" and "\<not> sublist (crlf @ crlf) (butlast req)" and "length req \<le> 8192"
    and "\<not> sublist key_marker (butlast (pre @ key_marker))"
    and "\<not> sublist crlf (butlast (b1 @ key @ b2 @ crlf))"
    and "list_all is_blank b1" and "list_all is_blank b2" and "key \<noteq> []"
    and "\<not> is_blank (hd key)" and "\<not> is_blank (last key)"
  shows "read_websocket_key (req @ rest) = key"
  by (rule websocket_key_found [OF assms])

theorem websocket_key_of_request_witness: "read_websocket_key (example_request @ ''xyz'') = ''abc=''"
  using websocket_key_of_request [OF example_request_def example_request_facts(1,2,5,3,4,6,7) _ example_request_facts(8,9)]
  by simp

text \<open>
  A connection whose bytes hold no key header, or that ends before an empty line, is refused: the
  reader returns the empty string and no reply is sent.
\<close>

theorem handshake_refuses:
  assumes "sublist key_marker incoming \<Longrightarrow> length incoming < 8192 \<and> \<not> sublist (crlf @ crlf) incoming"
  shows "handshake incoming = None"
proof (cases "read_request [] incoming")
  case None
  then show ?thesis by (simp add: handshake_def read_websocket_key_def key_of_request_def)
next
  case (Some r)
  then obtain k where r: "r = take k incoming" using read_request_prefix by fastforce
  have "\<not> sublist key_marker incoming"
    using assms Some read_request_short [of "[]" incoming] by auto
  then have "\<not> sublist key_marker r"
    unfolding r using sublist_order.order_trans [OF _ sublist_take] by blast
  then have "find_from r key_marker 0 = None" by (simp add: find_from_None)
  with Some show ?thesis by (simp add: handshake_def read_websocket_key_def key_of_request_def)
qed

theorem handshake_refuses_witness: "handshake (''GET / HTTP/1.1'' @ crlf @ crlf) = None"
proof (rule handshake_refuses)
  have "\<not> sublist key_marker (''GET / HTTP/1.1'' @ crlf @ crlf)" by code_simp
  then show "sublist key_marker (''GET / HTTP/1.1'' @ crlf @ crlf) \<Longrightarrow>
      length (''GET / HTTP/1.1'' @ crlf @ crlf) < 8192 \<and>
      \<not> sublist (crlf @ crlf) (''GET / HTTP/1.1'' @ crlf @ crlf)" by simp
qed

text \<open>
  Base64 loses nothing: decoding what the encoder wrote gives the bytes back, for every length.
\<close>

theorem base64_roundtrip: "base64_decode (base64_encode data) = data"
  by (simp add: base64_encode_def base64_decode_from)

text \<open>
  The handshake on the example of RFC 6455: the whole chain of SHA-1 over key and GUID, and base64,
  computed by the kernel from the definitions.
\<close>

theorem accept_key_example: "accept_key ''dGhlIHNhbXBsZSBub25jZQ=='' = ''s3pPLMBiTxaQ9kYGzzhZRbK+xOo=''"
  by code_simp

end
