(* ===== verification/Ws_Frames.thy ===== *)
theory Ws_Frames
  imports Byte_Codec
begin

text \<open>
  The socket and frame functions of \<open>telemetry_server.cpp\<close>: sending everything, text and control frames,
  and the poll for one client frame. A reference for frames as RFC 6455 defines them follows, with the
  lemmas that relate the two.
\<close>

unbundle bit_operations_syntax

section \<open>Sockets\<close>

text \<open>
  A connected socket, as far as the code can see it: the chunks the coming \<open>recv\<close> calls will find (an
  empty chunk is an end of file or an error), the number of bytes each coming \<open>send\<close> will take (0 is an
  error), and the bytes sent so far. The functions of this theory run on a socket that nothing more
  happens to, so for them no more chunks, or no more numbers, is an error as well; the threads of
  \<open>Telemetry_Server\<close> wait there until the peer acts.
\<close>

record tcp_socket =
  sk_incoming :: "u8 list list"
  sk_accepts :: "nat list"
  sk_sent :: "u8 list"

text \<open>The bytes \<open>recv\<close> stores, none for a result that is not positive.\<close>

definition recv :: "tcp_socket \<Rightarrow> nat \<Rightarrow> u8 list \<times> tcp_socket" where
  "recv s n =
     (case sk_incoming s of
        [] \<Rightarrow> ([], s)
      | c # cs \<Rightarrow> (take n c, s\<lparr>sk_incoming := (if length c \<le> n \<and> c \<noteq> [] then cs else drop n c # cs)\<rparr>))"

definition send :: "tcp_socket \<Rightarrow> u8 list \<Rightarrow> nat \<times> tcp_socket" where
  "send s data =
     (case sk_accepts s of
        [] \<Rightarrow> (0, s)
      | k # ks \<Rightarrow> (min k (length data), s\<lparr>sk_accepts := ks, sk_sent := sk_sent s @ take k data\<rparr>))"

function send_all :: "tcp_socket \<Rightarrow> u8 list \<Rightarrow> bool \<times> tcp_socket" where
  "send_all s data =
     (if data = [] then (True, s)
      else (case send s data of (n, s') \<Rightarrow> if n = 0 then (False, s') else send_all s' (drop n data)))"
  by pat_completeness auto
termination
  by (relation "measure (\<lambda>(s, data). length data)") auto

declare send_all.simps [simp del]

section \<open>Frames the server sends\<close>

definition text_frame :: "u8 list \<Rightarrow> u8 list" where
  "text_frame payload =
     (let len = of_nat (length payload) :: size_t in
      [0x81] @
      (if len < 126 then [ucast len]
       else if len \<le> 0xFFFF then [126, ucast (drop_bit 8 len AND 0xFF), ucast (len AND 0xFF)]
       else [127] @ be_bytes 8 len) @
      payload)"

definition send_text_frame :: "tcp_socket \<Rightarrow> u8 list \<Rightarrow> bool \<times> tcp_socket" where
  "send_text_frame s payload = send_all s (text_frame payload)"

definition control_frame :: "u8 \<Rightarrow> u8 list \<Rightarrow> u8 list" where
  "control_frame opcode payload =
     [0x80 OR opcode, ucast ((of_nat (length payload) :: size_t) AND 0x7F)] @ payload"

definition send_control_frame :: "tcp_socket \<Rightarrow> u8 \<Rightarrow> u8 list \<Rightarrow> tcp_socket" where
  "send_control_frame s opcode payload = snd (send_all s (control_frame opcode payload))"

section \<open>Polling for a client frame\<close>

datatype poll_result = kNoData | kClosed | kHandled

text \<open>
  What is not a return: reading a byte of a local array that a short \<open>recv\<close> did not fill, and the
  exception of a vector that cannot be allocated.
\<close>

datatype ws_failure = Uninitialised_read | Allocation_failed

text \<open>\<open>recv\<close> into a local array of \<open>n\<close> bytes that is then read as a whole; \<open>None\<close> is the early return.\<close>

definition recv_array :: "tcp_socket \<Rightarrow> nat \<Rightarrow> ws_failure + u8 list option \<times> tcp_socket" where
  "recv_array s n =
     (case recv s n of (bs, s') \<Rightarrow>
        if bs = [] then Inr (None, s')
        else if length bs < n then Inl Uninitialised_read
        else Inr (Some bs, s'))"

definition recv_length :: "u64 \<Rightarrow> tcp_socket \<Rightarrow> ws_failure + u64 option \<times> tcp_socket" where
  "recv_length len7 s =
     (if len7 = 126 then
        res_bind (recv_array s 2) (\<lambda>(ext, s'). Inr (map_option (\<lambda>e. push_bit 8 (ucast (e ! 0)) OR ucast (e ! 1)) ext, s'))
      else if len7 = 127 then
        res_bind (recv_array s 8) (\<lambda>(ext, s'). Inr (map_option (foldl (\<lambda>x b. push_bit 8 x OR ucast b) 0) ext, s'))
      else Inr (Some len7, s))"

text \<open>The mask key array is zeroed first, so a short read leaves zeros.\<close>

definition recv_mask :: "bool \<Rightarrow> tcp_socket \<Rightarrow> u8 list option \<times> tcp_socket" where
  "recv_mask masked s =
     (if masked then
        (case recv s 4 of (bs, s') \<Rightarrow>
           (if bs = [] then None else Some (bs @ replicate (4 - length bs) 0), s'))
      else (Some [0, 0, 0, 0], s))"

function recv_payload :: "tcp_socket \<Rightarrow> nat \<Rightarrow> u8 list \<Rightarrow> u8 list option \<times> tcp_socket" where
  "recv_payload s wanted received =
     (if length received < wanted then
        (case recv s (wanted - length received) of (bs, s') \<Rightarrow>
           if bs = [] then (None, s') else recv_payload s' wanted (received @ bs))
      else (Some received, s))"
  by pat_completeness auto
termination
  by (relation "measure (\<lambda>(s, wanted, received). wanted - length received)")
    (auto simp: length_greater_0_conv [symmetric] simp del: length_greater_0_conv)

declare recv_payload.simps [simp del]

definition unmask :: "u8 list \<Rightarrow> u8 list \<Rightarrow> u8 list" where
  "unmask mask_key payload = map (\<lambda>i. payload ! i XOR mask_key ! (i mod 4)) [0..<length payload]"

definition answer_frame :: "u8 \<Rightarrow> u8 list \<Rightarrow> tcp_socket \<Rightarrow> poll_result \<times> tcp_socket" where
  "answer_frame opcode payload s =
     (if opcode = 0x8 then (kClosed, send_control_frame s 0x8 [])
      else if opcode = 0x9 then (kHandled, send_control_frame s 0xA payload)
      else (kHandled, s))"

text \<open>
  \<open>poll_client_frame\<close>: \<open>ready\<close> is what \<open>select\<close> reports, \<open>max_alloc\<close> the largest vector that can be
  allocated.
\<close>

definition poll_client_frame ::
  "bool \<Rightarrow> nat \<Rightarrow> tcp_socket \<Rightarrow> ws_failure + poll_result \<times> tcp_socket" where
  "poll_client_frame ready max_alloc s =
     (if \<not> ready then Inr (kNoData, s)
      else
        res_bind (recv_array s 2) (\<lambda>(header, s1).
          case header of
            None \<Rightarrow> Inr (kClosed, s1)
          | Some h \<Rightarrow>
              let opcode = h ! 0 AND 0x0F; masked = (h ! 1 AND 0x80 \<noteq> 0) in
              res_bind (recv_length (ucast (h ! 1 AND 0x7F)) s1) (\<lambda>(len, s2).
                case len of
                  None \<Rightarrow> Inr (kClosed, s2)
                | Some payload_len \<Rightarrow>
                    (case recv_mask masked s2 of
                       (None, s3) \<Rightarrow> Inr (kClosed, s3)
                     | (Some mask_key, s3) \<Rightarrow>
                         if unat payload_len > max_alloc then Inl Allocation_failed
                         else
                           (case recv_payload s3 (unat payload_len) [] of
                              (None, s4) \<Rightarrow> Inr (kClosed, s4)
                            | (Some payload, s4) \<Rightarrow>
                                Inr (answer_frame opcode
                                  (if masked then unmask mask_key payload else payload) s4))))))"

section \<open>Frames of RFC 6455\<close>

record ws_frame =
  fr_fin :: bool
  fr_opcode :: u8
  fr_mask :: "u8 list option"
  fr_payload :: "u8 list"

text \<open>Masking: the bytes of the key in turn, over and over.\<close>

fun apply_mask :: "u8 list \<Rightarrow> u8 list \<Rightarrow> u8 list" where
  "apply_mask (k # ks) (b # bs) = (b XOR k) # apply_mask (ks @ [k]) bs"
| "apply_mask key bs = bs"

text \<open>The reference reader: one frame off the front of a byte stream.\<close>

definition decode_frame :: "u8 list \<Rightarrow> (ws_frame \<times> u8 list) option" where
  "decode_frame bs =
     (case bs of
        b0 # b1 # r \<Rightarrow>
          let opcode = b0 AND 0x0F; masked = (b1 AND 0x80 \<noteq> 0); len7 = unat (b1 AND 0x7F);
              n = (if len7 = 126 then 2 else if len7 = 127 then 8 else 0);
              m = (if masked then 4 else 0);
              len = (if n = 0 then len7 else be_nat (take n r));
              key = take m (drop n r); data = take len (drop (n + m) r) in
            if length r < n + m + len \<or> opcode \<ge> 8 \<and> len7 > 125 then None
            else Some (\<lparr>fr_fin = (b0 AND 0x80 \<noteq> 0), fr_opcode = opcode,
                        fr_mask = (if masked then Some key else None),
                        fr_payload = (if masked then apply_mask key data else data)\<rparr>,
                       drop (n + m + len) r)
      | _ \<Rightarrow> None)"

text \<open>A masked frame as a client writes it, with the shortest length field.\<close>

definition length_field :: "nat \<Rightarrow> nat \<times> u8 list" where
  "length_field len =
     (if len < 126 then (len, []) else if len < 2 ^ 16 then (126, to_be 2 len) else (127, to_be 8 len))"

definition client_header :: "bool \<Rightarrow> u8 \<Rightarrow> u8 list \<Rightarrow> nat \<Rightarrow> u8 list" where
  "client_header fin opcode key len =
     (case length_field len of (len7, ext) \<Rightarrow>
        [(if fin then 0x80 else 0) OR opcode, 0x80 OR of_nat len7] @ ext @ key)"

lemma length_apply_mask [simp]: "length (apply_mask key bs) = length bs"
  by (induction key bs rule: apply_mask.induct) simp_all

lemma nth_apply_mask:
  "key \<noteq> [] \<Longrightarrow> i < length bs \<Longrightarrow> apply_mask key bs ! i = bs ! i XOR key ! (i mod length key)"
proof (induction key bs arbitrary: i rule: apply_mask.induct)
  case (1 k ks b bs)
  show ?case
  proof (cases i)
    case (Suc j)
    have "(ks @ [k]) ! (j mod Suc (length ks)) = (k # ks) ! (Suc j mod Suc (length ks))"
      using nth_rotate1 [of "j mod Suc (length ks)" "k # ks"] by (simp add: mod_Suc_eq)
    with 1 Suc show ?thesis by simp
  qed simp
qed simp_all

lemma apply_mask_twice [simp]: "key \<noteq> [] \<Longrightarrow> apply_mask key (apply_mask key bs) = bs"
  by (rule nth_equalityI) (simp_all add: nth_apply_mask xor.assoc)

text \<open>The loop of the code is this mask.\<close>

lemma unmask_apply_mask:
  assumes "length key = 4"
  shows "unmask key payload = apply_mask key payload" and "unmask key (apply_mask key payload) = payload"
proof -
  have key: "key \<noteq> []" using assms by auto
  show mask: "unmask key payload = apply_mask key payload" for payload
    by (rule nth_equalityI) (simp_all add: unmask_def nth_apply_mask [OF key] assms)
  show "unmask key (apply_mask key payload) = payload" by (simp add: mask apply_mask_twice [OF key])
qed

text \<open>Bits of the two header bytes.\<close>

lemma low_bits_and:
  assumes "unat x < 2 ^ k"
  shows "(x :: u8) AND mask k = x"
proof -
  have "take_bit k x = x"
    unfolding word_unat_eq_iff unsigned_take_bit_eq using assms by (simp add: take_bit_nat_eq_self)
  then show ?thesis by (simp add: take_bit_eq_mask)
qed

lemma header_masks: "(0x7F :: u8) = mask 7" "(0x0F :: u8) = mask 4"
  by (simp_all add: mask_eq_exp_minus_1)

lemma header_bits:
  assumes "n \<le> (127 :: nat)"
  shows "unat (of_nat n AND 0x7F :: u8) = n" and "(of_nat n AND 0x80 :: u8) = 0"
    and "(0x80 OR of_nat n) AND 0x7F = (of_nat n :: u8)" and "(0x80 OR of_nat n) AND 0x80 \<noteq> (0 :: u8)"
proof -
  have n: "unat (of_nat n :: u8) = n" using assms by (simp add: unat_of_nat_u8)
  then have low: "of_nat n AND 0x7F = (of_nat n :: u8)"
    unfolding header_masks using assms by (intro low_bits_and) simp
  then show "unat (of_nat n AND 0x7F :: u8) = n" by (simp only: n)
  from low have "of_nat n AND (0x7F AND 0x80) = (of_nat n AND 0x80 :: u8)" by (simp only: and.assoc [symmetric])
  then show high: "(of_nat n AND 0x80 :: u8) = 0" by simp
  show "(0x80 OR of_nat n) AND 0x7F = (of_nat n :: u8)"
    unfolding bit.conj_disj_distrib2 low by simp
  show "(0x80 OR of_nat n) AND 0x80 \<noteq> (0 :: u8)"
    unfolding bit.conj_disj_distrib2 high by simp
qed

lemma opcode_bits:
  assumes "opcode < (16 :: u8)"
  shows "((if fin then 0x80 else 0) OR opcode) AND 0x0F = opcode"
    and "((if fin then 0x80 else 0) OR opcode) AND 0x80 \<noteq> 0 \<longleftrightarrow> fin"
proof -
  have low: "opcode AND 0x0F = opcode"
    unfolding header_masks using assms by (intro low_bits_and) (simp add: word_less_nat_alt)
  from low have "opcode AND (0x0F AND 0x80) = opcode AND 0x80" by (simp only: and.assoc [symmetric])
  then have high: "opcode AND 0x80 = 0" by simp
  show "((if fin then 0x80 else 0) OR opcode) AND 0x0F = opcode"
    unfolding bit.conj_disj_distrib2 low by simp
  show "((if fin then 0x80 else 0) OR opcode) AND 0x80 \<noteq> 0 \<longleftrightarrow> fin"
    unfolding bit.conj_disj_distrib2 high by simp
qed

section \<open>The server's frames decode\<close>

lemma ucast_len: "(ucast (of_nat n :: size_t) :: u8) = of_nat n"
  by (simp add: word_unat_eq_iff unsigned_ucast_eq unat_of_nat take_bit_eq_mod unat_of_nat_u8 mod_mod_cancel)

lemma text_frame_eq:
  assumes "length payload < 2 ^ 63"
  shows "text_frame payload =
    (case length_field (length payload) of (len7, ext) \<Rightarrow> [0x81, of_nat len7] @ ext @ payload)"
proof -
  let ?n = "length payload" and ?len = "of_nat (length payload) :: size_t"
  have n: "unat ?len = ?n" using assms by (simp add: unat_of_nat)
  have two: "to_be 2 ?n = [ucast (drop_bit 8 ?len AND 0xFF), ucast (?len AND 0xFF)]"
    using be_bytes_to_be [of 2 ?len] by (simp add: be_bytes_def n numeral_2_eq_2)
  have eight: "be_bytes 8 ?len = to_be 8 ?n" by (simp add: be_bytes_to_be n)
  have short: "?len < 126 \<longleftrightarrow> ?n < 126" by (simp add: word_less_nat_alt n)
  have medium: "?len \<le> 0xFFFF \<longleftrightarrow> ?n < 2 ^ 16" by (simp add: word_le_nat_alt n) linarith
  show ?thesis
    by (simp only: text_frame_def length_field_def Let_def two eight short medium ucast_len
        split: if_split) simp
qed

lemma length_field:
  assumes "len < 2 ^ 64" and "length_field len = (len7, ext)"
  shows "len7 \<le> 127 \<and> length ext = (if len7 = 126 then 2 else if len7 = 127 then 8 else 0) \<and>
    (if len7 = 126 \<or> len7 = 127 then be_nat ext else len7) = len \<and> (len \<le> 125 \<longrightarrow> len7 \<le> 125)"
  using assms by (auto simp: length_field_def be_nat_to_be split: if_splits)

text \<open>
  C28. A client that reads frames as RFC 6455 defines them gets from the bytes of \<open>send_text_frame\<close> one
  final, unmasked text frame with exactly the payload, and the bytes that follow are left for the next
  frame: all three length encodings are right.
\<close>

theorem decode_text_frame:
  assumes "length payload < 2 ^ 63"
  shows "decode_frame (text_frame payload @ rest) =
    Some (\<lparr>fr_fin = True, fr_opcode = 1, fr_mask = None, fr_payload = payload\<rparr>, rest)"
proof -
  obtain len7 ext where field: "length_field (length payload) = (len7, ext)" by (cases "length_field (length payload)")
  from length_field [OF _ field] assms have f: "len7 \<le> 127"
    "length ext = (if len7 = 126 then 2 else if len7 = 127 then 8 else 0)"
    "(if len7 = 126 \<or> len7 = 127 then be_nat ext else len7) = length payload" by simp_all
  have "(0x81 AND 0x0F :: u8) = 1" "(0x81 AND 0x80 :: u8) \<noteq> 0" "\<not> (8 :: u8) \<le> 1"
    by (simp_all add: word_le_nat_alt)
  with f header_bits(1,2) [OF f(1)] show ?thesis
    by (simp add: text_frame_eq [OF assms] field decode_frame_def Let_def split: if_splits)
qed

theorem decode_text_frame_witness:
  "decode_frame (text_frame (replicate 200 0x7B) @ [0x81]) =
    Some (\<lparr>fr_fin = True, fr_opcode = 1, fr_mask = None, fr_payload = replicate 200 0x7B\<rparr>, [0x81])"
  by (rule decode_text_frame) simp

text \<open>
  Replies to a ping: the pong frame of \<open>send_control_frame\<close> is a frame of RFC 6455 with the ping's
  payload exactly when the payload has at most 125 bytes. A longer ping is echoed all the same, with the
  low seven bits of its length as the length: what the client reads is then never the pong it waits for.
\<close>

theorem decode_pong_frame:
  assumes "length payload < 2 ^ 63"
  shows "decode_frame (control_frame 0xA payload) =
      Some (\<lparr>fr_fin = True, fr_opcode = 0xA, fr_mask = None, fr_payload = payload\<rparr>, []) \<longleftrightarrow>
    length payload \<le> 125"
proof -
  let ?n = "length payload mod 128"
  let ?len = "of_nat (length payload) :: size_t"
  have "unat ?len = length payload" using assms by (simp add: unat_of_nat)
  moreover have "?len AND 0x7F = take_bit 7 ?len"
    unfolding take_bit_eq_mask by (simp add: mask_eq_exp_minus_1)
  ultimately have "unat (ucast (?len AND 0x7F) :: u8) = ?n"
    by (simp only: unsigned_ucast_eq unsigned_take_bit_eq) (simp add: take_bit_eq_mod mod_mod_cancel)
  then have len: "ucast (?len AND 0x7F) = (of_nat ?n :: u8)"
    unfolding word_unat_eq_iff by (simp add: unat_of_nat_u8)
  have "?n \<le> 127" using mod_less_divisor [of 128 "length payload"] by linarith
  note bits = header_bits(1,2) [OF this]
  have hdr: "(0x80 OR 0xA :: u8) = 0x8A"
    "(0x8A AND 0x0F :: u8) = 0xA" "(0x8A AND 0x80 :: u8) \<noteq> 0" "(8 :: u8) \<le> 0xA"
    by (simp_all add: word_le_nat_alt)
  show ?thesis
  proof (cases "length payload \<le> 125")
    case True
    with bits hdr show ?thesis by (simp add: control_frame_def len decode_frame_def Let_def)
  next
    case False
    with bits hdr show ?thesis
      by (auto simp: control_frame_def len decode_frame_def Let_def split: if_splits)
  qed
qed

theorem decode_pong_frame_witness:
  "decode_frame (control_frame 0xA (replicate 126 1)) \<noteq>
    Some (\<lparr>fr_fin = True, fr_opcode = 0xA, fr_mask = None, fr_payload = replicate 126 1\<rparr>, [])"
  using decode_pong_frame [of "replicate 126 1"] by simp

section \<open>Reading and sending\<close>

text \<open>What has arrived is a stream cut into chunks; \<open>pending\<close> is the stream.\<close>

definition pending :: "tcp_socket \<Rightarrow> u8 list" where
  "pending s = concat (sk_incoming s)"

lemma recv_prefix:
  assumes "sk_incoming s = (xs @ ys) # cs" and "xs \<noteq> []" and "n = length xs"
  shows "recv s n = (xs, s\<lparr>sk_incoming := (if ys = [] then cs else ys # cs)\<rparr>)"
  using assms by (simp add: recv_def)

lemma recv_array_prefix:
  assumes "sk_incoming s = (xs @ ys) # cs" and "xs \<noteq> []" and "n = length xs"
  shows "recv_array s n = Inr (Some xs, s\<lparr>sk_incoming := (if ys = [] then cs else ys # cs)\<rparr>)"
  using recv_prefix [OF assms] assms(2,3) by (simp add: recv_array_def)

lemma recv_stream:
  assumes "pending s = data @ rest" and "[] \<notin> set (sk_incoming s)" and "data \<noteq> []"
  shows "\<exists>bs data' cs. recv s (length data) = (bs, s\<lparr>sk_incoming := cs\<rparr>) \<and> bs \<noteq> [] \<and> data = bs @ data' \<and>
    concat cs = data' @ rest \<and> [] \<notin> set cs"
proof -
  from assms obtain c cs where inc: "sk_incoming s = c # cs" and c: "c \<noteq> []" and cs: "[] \<notin> set cs"
    by (cases "sk_incoming s") (auto simp: pending_def)
  with assms have eq: "c @ concat cs = data @ rest" by (simp add: pending_def)
  show ?thesis
  proof (cases "length c \<le> length data")
    case True
    with eq obtain data' where "data = c @ data'" "concat cs = data' @ rest"
      by (auto simp: append_eq_append_conv2)
    with True c cs inc show ?thesis by (auto simp: recv_def)
  next
    case False
    with eq obtain us where "c = data @ us" "rest = us @ concat cs"
      by (auto simp: append_eq_append_conv2)
    with False assms(3) cs inc show ?thesis by (auto simp: recv_def)
  qed
qed

lemma recv_payload_stream:
  assumes "pending s = data @ rest" and "[] \<notin> set (sk_incoming s)"
    and "wanted = length received + length data"
  shows "\<exists>cs. recv_payload s wanted received = (Some (received @ data), s\<lparr>sk_incoming := cs\<rparr>) \<and>
    concat cs = rest \<and> [] \<notin> set cs"
  using assms
proof (induction s wanted received arbitrary: data rule: recv_payload.induct)
  case (1 s wanted received)
  show ?case
  proof (cases "data = []")
    case True
    with 1(2-) show ?thesis
      by (subst recv_payload.simps) (auto simp: pending_def intro!: exI [of _ "sk_incoming s"])
  next
    case False
    from recv_stream [OF 1(2,3) False] obtain bs data' cs where
      recv: "recv s (length data) = (bs, s\<lparr>sk_incoming := cs\<rparr>)" and bs: "bs \<noteq> []" "data = bs @ data'"
      and cs: "concat cs = data' @ rest" "[] \<notin> set cs" by blast
    have less: "length received < wanted" and diff: "wanted - length received = length data"
      using 1(4) False by simp_all
    have "\<exists>cs'. recv_payload (s\<lparr>sk_incoming := cs\<rparr>) wanted (received @ bs) =
        (Some ((received @ bs) @ data'), s\<lparr>sk_incoming := cs, sk_incoming := cs'\<rparr>) \<and> concat cs' = rest \<and> [] \<notin> set cs'"
      using 1(1) [OF less recv [folded diff, symmetric] bs(1), of data'] cs 1(4) bs(2)
      by (simp add: pending_def)
    moreover have "recv_payload s wanted received = recv_payload (s\<lparr>sk_incoming := cs\<rparr>) wanted (received @ bs)"
      using less bs(1) unfolding recv_payload.simps [of s] diff recv by simp
    ultimately show ?thesis using bs(2) by simp
  qed
qed

text \<open>
  \<open>send_all\<close> returns for every socket, and what it does is a function of how much the coming
  \<open>send\<close> calls take before the first that fails: it sends that many bytes from the front, and reports
  success exactly when that is everything.
\<close>

theorem send_all_sends_prefix:
  "\<exists>accepts. send_all s data =
    (let m = sum_list (takeWhile (\<lambda>k. k \<noteq> 0) (sk_accepts s)) in
       (length data \<le> m, s\<lparr>sk_accepts := accepts, sk_sent := sk_sent s @ take m data\<rparr>))"
proof (induction s data rule: send_all.induct)
  case (1 s data)
  show ?case
  proof (cases "data = []")
    case True
    then show ?thesis by (subst send_all.simps) (auto intro!: exI [of _ "sk_accepts s"])
  next
    case data: False
    show ?thesis
    proof (cases "sk_accepts s")
      case Nil
      with data show ?thesis by (subst send_all.simps) (auto simp: send_def intro!: exI [of _ "sk_accepts s"])
    next
      case (Cons k ks)
      show ?thesis
      proof (cases "k = 0")
        case True
        with Cons data show ?thesis by (subst send_all.simps) (auto simp: send_def)
      next
        case False
        let ?s = "s\<lparr>sk_accepts := ks, sk_sent := sk_sent s @ take k data\<rparr>"
        let ?t = "s\<lparr>sk_accepts := ks, sk_sent := sk_sent s @ take k data\<rparr>"
        let ?m = "sum_list (takeWhile (\<lambda>k. k \<noteq> 0) ks)"
        have pos: "min k (length data) \<noteq> 0" using False data by simp
        have send: "send s data = (min k (length data), ?t)" using Cons by (simp add: send_def)
        have drop: "drop (min k (length data)) data = drop k data" by (simp add: min_def)
        from 1 [OF data send [symmetric] pos] obtain accepts where
          "send_all ?t (drop k data) = (length (drop k data) \<le> ?m,
            ?t\<lparr>sk_accepts := accepts, sk_sent := sk_sent ?t @ take ?m (drop k data)\<rparr>)"
          unfolding drop Let_def by auto
        with data pos have "send_all s data = (length data - k \<le> ?m,
            s\<lparr>sk_accepts := accepts, sk_sent := sk_sent s @ take (k + ?m) data\<rparr>)"
          by (subst send_all.simps) (simp add: send drop take_add)
        then show ?thesis using False Cons by (auto simp: Let_def le_diff_conv add.commute)
      qed
    qed
  qed
qed

section \<open>Answers to client frames\<close>

text \<open>
  The length fields of a client's frame that the code reads with one \<open>recv\<close> each, and the chunks that are left
  after them, if none of them is cut by the end of a chunk.
\<close>

definition header_fields :: "nat \<Rightarrow> nat list" where
  "header_fields len = (case length_field len of (len7, ext) \<Rightarrow> [2] @ (if ext = [] then [] else [length ext]) @ [4])"

fun after_fields :: "nat list \<Rightarrow> u8 list list \<Rightarrow> u8 list list option" where
  "after_fields [] cs = Some cs"
| "after_fields (n # ns) [] = None"
| "after_fields (n # ns) (c # cs) =
     (if length c < n then None else after_fields ns (if length c = n then cs else drop n c # cs))"

text \<open>The first of these fields, taken off the chunks.\<close>

lemma after_field:
  assumes "after_fields (n # ns) (sk_incoming s) = Some left" and "concat (sk_incoming s) = xs @ ys"
    and "length xs = n" and "xs \<noteq> []"
  shows "\<exists>cs. recv s n = (xs, s\<lparr>sk_incoming := cs\<rparr>) \<and> after_fields ns cs = Some left \<and> concat cs = ys"
proof -
  from assms(1) obtain c cs where inc: "sk_incoming s = c # cs" by (cases "sk_incoming s") simp_all
  with assms(1) have len: "n \<le> length c" and left: "after_fields ns (if length c = n then cs else drop n c # cs) = Some left"
    by (simp_all split: if_splits)
  have c: "c = xs @ drop n c" "drop n c @ concat cs = ys"
    using assms(2,3) inc len by (auto simp: append_eq_append_conv2)
  have "recv s n = (xs, s\<lparr>sk_incoming := (if drop n c = [] then cs else drop n c # cs)\<rparr>)"
    by (rule recv_prefix) (use inc c(1) assms(3,4) in simp_all)
  moreover have "drop n c = [] \<longleftrightarrow> length c = n" using len by auto
  ultimately show ?thesis using left c(2) by (intro exI [of _ "if length c = n then cs else drop n c # cs"]) auto
qed

lemma after_fields_nonempty: "after_fields ns cs = Some left \<Longrightarrow> [] \<notin> set cs \<Longrightarrow> [] \<notin> set left"
proof (induction ns cs rule: after_fields.induct)
  case (3 n ns c cs)
  then have "[] \<notin> set (if length c = n then cs else drop n c # cs)" by (auto split: if_splits)
  with 3 show ?case by (simp split: if_splits)
qed simp_all

lemma recv_array_field:
  "recv s n = (xs, s') \<Longrightarrow> length xs = n \<Longrightarrow> xs \<noteq> [] \<Longrightarrow> recv_array s n = Inr (Some xs, s')"
  by (simp add: recv_array_def)

lemma recv_length_field:
  assumes "length_field len = (len7, ext)" and "len < 2 ^ 64"
    and "after_fields ((if ext = [] then [] else [length ext]) @ ns) (sk_incoming s) = Some left"
    and "concat (sk_incoming s) = ext @ ys"
  shows "\<exists>cs. recv_length (ucast (of_nat len7 :: u8)) s = Inr (Some (of_nat len), s\<lparr>sk_incoming := cs\<rparr>) \<and>
    after_fields ns cs = Some left \<and> concat cs = ys"
proof -
  from length_field [OF assms(2,1)] have f: "len7 \<le> 127"
    "length ext = (if len7 = 126 then 2 else if len7 = 127 then 8 else 0)"
    "(if len7 = 126 \<or> len7 = 127 then be_nat ext else len7) = len" by simp_all
  have byte: "ucast (of_nat len7 :: u8) = (of_nat len7 :: u64)"
    using f(1) by (simp add: word_unat_eq_iff unsigned_ucast_eq unat_of_nat take_bit_eq_mod)
  have eqs: "(of_nat len7 :: u64) = 126 \<longleftrightarrow> len7 = 126" "(of_nat len7 :: u64) = 127 \<longleftrightarrow> len7 = 127"
    using f(1) by (simp_all add: word_unat_eq_iff unat_of_nat)
  show ?thesis
  proof (cases "ext = []")
    case True
    with f assms(3,4) show ?thesis
      unfolding recv_length_def byte eqs by (auto split: if_splits intro: exI [of _ "sk_incoming s"])
  next
    case False
    with after_field [OF _ assms(4) refl False] assms(3) obtain cs where
      cs: "recv s (length ext) = (ext, s\<lparr>sk_incoming := cs\<rparr>)" "after_fields ns cs = Some left" "concat cs = ys"
      by auto
    note array = recv_array_field [OF cs(1) refl False]
    consider (two) "len7 = 126" | (eight) "len7 = 127" using f(2) False by (auto split: if_splits)
    then show ?thesis
    proof cases
      case two
      with f(2) obtain e0 e1 where ext: "ext = [e0, e1]" by (auto simp: length_Suc_conv numeral_2_eq_2)
      have "push_bit 8 (ucast e0) OR ucast e1 = (of_nat (be_nat ext) :: u64)"
        using shift_in_bytes [of ext, where ?'a = 64] by (simp add: ext)
      with two f(2,3) cs array show ?thesis unfolding recv_length_def byte eqs by (auto simp: ext numeral_2_eq_2)
    next
      case eight
      with f(2,3) cs array show ?thesis unfolding recv_length_def byte eqs by (auto simp: shift_in_bytes)
    qed
  qed
qed

lemma poll_after_header:
  assumes "concat (sk_incoming s) = client_header fin opcode key len @ ys"
    and "after_fields (header_fields len) (sk_incoming s) = Some cs"
    and "length key = 4" and "opcode < 16" and "len < 2 ^ 63"
  shows "concat cs = ys \<and> poll_client_frame True max_alloc s =
    (if max_alloc < len then Inl Allocation_failed
     else case recv_payload (s\<lparr>sk_incoming := cs\<rparr>) len [] of
       (None, s') \<Rightarrow> Inr (kClosed, s')
     | (Some payload, s') \<Rightarrow> Inr (answer_frame opcode (unmask key payload) s'))"
proof -
  obtain len7 ext where field: "length_field len = (len7, ext)" by (cases "length_field len")
  from length_field [OF _ field] assms(5) have f: "len7 \<le> 127" by simp
  let ?b0 = "(if fin then 0x80 else 0) OR opcode :: u8" and ?b1 = "0x80 OR of_nat len7 :: u8"
  let ?set = "\<lambda>xs. s\<lparr>sk_incoming := xs\<rparr>"
  let ?ext = "if ext = [] then [] else [length ext]"
  have fields: "header_fields len = 2 # ?ext @ [4]" by (simp add: header_fields_def field)
  have inc: "concat (sk_incoming s) = [?b0, ?b1] @ ext @ key @ ys" using assms(1) by (simp add: client_header_def field)
  from after_field [OF assms(2) [unfolded fields] inc] obtain c1 where
    c1: "recv s 2 = ([?b0, ?b1], ?set c1)" "after_fields (?ext @ [4]) c1 = Some cs" "concat c1 = ext @ key @ ys"
    by auto
  have header: "recv_array s 2 = Inr (Some [?b0, ?b1], ?set c1)" by (rule recv_array_field [OF c1(1)]) simp_all
  from recv_length_field [OF field, of "[4]" "?set c1" cs "key @ ys"] assms(5) c1(2,3) obtain c2 where
    c2: "recv_length (ucast (?b1 AND 0x7F)) (?set c1) = Inr (Some (of_nat len), ?set c2)"
      "after_fields [4] c2 = Some cs" "concat c2 = key @ ys"
    by (auto simp: header_bits(3) [OF f])
  have "key \<noteq> []" using assms(3) by auto
  with after_field [of 4 "[]" "?set c2" cs key ys] c2(2,3) assms(3) obtain c3 where
    c3: "recv (?set c2) 4 = (key, ?set c3)" "c3 = cs" "concat c3 = ys" by auto
  have mask: "recv_mask True (?set c2) = (Some key, ?set cs)"
    using c3 \<open>key \<noteq> []\<close> assms(3) by (simp add: recv_mask_def)
  have n: "unat (of_nat len :: u64) = len" using assms(5) by (simp add: unat_of_nat)
  show ?thesis
    using c3 opcode_bits(1) [OF assms(4)] header_bits(4) [OF f]
    by (simp add: poll_client_frame_def header c2(1) mask n split: prod.splits option.splits)
qed

lemma poll_takes_frame:
  assumes "concat (sk_incoming s) = client_header fin opcode key (length payload) @ apply_mask key payload @ rest"
    and "after_fields (header_fields (length payload)) (sk_incoming s) = Some cs" and "[] \<notin> set (sk_incoming s)"
    and "length key = 4" and "opcode < 16" and "length payload < 2 ^ 63" and "length payload \<le> max_alloc"
  shows "\<exists>incoming. concat incoming = rest \<and> [] \<notin> set incoming \<and>
    poll_client_frame True max_alloc s = Inr (answer_frame opcode payload (s\<lparr>sk_incoming := incoming\<rparr>))"
proof -
  note header = poll_after_header [OF assms(1,2,4,5,6), of max_alloc]
  have "pending (s\<lparr>sk_incoming := cs\<rparr>) = apply_mask key payload @ rest" "[] \<notin> set (sk_incoming (s\<lparr>sk_incoming := cs\<rparr>))"
    using header after_fields_nonempty [OF assms(2,3)] by (simp_all add: pending_def)
  from recv_payload_stream [OF this, of "length payload" "[]"] obtain incoming where
    payload: "recv_payload (s\<lparr>sk_incoming := cs\<rparr>) (length payload) [] =
        (Some (apply_mask key payload), s\<lparr>sk_incoming := cs, sk_incoming := incoming\<rparr>)"
    and rest: "concat incoming = rest" "[] \<notin> set incoming" by auto
  have "poll_client_frame True max_alloc s = Inr (answer_frame opcode payload (s\<lparr>sk_incoming := incoming\<rparr>))"
    using header assms(4,7) by (simp add: payload unmask_apply_mask(2))
  with rest show ?thesis by blast
qed

text \<open>
  C25. A client frame is handled as a whole. However its masked payload and what follows are cut into chunks, and
  wherever else the chunks end, as long as no chunk ends inside its first two bytes, its extended length or
  its key (each of which the code takes with a single \<open>recv\<close>): the poll takes exactly the frame from the
  stream, unmasks the payload and answers by the opcode; the socket is otherwise as it was.
\<close>

theorem poll_handles_frame:
  assumes "concat (sk_incoming s) = client_header fin opcode key (length payload) @ apply_mask key payload @ rest"
    and "after_fields (header_fields (length payload)) (sk_incoming s) = Some cs" and "[] \<notin> set (sk_incoming s)"
    and "length key = 4" and "opcode < 16" and "length payload < 2 ^ 63" and "length payload \<le> max_alloc"
  shows "\<exists>incoming. concat incoming = rest \<and> [] \<notin> set incoming \<and>
    poll_client_frame True max_alloc s = Inr (answer_frame opcode payload (s\<lparr>sk_incoming := incoming\<rparr>))"
  using poll_takes_frame [OF assms] .

text \<open>A ping in three chunks, of which the first ends behind the length field and the second inside the payload.\<close>

theorem poll_handles_frame_witness:
  "\<exists>incoming. concat incoming = [] \<and> [] \<notin> set incoming \<and>
    poll_client_frame True 1000
      \<lparr>sk_incoming = [[0x89, 0x82], [1, 2, 3, 4, 0x69], [0x6B]], sk_accepts = [10], sk_sent = []\<rparr> =
    Inr (answer_frame 0x9 [0x68, 0x69] \<lparr>sk_incoming = incoming, sk_accepts = [10], sk_sent = []\<rparr>)"
  using poll_handles_frame [where fin = True and opcode = 9 and key = "[1, 2, 3, 4]" and payload = "[0x68, 0x69]"
      and cs = "[[0x69], [0x6B]]" and rest = "[]" and max_alloc = 1000
      and s = "\<lparr>sk_incoming = [[0x89, 0x82], [1, 2, 3, 4, 0x69], [0x6B]], sk_accepts = [10], sk_sent = []\<rparr>"]
  by (simp add: word_less_nat_alt client_header_def length_field_def header_fields_def)

text \<open>
  The declared length is trusted: a header that announces more bytes than a vector can have ends in
  the exception of the allocation, which nothing on the client's thread catches, before a byte of the
  payload is read.
\<close>

theorem poll_oversized_frame:
  assumes "sk_incoming s = (client_header fin opcode key len @ d) # cs" and "length key = 4"
    and "opcode < 16" and "len < 2 ^ 63" and "max_alloc < len"
  shows "poll_client_frame True max_alloc s = Inl Allocation_failed"
proof -
  have "\<exists>left. after_fields (header_fields len) (sk_incoming s) = Some left"
    using assms(1,2) by (auto simp: header_fields_def client_header_def split: prod.split)
  with poll_after_header [of s fin opcode key len "d @ concat cs" _ max_alloc] assms show ?thesis by auto
qed

theorem poll_oversized_frame_witness:
  "poll_client_frame True 1000
    \<lparr>sk_incoming = [client_header False 2 [1, 2, 3, 4] 100000], sk_accepts = [], sk_sent = []\<rparr> = Inl Allocation_failed"
  using poll_oversized_frame [where fin = False and opcode = 2 and key = "[1, 2, 3, 4]" and len = 100000
      and d = "[]" and cs = "[]" and max_alloc = 1000
      and s = "\<lparr>sk_incoming = [client_header False 2 [1, 2, 3, 4] 100000], sk_accepts = [], sk_sent = []\<rparr>"]
  by (simp add: word_less_nat_alt)

text \<open>A header cut after one byte is read as if both bytes had come.\<close>

lemma poll_short_header:
  assumes "sk_incoming s = [b] # cs"
  shows "poll_client_frame True max_alloc s = Inl Uninitialised_read"
  using assms by (simp add: poll_client_frame_def recv_array_def recv_def)

end
