(* ===== verification/Telemetry_Server.thy ===== *)
theory Telemetry_Server
  imports Ws_Handshake Ws_Frames Memory_Map Json_Value
begin

text \<open>
  The telemetry server: \<open>start\<close> and \<open>stop\<close>, the accept loop and the client loops of
  \<open>telemetry_server.cpp\<close>. Every thread is a program counter; a step ends where the code touches shared
  state (\<open>is_running_\<close>, \<open>listen_socket_\<close>, \<open>client_threads_\<close>, the memory map) or a socket. The operating
  system decides what \<open>socket\<close>, \<open>bind\<close>, \<open>select\<close>, \<open>accept\<close>, \<open>recv\<close> and \<open>send\<close> return.
\<close>

unbundle bit_operations_syntax

section \<open>Greeting a client\<close>

text \<open>The receive loop of \<open>read_websocket_key\<close> on a socket, one byte per \<open>recv\<close>.\<close>

function receive_request :: "string \<Rightarrow> tcp_socket \<Rightarrow> string option \<times> tcp_socket" where
  "receive_request request s =
     (if find_from request (crlf @ crlf) 0 = None \<and> length request < 8192 then
        (case recv s 1 of (bs, s') \<Rightarrow>
           if bs = [] then (None, s') else receive_request (request @ text_of bs) s')
      else (Some request, s))"
  by pat_completeness auto
termination
  by (relation "measure (\<lambda>(request, s). 8192 - length request)") (auto simp: length_greater_0_conv [symmetric] simp del: length_greater_0_conv)

declare receive_request.simps [simp del]

text \<open>
  From a new connection to the reply in one piece, on a socket that nothing more happens to; \<open>False\<close>
  where the code closes the socket and goes on.
\<close>

definition greet_client :: "tcp_socket \<Rightarrow> bool \<times> tcp_socket" where
  "greet_client s =
     (case receive_request [] s of
        (None, s') \<Rightarrow> (False, s')
      | (Some request, s') \<Rightarrow>
          let key = key_of_request request in
            if key = [] then (False, s') else send_all s' (bytes_of (upgrade_response key)))"

section \<open>Messages\<close>

text \<open>Objects of the JSON library keep their fields sorted by name.\<close>

definition byte_array :: "u8 list \<Rightarrow> json" where
  "byte_array xs = J_array (map (\<lambda>b. J_uint (ucast b)) xs)"

definition telemetry_message :: "u64 \<Rightarrow> u8 list \<Rightarrow> u8 list \<Rightarrow> json" where
  "telemetry_message sequence inputs outputs =
     J_object [(''I'', byte_array inputs), (''Q'', byte_array outputs), (''seq'', J_uint sequence)]"

section \<open>Client threads\<close>

text \<open>
  Where a client thread can be in \<open>client_loop\<close>, and inside \<open>poll_client_frame\<close> and \<open>send_all\<close>, which it calls:
  every \<open>recv\<close> and \<open>send\<close> is a step of its own, because the thread waits there until its peer sends or
  takes something. Carried along are the header of the frame being read, its length, its key, the
  payload so far, and what remains to be sent.
\<close>

datatype client_pc =
    CL_test | CL_poll
  | CL_header | CL_length "u8 list" | CL_mask "u8 list" u64 | CL_alloc "u8 list" u64 "u8 list"
  | CL_payload "u8 list" "u8 list" nat "u8 list" | CL_answer bool "u8 list"
  | CL_input | CL_output u64 "u8 list" | CL_send u64 "u8 list" "u8 list" | CL_sending "u8 list" | CL_sleep
  | CL_close | CL_done

text \<open>The last field records the messages handed to \<open>send_text_frame\<close>.\<close>

record client =
  cl_fd :: nat
  cl_socket :: tcp_socket
  cl_sequence :: u64
  cl_pc :: client_pc
  cl_messages :: "(u64 \<times> u8 list \<times> u8 list) list"

definition new_client :: "nat \<Rightarrow> tcp_socket \<Rightarrow> client" where
  "new_client fd s = \<lparr>cl_fd = fd, cl_socket = s, cl_sequence = 0, cl_pc = CL_test, cl_messages = []\<rparr>"

text \<open>What ends the process: a failure in a frame or in the memory map, or \<open>FD_SET\<close> on no descriptor.\<close>

datatype telemetry_failure = Frame_failure ws_failure | Memory_failure failure | Bad_descriptor

definition memory_call :: "'a result \<Rightarrow> telemetry_failure + 'a" where
  "memory_call r = (case r of Inl e \<Rightarrow> Inl (Memory_failure e) | Inr x \<Rightarrow> Inr x)"

definition frame_opcode :: "u8 list \<Rightarrow> u8" where
  "frame_opcode h = h ! 0 AND 0x0F"

definition frame_masked :: "u8 list \<Rightarrow> bool" where
  "frame_masked h \<longleftrightarrow> h ! 1 AND 0x80 \<noteq> 0"

definition frame_length7 :: "u8 list \<Rightarrow> u64" where
  "frame_length7 h = ucast (h ! 1 AND 0x7F)"

text \<open>What follows a payload that has come in whole.\<close>

definition after_payload :: "u8 list \<Rightarrow> u8 list \<Rightarrow> u8 list \<Rightarrow> client_pc" where
  "after_payload h key received =
     (let payload = (if frame_masked h then unmask key received else received) in
      if frame_opcode h = 0x8 then CL_answer True (control_frame 0x8 [])
      else if frame_opcode h = 0x9 then CL_answer False (control_frame 0xA payload)
      else CL_input)"

text \<open>The call a client thread is in waits: nothing has come in, or nothing is taken.\<close>

definition client_waits :: "client \<Rightarrow> bool" where
  "client_waits c \<longleftrightarrow>
     (case cl_pc c of
        CL_header \<Rightarrow> sk_incoming (cl_socket c) = []
      | CL_length h \<Rightarrow> (frame_length7 h = 126 \<or> frame_length7 h = 127) \<and> sk_incoming (cl_socket c) = []
      | CL_mask h len \<Rightarrow> frame_masked h \<and> sk_incoming (cl_socket c) = []
      | CL_payload h key wanted received \<Rightarrow> length received < wanted \<and> sk_incoming (cl_socket c) = []
      | CL_answer closing rest \<Rightarrow> rest \<noteq> [] \<and> sk_accepts (cl_socket c) = []
      | CL_sending rest \<Rightarrow> rest \<noteq> [] \<and> sk_accepts (cl_socket c) = []
      | _ \<Rightarrow> False)"

text \<open>
  One step of \<open>client_loop\<close>: \<open>running\<close> is what it reads in \<open>is_running_\<close>, \<open>ready\<close> what \<open>select\<close> reports,
  \<open>mem\<close> the memory map as it is at the moment. The two areas are read by two calls.
\<close>

definition client_step ::
  "(json \<Rightarrow> string) \<Rightarrow> nat \<Rightarrow> bool \<Rightarrow> bool \<Rightarrow> memory_map \<Rightarrow> client \<Rightarrow> telemetry_failure + client" where
  "client_step dump max_alloc running ready mem c =
     (case cl_pc c of
        CL_test \<Rightarrow> Inr (c\<lparr>cl_pc := (if running then CL_poll else CL_close)\<rparr>)
      | CL_poll \<Rightarrow> Inr (c\<lparr>cl_pc := (if ready then CL_header else CL_input)\<rparr>)
      | CL_header \<Rightarrow>
          (case recv_array (cl_socket c) 2 of
             Inl e \<Rightarrow> Inl (Frame_failure e)
           | Inr (None, s) \<Rightarrow> Inr (c\<lparr>cl_socket := s, cl_pc := CL_close\<rparr>)
           | Inr (Some h, s) \<Rightarrow> Inr (c\<lparr>cl_socket := s, cl_pc := CL_length h\<rparr>))
      | CL_length h \<Rightarrow>
          (case recv_length (frame_length7 h) (cl_socket c) of
             Inl e \<Rightarrow> Inl (Frame_failure e)
           | Inr (None, s) \<Rightarrow> Inr (c\<lparr>cl_socket := s, cl_pc := CL_close\<rparr>)
           | Inr (Some len, s) \<Rightarrow> Inr (c\<lparr>cl_socket := s, cl_pc := CL_mask h len\<rparr>))
      | CL_mask h len \<Rightarrow>
          (case recv_mask (frame_masked h) (cl_socket c) of
             (None, s) \<Rightarrow> Inr (c\<lparr>cl_socket := s, cl_pc := CL_close\<rparr>)
           | (Some key, s) \<Rightarrow> Inr (c\<lparr>cl_socket := s, cl_pc := CL_alloc h len key\<rparr>))
      | CL_alloc h len key \<Rightarrow>
          if unat len > max_alloc then Inl (Frame_failure Allocation_failed)
          else Inr (c\<lparr>cl_pc := CL_payload h key (unat len) []\<rparr>)
      | CL_payload h key wanted received \<Rightarrow>
          if length received < wanted then
            (case recv (cl_socket c) (wanted - length received) of (bs, s) \<Rightarrow>
               Inr (c\<lparr>cl_socket := s,
                      cl_pc := (if bs = [] then CL_close else CL_payload h key wanted (received @ bs))\<rparr>))
          else Inr (c\<lparr>cl_pc := after_payload h key received\<rparr>)
      | CL_answer closing rest \<Rightarrow>
          let out = (if closing then CL_close else CL_input) in
          if rest = [] then Inr (c\<lparr>cl_pc := out\<rparr>)
          else
            (case send (cl_socket c) rest of (n, s) \<Rightarrow>
               Inr (c\<lparr>cl_socket := s, cl_pc := (if n = 0 then out else CL_answer closing (drop n rest))\<rparr>))
      | CL_input \<Rightarrow>
          res_bind (memory_call (get_area_snapshot mem Input)) (\<lambda>inputs.
            Inr (c\<lparr>cl_sequence := cl_sequence c + 1, cl_pc := CL_output (cl_sequence c) inputs\<rparr>))
      | CL_output sequence inputs \<Rightarrow>
          res_bind (memory_call (get_area_snapshot mem Output)) (\<lambda>outputs.
            Inr (c\<lparr>cl_pc := CL_send sequence inputs outputs\<rparr>))
      | CL_send sequence inputs outputs \<Rightarrow>
          Inr (c\<lparr>cl_messages := cl_messages c @ [(sequence, inputs, outputs)],
                 cl_pc := CL_sending (text_frame (bytes_of (dump (telemetry_message sequence inputs outputs))))\<rparr>)
      | CL_sending rest \<Rightarrow>
          if rest = [] then Inr (c\<lparr>cl_pc := CL_sleep\<rparr>)
          else
            (case send (cl_socket c) rest of (n, s) \<Rightarrow>
               Inr (c\<lparr>cl_socket := s, cl_pc := (if n = 0 then CL_close else CL_sending (drop n rest))\<rparr>))
      | CL_sleep \<Rightarrow> Inr (c\<lparr>cl_pc := CL_test\<rparr>)
      | CL_close \<Rightarrow> Inr (c\<lparr>cl_pc := CL_done\<rparr>)
      | CL_done \<Rightarrow> Inr c)"

section \<open>The server\<close>

text \<open>
  The accept thread: not there; at the loop's test; about to read \<open>listen_socket_\<close>; in \<open>select\<close> on what
  it read; in \<open>accept\<close>; past it with a connection or none; reading a client's request, with what has come
  of it; sending the rest of the reply; adding the client's thread; returned.
\<close>

datatype accept_pc =
    AC_none | AC_test | AC_listen | AC_select "nat option" | AC_accept nat
  | AC_check "(nat \<times> tcp_socket) option" | AC_greet nat tcp_socket string | AC_reply nat tcp_socket "u8 list"
  | AC_push nat tcp_socket | AC_done

definition request_complete :: "string \<Rightarrow> bool" where
  "request_complete request \<longleftrightarrow> \<not> (find_from request (crlf @ crlf) 0 = None \<and> length request < 8192)"

text \<open>The accept thread waits in a call on the socket of the client it greets.\<close>

fun accept_waits :: "accept_pc \<Rightarrow> bool" where
  "accept_waits (AC_greet c sock request) \<longleftrightarrow> \<not> request_complete request \<and> sk_incoming sock = []"
| "accept_waits (AC_reply c sock rest) \<longleftrightarrow> rest \<noteq> [] \<and> sk_accepts sock = []"
| "accept_waits _ \<longleftrightarrow> False"

text \<open>The client the accept thread greets, and one step of the greeting; \<open>None\<close> where it gives the client up.\<close>

fun greeted :: "accept_pc \<Rightarrow> nat option" where
  "greeted (AC_greet c sock request) = Some c"
| "greeted (AC_reply c sock rest) = Some c"
| "greeted _ = None"

fun greet_step :: "accept_pc \<Rightarrow> accept_pc option" where
  "greet_step (AC_greet c sock request) =
     (if \<not> request_complete request then
        (case recv sock 1 of (bs, sock') \<Rightarrow>
           if bs = [] then None else Some (AC_greet c sock' (request @ text_of bs)))
      else
        let key = key_of_request request in
          if key = [] then None else Some (AC_reply c sock (bytes_of (upgrade_response key))))"
| "greet_step (AC_reply c sock rest) =
     (if rest = [] then Some (AC_push c sock)
      else
        (case send sock rest of (n, sock') \<Rightarrow>
           if n = 0 then None else Some (AC_reply c sock' (drop n rest))))"
| "greet_step pc = Some pc"

text \<open>The owner outside \<open>stop\<close>, and in it: flag cleared, socket closed, member reset, accept thread joined.\<close>

datatype stop_pc = ST_free | ST_cleared | ST_closed | ST_reset | ST_joined

record telemetry_server =
  ts_port :: int
  ts_listen :: "nat option"
  ts_running :: bool
  ts_acceptor :: accept_pc
  ts_clients :: "client list"
  ts_owner :: stop_pc
  ts_open :: "nat set"
  ts_errors :: "string list"

definition TelemetryServer :: "int \<Rightarrow> telemetry_server" where
  "TelemetryServer port = \<lparr>ts_port = port, ts_listen = None, ts_running = False, ts_acceptor = AC_none,
     ts_clients = [], ts_owner = ST_free, ts_open = {}, ts_errors = []\<rparr>"

definition close_socket :: "nat \<Rightarrow> telemetry_server \<Rightarrow> telemetry_server" where
  "close_socket fd s = s\<lparr>ts_open := ts_open s - {fd}\<rparr>"

declare close_socket_def [simp]

text \<open>What the operating system answers to \<open>socket\<close>, \<open>bind\<close> (to a 16-bit port) and \<open>listen\<close>.\<close>

record start_net =
  net_socket :: "nat option"
  net_bind :: "16 word \<Rightarrow> bool"
  net_listen :: bool

definition telemetry_start :: "start_net \<Rightarrow> telemetry_server \<Rightarrow> telemetry_server" where
  "telemetry_start net s =
     (let fail = (\<lambda>msg. s\<lparr>ts_errors := ts_errors s @ [''[Error] TelemetryServer: '' @ msg]\<rparr>) in
      if ts_running s then s
      else
        (case net_socket net of
           None \<Rightarrow> fail ''failed to create socket''
         | Some fd \<Rightarrow>
             if \<not> net_bind net (word_of_int (ts_port s)) then
               fail (''bind failed on port '' @ dec_string_int (ts_port s))
             else if \<not> net_listen net then fail ''listen failed''
             else s\<lparr>ts_open := insert fd (ts_open s), ts_listen := Some fd, ts_running := True,
                    ts_acceptor := AC_test\<rparr>))"

text \<open>The steps of the server's own threads, and of the owner inside \<open>stop\<close>, with the memory map as it is at the step.\<close>

inductive tm_own :: "(json \<Rightarrow> string) \<Rightarrow> nat \<Rightarrow> memory_map \<Rightarrow> telemetry_server \<Rightarrow> telemetry_server \<Rightarrow> bool"
  for dump max_alloc mem where
  accept_test: "ts_acceptor s = AC_test \<Longrightarrow>
     tm_own dump max_alloc mem s (s\<lparr>ts_acceptor := (if ts_running s then AC_listen else AC_done)\<rparr>)"
| accept_listen: "ts_acceptor s = AC_listen \<Longrightarrow>
     tm_own dump max_alloc mem s (s\<lparr>ts_acceptor := AC_select (ts_listen s)\<rparr>)"
| accept_timeout: "ts_acceptor s = AC_select (Some fd) \<Longrightarrow> tm_own dump max_alloc mem s (s\<lparr>ts_acceptor := AC_test\<rparr>)"
| accept_ready: "ts_acceptor s = AC_select (Some fd) \<Longrightarrow> fd \<in> ts_open s \<Longrightarrow>
     tm_own dump max_alloc mem s (s\<lparr>ts_acceptor := AC_accept fd\<rparr>)"
| accept_none: "ts_acceptor s = AC_accept fd \<Longrightarrow> tm_own dump max_alloc mem s (s\<lparr>ts_acceptor := AC_check None\<rparr>)"
| accept_client: "ts_acceptor s = AC_accept fd \<Longrightarrow> fd \<in> ts_open s \<Longrightarrow> c \<notin> ts_open s \<Longrightarrow>
     tm_own dump max_alloc mem s (s\<lparr>ts_open := insert c (ts_open s), ts_acceptor := AC_check (Some (c, sock))\<rparr>)"
| check_none: "ts_acceptor s = AC_check None \<Longrightarrow>
     tm_own dump max_alloc mem s (s\<lparr>ts_acceptor := (if ts_running s then AC_test else AC_done)\<rparr>)"
| check_client: "ts_acceptor s = AC_check (Some (c, sock)) \<Longrightarrow>
     tm_own dump max_alloc mem s
       (if ts_running s then s\<lparr>ts_acceptor := AC_greet c sock []\<rparr>
        else close_socket c (s\<lparr>ts_acceptor := AC_done\<rparr>))"
| greets: "greeted (ts_acceptor s) = Some c \<Longrightarrow> \<not> accept_waits (ts_acceptor s) \<Longrightarrow>
     tm_own dump max_alloc mem s
       (case greet_step (ts_acceptor s) of
          None \<Rightarrow> close_socket c (s\<lparr>ts_acceptor := AC_test\<rparr>)
        | Some pc \<Rightarrow> s\<lparr>ts_acceptor := pc\<rparr>)"
| pushes: "ts_acceptor s = AC_push c sock \<Longrightarrow>
     tm_own dump max_alloc mem s (s\<lparr>ts_acceptor := AC_test, ts_clients := ts_clients s @ [new_client c sock]\<rparr>)"
| client_acts: "ts_clients s = xs @ c # ys \<Longrightarrow> cl_pc c \<noteq> CL_done \<Longrightarrow> \<not> client_waits c \<Longrightarrow>
     client_step dump max_alloc (ts_running s) ready mem c = Inr c' \<Longrightarrow>
     tm_own dump max_alloc mem s
       (s\<lparr>ts_clients := xs @ c' # ys,
          ts_open := (if cl_pc c = CL_close then ts_open s - {cl_fd c} else ts_open s)\<rparr>)"
| stop_closes: "ts_owner s = ST_cleared \<Longrightarrow>
     tm_own dump max_alloc mem s (s\<lparr>ts_open := ts_open s - set_option (ts_listen s), ts_owner := ST_closed\<rparr>)"
| stop_resets: "ts_owner s = ST_closed \<Longrightarrow> tm_own dump max_alloc mem s (s\<lparr>ts_listen := None, ts_owner := ST_reset\<rparr>)"
| stop_joins: "ts_owner s = ST_reset \<Longrightarrow> ts_acceptor s = AC_done \<Longrightarrow>
     tm_own dump max_alloc mem s (s\<lparr>ts_acceptor := AC_none, ts_owner := ST_joined\<rparr>)"
| stop_clears: "ts_owner s = ST_joined \<Longrightarrow> \<forall>c\<in>set (ts_clients s). cl_pc c = CL_done \<Longrightarrow>
     tm_own dump max_alloc mem s (s\<lparr>ts_clients := [], ts_owner := ST_free\<rparr>)"

text \<open>A peer sends bytes or closes the connection, and the operating system takes bytes to send.\<close>

definition peer_acts :: "u8 list list \<Rightarrow> nat list \<Rightarrow> tcp_socket \<Rightarrow> tcp_socket" where
  "peer_acts chunks taken sock =
     sock\<lparr>sk_incoming := sk_incoming sock @ chunks, sk_accepts := sk_accepts sock @ taken\<rparr>"

text \<open>What the server's threads do not do: the owner calls \<open>start\<close> or \<open>stop\<close>, and the peers act.\<close>

inductive tm_env :: "telemetry_server \<Rightarrow> telemetry_server \<Rightarrow> bool" where
  owner_starts: "ts_owner s = ST_free \<Longrightarrow> set_option (net_socket net) \<inter> ts_open s = {} \<Longrightarrow>
     tm_env s (telemetry_start net s)"
| owner_stops: "ts_owner s = ST_free \<Longrightarrow> ts_running s \<Longrightarrow>
     tm_env s (s\<lparr>ts_running := False, ts_owner := ST_cleared\<rparr>)"
| network: "ts_clients s = xs @ c # ys \<Longrightarrow>
     tm_env s (s\<lparr>ts_clients := xs @ c\<lparr>cl_socket := peer_acts chunks taken (cl_socket c)\<rparr> # ys\<rparr>)"
| network_request: "ts_acceptor s = AC_greet c sock request \<Longrightarrow>
     tm_env s (s\<lparr>ts_acceptor := AC_greet c (peer_acts chunks taken sock) request\<rparr>)"
| network_reply: "ts_acceptor s = AC_reply c sock rest \<Longrightarrow>
     tm_env s (s\<lparr>ts_acceptor := AC_reply c (peer_acts chunks taken sock) rest\<rparr>)"

inductive tm_reach :: "(json \<Rightarrow> string) \<Rightarrow> nat \<Rightarrow> int \<Rightarrow> telemetry_server \<Rightarrow> bool" for dump max_alloc port where
  tm_new: "tm_reach dump max_alloc port (TelemetryServer port)"
| tm_env_step: "tm_reach dump max_alloc port s \<Longrightarrow> tm_env s t \<Longrightarrow> tm_reach dump max_alloc port t"
| tm_own_step: "tm_reach dump max_alloc port s \<Longrightarrow> valid_memory mem \<Longrightarrow> tm_own dump max_alloc mem s t \<Longrightarrow>
     tm_reach dump max_alloc port t"

text \<open>The steps that end in a failure.\<close>

inductive tm_fails :: "(json \<Rightarrow> string) \<Rightarrow> nat \<Rightarrow> memory_map \<Rightarrow> telemetry_server \<Rightarrow> telemetry_failure \<Rightarrow> bool"
  for dump max_alloc mem where
  select_fails: "ts_acceptor s = AC_select None \<Longrightarrow> tm_fails dump max_alloc mem s Bad_descriptor"
| client_fails: "c \<in> set (ts_clients s) \<Longrightarrow> \<not> client_waits c \<Longrightarrow>
     client_step dump max_alloc (ts_running s) ready mem c = Inl f \<Longrightarrow> tm_fails dump max_alloc mem s f"

end
