(* ===== verification/Telemetry_Calls.thy ===== *)
theory Telemetry_Calls
  imports Telemetry_Server
begin

text \<open>
  The calls that \<open>Telemetry_Server\<close> cuts at their \<open>recv\<close> and \<open>send\<close>: the greeting of a client and the poll for
  one of its frames. However the peer's chunks come in between the steps, what the steps do in the end is
  what the call in one piece does on the socket with all the chunks. With the frames of \<open>Ws_Frames\<close> this says
  how a client's thread serves a frame.
\<close>

unbundle bit_operations_syntax

section \<open>Steps that do not wait do not see what the peer does later\<close>

lemma peer_acts_simps [simp]:
  "sk_incoming (peer_acts F T s) = sk_incoming s @ F" "sk_accepts (peer_acts F T s) = sk_accepts s @ T"
  "sk_sent (peer_acts F T s) = sk_sent s" "peer_acts [] [] s = s"
  "peer_acts F' T' (peer_acts F T s) = peer_acts (F @ F') (T @ T') s"
  by (simp_all add: peer_acts_def)

lemma recv_peer: "sk_incoming s \<noteq> [] \<Longrightarrow> recv s n = (bs, s') \<Longrightarrow> recv (peer_acts F T s) n = (bs, peer_acts F T s')"
  by (auto simp: recv_def peer_acts_def split: list.splits)

lemma send_peer: "sk_accepts s \<noteq> [] \<Longrightarrow> send s data = (n, s') \<Longrightarrow> send (peer_acts F T s) data = (n, peer_acts F T s')"
  by (auto simp: send_def peer_acts_def split: list.splits)

lemma recv_array_peer:
  assumes "sk_incoming s \<noteq> []" and "recv_array s n = Inr (r, s')"
  shows "recv_array (peer_acts F T s) n = Inr (r, peer_acts F T s')"
proof -
  obtain bs s1 where "recv s n = (bs, s1)" by fastforce
  with assms recv_peer [OF assms(1) this, of F T] show ?thesis by (auto simp: recv_array_def split: if_splits)
qed

lemma recv_length_peer:
  assumes "len7 = 126 \<or> len7 = 127 \<Longrightarrow> sk_incoming s \<noteq> []" and "recv_length len7 s = Inr (r, s')"
  shows "recv_length len7 (peer_acts F T s) = Inr (r, peer_acts F T s')"
  using assms by (auto simp: recv_length_def res_bind_iff dest: recv_array_peer [where F = F and T = T] split: if_splits)

lemma recv_mask_peer:
  assumes "masked \<Longrightarrow> sk_incoming s \<noteq> []" and "recv_mask masked s = (r, s')"
  shows "recv_mask masked (peer_acts F T s) = (r, peer_acts F T s')"
  using assms by (auto simp: recv_mask_def dest: recv_peer [where F = F and T = T] split: if_splits prod.splits)

section \<open>Greeting\<close>

text \<open>What the rest of a greeting comes to, on a socket that nothing more happens to.\<close>

fun rest_of_greeting :: "accept_pc \<Rightarrow> (bool \<times> tcp_socket) option" where
  "rest_of_greeting (AC_greet c sock request) = Some
     (case receive_request request sock of
        (None, s') \<Rightarrow> (False, s')
      | (Some r, s') \<Rightarrow>
          let key = key_of_request r in
            if key = [] then (False, s') else send_all s' (bytes_of (upgrade_response key)))"
| "rest_of_greeting (AC_reply c sock rest) = Some (send_all sock rest)"
| "rest_of_greeting (AC_push c sock) = Some (True, sock)"
| "rest_of_greeting pc = None"

fun greeting_peer :: "u8 list list \<Rightarrow> nat list \<Rightarrow> accept_pc \<Rightarrow> accept_pc" where
  "greeting_peer F T (AC_greet c sock request) = AC_greet c (peer_acts F T sock) request"
| "greeting_peer F T (AC_reply c sock rest) = AC_reply c (peer_acts F T sock) rest"
| "greeting_peer F T (AC_push c sock) = AC_push c (peer_acts F T sock)"
| "greeting_peer F T pc = pc"

lemma rest_of_greeting_start: "rest_of_greeting (AC_greet c sock []) = Some (greet_client sock)"
  by (simp add: greet_client_def)

lemma receive_request_step:
  "receive_request request s =
     (if request_complete request then (Some request, s)
      else (case recv s 1 of (bs, s') \<Rightarrow>
        if bs = [] then (None, s') else receive_request (request @ text_of bs) s'))"
  by (subst receive_request.simps) (simp add: request_complete_def)

lemma send_all_step:
  "send_all s data =
     (if data = [] then (True, s)
      else (case send s data of (n, s') \<Rightarrow> if n = 0 then (False, s') else send_all s' (drop n data)))"
  by (rule send_all.simps)

lemma greet_step_rest:
  assumes "greeted pc \<noteq> None"
  shows "case greet_step pc of None \<Rightarrow> \<not> fst (the (rest_of_greeting pc)) | Some pc' \<Rightarrow> rest_of_greeting pc = rest_of_greeting pc'"
proof (cases pc)
  case (AC_greet c sock request)
  then show ?thesis
    by (cases "recv sock 1") (simp add: receive_request_step [of request] Let_def)
next
  case (AC_reply c sock rest)
  then show ?thesis by (cases "send sock rest") (simp add: send_all_step [of sock])
qed (use assms in simp_all)

lemma greet_step_peer:
  assumes "\<not> accept_waits pc"
  shows "greet_step (greeting_peer F T pc) = map_option (greeting_peer F T) (greet_step pc)"
  using assms
  by (cases pc) (auto simp: Let_def dest: recv_peer [where F = F and T = T] send_peer [where F = F and T = T]
    split: prod.splits)

text \<open>A greeting under way: steps that do not wait, and the peer acting in between; \<open>F\<close> and \<open>T\<close> are what it has done.\<close>

inductive greeting_run :: "accept_pc \<Rightarrow> u8 list list \<Rightarrow> nat list \<Rightarrow> accept_pc option \<Rightarrow> bool" for start_pc where
  greeting_starts: "greeting_run start_pc [] [] (Some start_pc)"
| greeting_steps: "greeting_run start_pc F T (Some pc) \<Longrightarrow> greeted pc \<noteq> None \<Longrightarrow> \<not> accept_waits pc \<Longrightarrow>
     greeting_run start_pc F T (greet_step pc)"
| greeting_peers: "greeting_run start_pc F T (Some pc) \<Longrightarrow> greeted pc \<noteq> None \<Longrightarrow>
     greeting_run start_pc (F @ chunks) (T @ taken) (Some (greeting_peer chunks taken pc))"

lemma greeting_peer_simps [simp]:
  "greeting_peer [] [] pc = pc" "greeted (greeting_peer F T pc) = greeted pc"
  "greeting_peer F' T' (greeting_peer F T pc) = greeting_peer (F @ F') (T @ T') pc"
  by (cases pc; simp)+

lemma greeting_run_rest:
  assumes "greeting_run pc0 F T r"
  shows "case r of None \<Rightarrow> \<not> fst (the (rest_of_greeting (greeting_peer (F @ F') (T @ T') pc0)))
    | Some pc \<Rightarrow> rest_of_greeting (greeting_peer (F @ F') (T @ T') pc0) = rest_of_greeting (greeting_peer F' T' pc)"
  using assms
proof (induction arbitrary: F' T' rule: greeting_run.induct)
  case (greeting_steps F T pc)
  have "greeted (greeting_peer F' T' pc) \<noteq> None" using greeting_steps(2) by simp
  from greet_step_rest [OF this] greeting_steps show ?case
    by (cases "greet_step pc") (simp_all add: greet_step_peer)
next
  case (greeting_peers F T pc chunks taken)
  from greeting_peers(3) [of "chunks @ F'" "taken @ T'"] show ?case by simp
qed simp

section \<open>Polling for a frame\<close>

text \<open>The places of a client thread inside \<open>poll_client_frame\<close>, and what the rest of the call comes to.\<close>

fun in_poll :: "client_pc \<Rightarrow> bool" where
  "in_poll CL_header = True"
| "in_poll (CL_length h) = True"
| "in_poll (CL_mask h len) = True"
| "in_poll (CL_alloc h len key) = True"
| "in_poll (CL_payload h key wanted received) = True"
| "in_poll (CL_answer closing rest) = True"
| "in_poll _ = False"

definition poll_payload ::
  "u8 list \<Rightarrow> u8 list \<Rightarrow> nat \<Rightarrow> u8 list \<Rightarrow> tcp_socket \<Rightarrow> ws_failure + poll_result \<times> tcp_socket" where
  "poll_payload h key wanted received s =
     (case recv_payload s wanted received of
        (None, s') \<Rightarrow> Inr (kClosed, s')
      | (Some payload, s') \<Rightarrow>
          Inr (answer_frame (frame_opcode h) (if frame_masked h then unmask key payload else payload) s'))"

definition poll_alloc :: "nat \<Rightarrow> u8 list \<Rightarrow> u64 \<Rightarrow> u8 list \<Rightarrow> tcp_socket \<Rightarrow> ws_failure + poll_result \<times> tcp_socket" where
  "poll_alloc max_alloc h len key s =
     (if unat len > max_alloc then Inl Allocation_failed else poll_payload h key (unat len) [] s)"

definition poll_mask :: "nat \<Rightarrow> u8 list \<Rightarrow> u64 \<Rightarrow> tcp_socket \<Rightarrow> ws_failure + poll_result \<times> tcp_socket" where
  "poll_mask max_alloc h len s =
     (case recv_mask (frame_masked h) s of
        (None, s') \<Rightarrow> Inr (kClosed, s')
      | (Some key, s') \<Rightarrow> poll_alloc max_alloc h len key s')"

definition poll_length :: "nat \<Rightarrow> u8 list \<Rightarrow> tcp_socket \<Rightarrow> ws_failure + poll_result \<times> tcp_socket" where
  "poll_length max_alloc h s =
     res_bind (recv_length (frame_length7 h) s) (\<lambda>(len, s').
       case len of None \<Rightarrow> Inr (kClosed, s') | Some payload_len \<Rightarrow> poll_mask max_alloc h payload_len s')"

fun rest_of_poll :: "nat \<Rightarrow> client_pc \<Rightarrow> tcp_socket \<Rightarrow> ws_failure + poll_result \<times> tcp_socket" where
  "rest_of_poll m CL_header s = poll_client_frame True m s"
| "rest_of_poll m (CL_length h) s = poll_length m h s"
| "rest_of_poll m (CL_mask h len) s = poll_mask m h len s"
| "rest_of_poll m (CL_alloc h len key) s = poll_alloc m h len key s"
| "rest_of_poll m (CL_payload h key wanted received) s = poll_payload h key wanted received s"
| "rest_of_poll m (CL_answer closing rest) s = Inr (if closing then kClosed else kHandled, snd (send_all s rest))"
| "rest_of_poll m CL_close s = Inr (kClosed, s)"
| "rest_of_poll m pc s = Inr (kHandled, s)"

lemma poll_client_frame_length:
  "poll_client_frame True m s =
     res_bind (recv_array s 2) (\<lambda>(header, s').
       case header of None \<Rightarrow> Inr (kClosed, s') | Some h \<Rightarrow> poll_length m h s')"
  by (auto simp: poll_client_frame_def poll_length_def poll_mask_def poll_alloc_def poll_payload_def Let_def
      frame_opcode_def frame_masked_def frame_length7_def intro!: arg_cong2 [where f = res_bind] ext
      split: option.split prod.split)

lemma recv_payload_step:
  "recv_payload s wanted received =
     (if length received < wanted then
        (case recv s (wanted - length received) of (bs, s') \<Rightarrow>
           if bs = [] then (None, s') else recv_payload s' wanted (received @ bs))
      else (Some received, s))"
  by (rule recv_payload.simps)

lemma after_payload_answer:
  "Inr (answer_frame (frame_opcode h) (if frame_masked h then unmask key payload else payload) s) =
     rest_of_poll m (after_payload h key payload) s"
  by (simp add: answer_frame_def after_payload_def send_control_frame_def Let_def)

text \<open>A step of a client thread keeps what the call is going to come to.\<close>

lemma poll_step_rest:
  assumes "in_poll (cl_pc c)"
  shows "case client_step dump m running ready mem c of
      Inl f \<Rightarrow> (\<exists>e. f = Frame_failure e \<and> rest_of_poll m (cl_pc c) (cl_socket c) = Inl e)
    | Inr c' \<Rightarrow> rest_of_poll m (cl_pc c) (cl_socket c) = rest_of_poll m (cl_pc c') (cl_socket c')"
proof (cases "cl_pc c")
  case CL_header
  then show ?thesis
    by (cases "recv_array (cl_socket c) 2")
      (auto simp: client_step_def poll_client_frame_length split: option.split)
next
  case (CL_length h)
  then show ?thesis
    by (cases "recv_length (frame_length7 h) (cl_socket c)")
      (auto simp: client_step_def poll_length_def split: option.split)
next
  case (CL_mask h len)
  then show ?thesis
    by (auto simp: client_step_def poll_mask_def split: option.split prod.split)
next
  case (CL_alloc h len key)
  then show ?thesis by (simp add: client_step_def poll_alloc_def)
next
  case (CL_payload h key wanted received)
  then show ?thesis
    by (cases "recv (cl_socket c) (wanted - length received)")
      (simp add: client_step_def poll_payload_def recv_payload_step [of "cl_socket c"] after_payload_answer)
next
  case (CL_answer closing rest)
  then show ?thesis
    by (cases "send (cl_socket c) rest") (simp add: client_step_def send_all_step [of "cl_socket c"] Let_def)
qed (use assms in simp_all)

definition client_peer :: "u8 list list \<Rightarrow> nat list \<Rightarrow> client \<Rightarrow> client" where
  "client_peer F T c = c\<lparr>cl_socket := peer_acts F T (cl_socket c)\<rparr>"

lemma client_peer_simps [simp]:
  "cl_pc (client_peer F T c) = cl_pc c" "cl_socket (client_peer F T c) = peer_acts F T (cl_socket c)"
  "client_peer [] [] c = c" "client_peer F' T' (client_peer F T c) = client_peer (F @ F') (T @ T') c"
  by (simp_all add: client_peer_def)

lemma client_step_peer:
  assumes "in_poll (cl_pc c)" and "\<not> client_waits c" and "client_step dump m running ready mem c = Inr c'"
  shows "client_step dump m running ready mem (client_peer F T c) = Inr (client_peer F T c')"
proof (cases "cl_pc c")
  case CL_header
  then have inc: "sk_incoming (cl_socket c) \<noteq> []" using assms(2) by (simp add: client_waits_def)
  from CL_header assms(3) obtain r s where r: "recv_array (cl_socket c) 2 = Inr (r, s)"
    by (auto simp: client_step_def split: sum.splits)
  from recv_array_peer [OF inc r] CL_header assms(3) r show ?thesis
    by (auto simp: client_step_def client_peer_def split: option.splits)
next
  case (CL_length h)
  then have inc: "frame_length7 h = 126 \<or> frame_length7 h = 127 \<Longrightarrow> sk_incoming (cl_socket c) \<noteq> []"
    using assms(2) by (simp add: client_waits_def)
  from CL_length assms(3) obtain r s where r: "recv_length (frame_length7 h) (cl_socket c) = Inr (r, s)"
    by (auto simp: client_step_def split: sum.splits)
  from recv_length_peer [OF inc r] CL_length assms(3) r show ?thesis
    by (auto simp: client_step_def client_peer_def split: option.splits)
next
  case (CL_mask h len)
  then have inc: "frame_masked h \<Longrightarrow> sk_incoming (cl_socket c) \<noteq> []"
    using assms(2) by (simp add: client_waits_def)
  obtain r s where r: "recv_mask (frame_masked h) (cl_socket c) = (r, s)" by fastforce
  from recv_mask_peer [OF inc r] CL_mask assms(3) r show ?thesis
    by (auto simp: client_step_def client_peer_def split: option.splits)
next
  case (CL_alloc h len key)
  with assms(3) show ?thesis by (auto simp: client_step_def client_peer_def split: if_splits)
next
  case (CL_payload h key wanted received)
  then have inc: "length received < wanted \<Longrightarrow> sk_incoming (cl_socket c) \<noteq> []"
    using assms(2) by (simp add: client_waits_def)
  obtain bs s where r: "recv (cl_socket c) (wanted - length received) = (bs, s)" by fastforce
  from recv_peer [OF inc r] CL_payload assms(3) r show ?thesis
    by (auto simp: client_step_def client_peer_def split: if_splits)
next
  case (CL_answer closing rest)
  then have acc: "rest \<noteq> [] \<Longrightarrow> sk_accepts (cl_socket c) \<noteq> []"
    using assms(2) by (simp add: client_waits_def)
  obtain n s where r: "send (cl_socket c) rest = (n, s)" by fastforce
  from send_peer [OF acc r] CL_answer assms(3) r show ?thesis
    by (auto simp: client_step_def client_peer_def Let_def split: if_splits)
qed (use assms(1) in simp_all)

text \<open>A poll under way, like a greeting.\<close>

inductive poll_run :: "(json \<Rightarrow> string) \<Rightarrow> nat \<Rightarrow> client \<Rightarrow> u8 list list \<Rightarrow> nat list \<Rightarrow> client \<Rightarrow> bool" for dump m c0 where
  poll_starts: "poll_run dump m c0 [] [] c0"
| poll_steps: "poll_run dump m c0 F T c \<Longrightarrow> in_poll (cl_pc c) \<Longrightarrow> \<not> client_waits c \<Longrightarrow>
     client_step dump m running ready mem c = Inr c' \<Longrightarrow> poll_run dump m c0 F T c'"
| poll_peers: "poll_run dump m c0 F T c \<Longrightarrow> poll_run dump m c0 (F @ chunks) (T @ taken) (client_peer chunks taken c)"

lemma poll_run_rest:
  assumes "poll_run dump m c0 F T c"
  shows "rest_of_poll m (cl_pc c0) (peer_acts (F @ F') (T @ T') (cl_socket c0)) =
    rest_of_poll m (cl_pc c) (peer_acts F' T' (cl_socket c))"
  using assms
proof (induction arbitrary: F' T' rule: poll_run.induct)
  case (poll_steps F T c running ready mem c')
  have "in_poll (cl_pc (client_peer F' T' c))" using poll_steps(2) by simp
  from poll_step_rest [OF this, where dump = dump and m = m and running = running and ready = ready and mem = mem] client_step_peer [OF poll_steps(2-4), of F' T']
  show ?case using poll_steps(5) [of F' T'] by simp
next
  case (poll_peers F T c chunks taken)
  from poll_peers(2) [of "chunks @ F'" "taken @ T'"] show ?case by simp
qed simp

text \<open>The bytes that come before the end of the connection.\<close>

definition available :: "tcp_socket \<Rightarrow> u8 list" where
  "available s = concat (takeWhile (\<lambda>c. c \<noteq> []) (sk_incoming s))"

lemma recv_one:
  "available s = [] \<and> (\<exists>cs. recv s 1 = ([], s\<lparr>sk_incoming := cs\<rparr>)) \<or>
   (\<exists>b cs. recv s 1 = ([b], s\<lparr>sk_incoming := cs\<rparr>) \<and> available s = b # available (s\<lparr>sk_incoming := cs\<rparr>))"
proof (cases "sk_incoming s")
  case Nil
  then show ?thesis by (auto simp: available_def recv_def intro!: exI [of _ "[]"])
next
  case (Cons c cs)
  show ?thesis
  proof (cases c)
    case Nil
    with Cons show ?thesis by (auto simp: available_def recv_def)
  next
    case (Cons b bs)
    with \<open>sk_incoming s = c # cs\<close> show ?thesis
      by (cases bs) (auto simp: available_def recv_def)
  qed
qed

lemma receive_request_reads:
  "\<exists>incoming. receive_request request s =
    (read_request request (text_of (available s)), s\<lparr>sk_incoming := incoming\<rparr>)"
proof (induction request s rule: receive_request.induct)
  case (1 request s)
  show ?case
  proof (cases "find_from request (crlf @ crlf) 0 = None \<and> length request < 8192")
    case False
    then show ?thesis
      by (subst receive_request.simps, subst read_request.simps) (auto intro!: exI [of _ "sk_incoming s"])
  next
    case more: True
    from recv_one [of s] show ?thesis
    proof (elim disjE conjE exE)
      fix cs assume "available s = []" "recv s 1 = ([], s\<lparr>sk_incoming := cs\<rparr>)"
      with more show ?thesis by (subst receive_request.simps, subst read_request.simps) auto
    next
      fix b cs assume r: "recv s 1 = ([b], s\<lparr>sk_incoming := cs\<rparr>)" "available s = b # available (s\<lparr>sk_incoming := cs\<rparr>)"
      from 1 [OF more r(1) [symmetric]] obtain incoming where
        "receive_request (request @ text_of [b]) (s\<lparr>sk_incoming := cs\<rparr>) =
          (read_request (request @ text_of [b]) (text_of (available (s\<lparr>sk_incoming := cs\<rparr>))), s\<lparr>sk_incoming := incoming\<rparr>)"
        by auto
      with more r show ?thesis
        by (subst receive_request.simps, subst read_request.simps) (auto simp: text_of_def)
    qed
  qed
qed

lemma greet_client_handshake:
  "\<exists>incoming. greet_client s =
    (case handshake (text_of (available s)) of
       None \<Rightarrow> (False, s\<lparr>sk_incoming := incoming\<rparr>)
     | Some reply \<Rightarrow> send_all (s\<lparr>sk_incoming := incoming\<rparr>) (bytes_of reply))"
  using receive_request_reads [of "[]" s]
  by (auto simp: greet_client_def handshake_def read_websocket_key_def Let_def split: option.splits)

text \<open>A greeting that never has to wait runs through.\<close>

lemma greeting_run_reads:
  assumes "greeting_run pc0 F T (Some (AC_greet c s request))" and "receive_request request s = (Some r, s')"
  shows "greeting_run pc0 F T (Some (AC_greet c s' r)) \<and> request_complete r"
  using assms
proof (induction request s rule: receive_request.induct)
  case (1 request s)
  show ?case
  proof (cases "request_complete request")
    case True
    with 1(2,3) show ?thesis by (simp add: receive_request_step [of request])
  next
    case False
    obtain bs s1 where r: "recv s 1 = (bs, s1)" by fastforce
    with 1(3) False have more: "bs \<noteq> []" "receive_request (request @ text_of bs) s1 = (Some r, s')"
      by (simp_all add: receive_request_step [of request] split: if_splits)
    then have "sk_incoming s \<noteq> []" using r by (auto simp: recv_def)
    with greeting_steps [OF 1(2)] False r more(1)
    have "greeting_run pc0 F T (Some (AC_greet c s1 (request @ text_of bs)))" by simp
    with 1(1) [OF _ r [symmetric] more(1)] False more(2) show ?thesis by (simp add: request_complete_def)
  qed
qed

lemma greeting_run_sends:
  assumes "greeting_run pc0 F T (Some (AC_reply c s rest))" and "send_all s rest = (True, s')"
  shows "greeting_run pc0 F T (Some (AC_push c s'))"
  using assms
proof (induction s rest rule: send_all.induct)
  case (1 s rest)
  show ?case
  proof (cases "rest = []")
    case True
    with greeting_steps [OF 1(2)] 1(3) show ?thesis by (simp add: send_all_step [of s])
  next
    case False
    obtain n s1 where r: "send s rest = (n, s1)" by fastforce
    with 1(3) False have more: "n \<noteq> 0" "send_all s1 (drop n rest) = (True, s')"
      by (simp_all add: send_all_step [of s] split: if_splits)
    then have "sk_accepts s \<noteq> []" using r by (auto simp: send_def)
    with greeting_steps [OF 1(2)] False r more(1)
    have "greeting_run pc0 F T (Some (AC_reply c s1 (drop n rest)))" by simp
    with 1(1) [OF False r [symmetric] more(1)] more(2) show ?thesis by simp
  qed
qed

text \<open>From wherever it is, with what has come in enough.\<close>

fun greeting_fd :: "accept_pc \<Rightarrow> nat option" where
  "greeting_fd (AC_push c s) = Some c"
| "greeting_fd pc = greeted pc"

lemma greeting_run_fd:
  assumes "greeting_run (AC_greet c sock []) F T r" and "r = Some pc"
  shows "greeting_fd pc = Some c"
  using assms
proof (induction arbitrary: pc rule: greeting_run.induct)
  case (greeting_steps F T pc0)
  then have "greeting_fd pc0 = Some c" by blast
  with greeting_steps(2,5) show ?case
    by (cases pc0) (auto simp: Let_def split: if_splits prod.splits)
next
  case (greeting_peers F T pc0 chunks taken)
  then show ?case by (cases pc0) auto
qed simp

lemma greeting_runs_through:
  assumes "rest_of_greeting pc = Some (True, s')" and "greeting_fd pc = Some c"
  shows "greeting_run pc [] [] (Some (AC_push c s'))"
proof (cases pc)
  case (AC_greet d s request)
  with assms obtain r s1 where r: "receive_request request s = (Some r, s1)" "d = c"
    "key_of_request r \<noteq> []" "send_all s1 (bytes_of (upgrade_response (key_of_request r))) = (True, s')"
    by (auto simp: Let_def split: option.splits prod.splits if_splits)
  from greeting_run_reads [OF greeting_starts [of "AC_greet c s request"] r(1)]
  have "greeting_run pc [] [] (Some (AC_greet c s1 r))" and "request_complete r"
    by (simp_all add: AC_greet r(2))
  with greeting_steps [OF this(1)] r(3)
  have "greeting_run pc [] [] (Some (AC_reply c s1 (bytes_of (upgrade_response (key_of_request r)))))"
    by (simp add: Let_def)
  from greeting_run_sends [OF this r(4)] show ?thesis .
next
  case (AC_reply d s rest)
  with assms greeting_run_sends [OF greeting_starts [of "AC_reply c s rest"]] show ?thesis by simp
next
  case (AC_push d s)
  with assms greeting_starts [of pc] show ?thesis by simp
qed (use assms in simp_all)

lemma greeting_run_greets:
  assumes "greet_client s = (True, s')"
  shows "greeting_run (AC_greet c s []) [] [] (Some (AC_push c s'))"
  by (rule greeting_runs_through) (use assms in \<open>simp_all add: rest_of_greeting_start del: rest_of_greeting.simps\<close>)

lemma send_all_whole:
  assumes "sk_accepts s = length data # ks" and "data \<noteq> []"
  shows "send_all s data = (True, s\<lparr>sk_accepts := ks, sk_sent := sk_sent s @ data\<rparr>)"
  using assms by (subst send_all.simps) (simp add: send_def send_all.simps)

text \<open>An example: a client whose request has come in, and whose socket takes the reply and what \<open>taken\<close> says.\<close>

definition demo_socket :: "nat list \<Rightarrow> tcp_socket" where
  "demo_socket taken = \<lparr>sk_incoming = [bytes_of example_request],
     sk_accepts = length (upgrade_response ''abc='') # taken, sk_sent = []\<rparr>"

lemma demo_handshake: "handshake example_request = Some (upgrade_response ''abc='')"
  using example_request_key [of "[]"] by (simp add: handshake_def)

lemma demo_greeted: "\<exists>incoming. greet_client (demo_socket taken) =
    (True, \<lparr>sk_incoming = incoming, sk_accepts = taken, sk_sent = bytes_of (upgrade_response ''abc='')\<rparr>)"
proof -
  have "bytes_of example_request \<noteq> []" by (simp add: example_request_def crlf_def)
  then have arrives: "text_of (available (demo_socket taken)) = example_request"
    by (simp add: available_def demo_socket_def)
  have "bytes_of (upgrade_response ''abc='') \<noteq> []" by (simp add: upgrade_response_def bytes_of_def)
  moreover from greet_client_handshake [of "demo_socket taken"] obtain incoming where "greet_client (demo_socket taken) =
      send_all (demo_socket taken\<lparr>sk_incoming := incoming\<rparr>) (bytes_of (upgrade_response ''abc=''))"
    unfolding arrives demo_handshake by auto
  ultimately show ?thesis by (auto simp: send_all_whole demo_socket_def)
qed

section \<open>Properties\<close>

text \<open>
  A poll that is cut at its \<open>recv\<close> and \<open>send\<close> calls comes to what \<open>poll_client_frame\<close> comes to on a socket on which
  everything has already arrived.
\<close>

lemma poll_in_steps:
  assumes "poll_run dump max_alloc c F T c'" and "cl_pc c = CL_header" and "\<not> in_poll (cl_pc c')"
  shows "poll_client_frame True max_alloc (peer_acts F T (cl_socket c)) =
    Inr (if cl_pc c' = CL_close then kClosed else kHandled, cl_socket c')"
proof -
  have "rest_of_poll max_alloc (cl_pc c') (cl_socket c') =
      Inr (if cl_pc c' = CL_close then kClosed else kHandled, cl_socket c')"
    using assms(3) by (cases "cl_pc c'") simp_all
  then show ?thesis using poll_run_rest [OF assms(1), of "[]" "[]"] assms(2) by simp
qed

lemma poll_keeps_client:
  "poll_run dump m c F T c' \<Longrightarrow> cl_fd c' = cl_fd c \<and> cl_sequence c' = cl_sequence c \<and> cl_messages c' = cl_messages c"
proof (induction rule: poll_run.induct)
  case (poll_steps F T c running ready mem c')
  then show ?case
    by (cases "cl_pc c") (auto simp: client_step_def Let_def split: sum.splits prod.splits option.splits if_splits)
qed (simp_all add: client_peer_def)

text \<open>The answer to a frame, as bytes, and what a socket sends of it.\<close>

definition frame_answer :: "u8 \<Rightarrow> u8 list \<Rightarrow> u8 list" where
  "frame_answer opcode payload =
     (if opcode = 0x8 then control_frame 0x8 [] else if opcode = 0x9 then control_frame 0xA payload else [])"

definition willing :: "nat list \<Rightarrow> nat" where
  "willing accepts = sum_list (takeWhile (\<lambda>k. k \<noteq> 0) accepts)"

lemma answer_frame_bytes:
  "\<exists>accepts. answer_frame opcode payload s = (if opcode = 0x8 then kClosed else kHandled,
     s\<lparr>sk_accepts := accepts, sk_sent := sk_sent s @ take (willing (sk_accepts s)) (frame_answer opcode payload)\<rparr>)"
proof -
  consider "opcode = 0x8" | "opcode = 0x9" | "opcode \<noteq> 0x8" "opcode \<noteq> 0x9" by blast
  then show ?thesis
  proof cases
    case 3
    then show ?thesis by (intro exI [of _ "sk_accepts s"]) (simp add: answer_frame_def frame_answer_def)
  qed (use send_all_sends_prefix [of s "control_frame 0x8 []"] send_all_sends_prefix [of s "control_frame 0xA payload"]
      in \<open>auto simp: answer_frame_def frame_answer_def send_control_frame_def willing_def Let_def\<close>)
qed

lemma poll_ends:
  assumes "poll_run dump m c F T c'" and "in_poll (cl_pc c)"
  shows "in_poll (cl_pc c') \<or> cl_pc c' = CL_close \<or> cl_pc c' = CL_input"
  using assms
proof (induction rule: poll_run.induct)
  case (poll_steps F T c running ready mem c')
  then show ?case
    by (cases "cl_pc c") (auto simp: client_step_def after_payload_def Let_def split: sum.splits prod.splits option.splits if_splits)
qed simp_all

text \<open>
  C26. A client thread serves a frame. It polls in single \<open>recv\<close> and \<open>send\<close> calls while the peer sends and takes
  bytes as it likes in between; when what has come in is a masked frame as RFC 6455 writes it and more, no
  step of the poll fails, and when it is through the thread is on its way to close after a close frame and
  to its next message after any other, exactly the frame is gone from the stream, and a close frame has been
  answered with a close frame, a ping with a pong of the unmasked payload, any other frame with nothing, as far
  as the socket took the answer. (As in the code, no chunk may end inside the first two bytes, the
  extended length or the key.)
\<close>

theorem thread_serves_frame:
  assumes "poll_run dump max_alloc c F T c'" and "cl_pc c = CL_header"
    and "concat (sk_incoming (cl_socket c) @ F) =
      client_header fin opcode key (length payload) @ apply_mask key payload @ rest"
    and "after_fields (header_fields (length payload)) (sk_incoming (cl_socket c) @ F) = Some chunks"
    and "[] \<notin> set (sk_incoming (cl_socket c) @ F)"
    and "length key = 4" and "opcode < 16" and "length payload < 2 ^ 63" and "length payload \<le> max_alloc"
  shows "if in_poll (cl_pc c') then \<forall>running ready mem f. client_step dump max_alloc running ready mem c' \<noteq> Inl f
    else cl_pc c' = (if opcode = 0x8 then CL_close else CL_input) \<and> concat (sk_incoming (cl_socket c')) = rest \<and>
      sk_sent (cl_socket c') = sk_sent (cl_socket c) @
        take (willing (sk_accepts (cl_socket c) @ T)) (frame_answer opcode payload) \<and>
      cl_fd c' = cl_fd c \<and> cl_sequence c' = cl_sequence c \<and> cl_messages c' = cl_messages c"
proof -
  let ?s = "peer_acts F T (cl_socket c)"
  from poll_takes_frame [of ?s fin opcode key payload rest chunks max_alloc] assms(3-9) obtain incoming where
    rest: "concat incoming = rest"
    and poll: "poll_client_frame True max_alloc ?s = Inr (answer_frame opcode payload (?s\<lparr>sk_incoming := incoming\<rparr>))"
    by auto
  obtain accepts where answer: "answer_frame opcode payload (?s\<lparr>sk_incoming := incoming\<rparr>) =
      (if opcode = 0x8 then kClosed else kHandled, ?s\<lparr>sk_incoming := incoming, sk_accepts := accepts,
        sk_sent := sk_sent ?s @ take (willing (sk_accepts ?s)) (frame_answer opcode payload)\<rparr>)"
    using answer_frame_bytes [of opcode payload "?s\<lparr>sk_incoming := incoming\<rparr>"] by auto
  show ?thesis
  proof (cases "in_poll (cl_pc c')")
    case True
    have "rest_of_poll max_alloc (cl_pc c') (cl_socket c') = poll_client_frame True max_alloc ?s"
      using poll_run_rest [OF assms(1), of "[]" "[]"] assms(2) by simp
    with poll have "rest_of_poll max_alloc (cl_pc c') (cl_socket c') \<noteq> Inl e" for e by simp
    with poll_step_rest [OF True, of max_alloc dump] True show ?thesis by (fastforce split: sum.splits)
  next
    case False
    from poll_in_steps [OF assms(1,2) False] poll answer have "cl_pc c' = CL_close \<longleftrightarrow> opcode = 0x8"
      "cl_socket c' = ?s\<lparr>sk_incoming := incoming, sk_accepts := accepts,
        sk_sent := sk_sent ?s @ take (willing (sk_accepts ?s)) (frame_answer opcode payload)\<rparr>"
      by (simp_all split: if_splits)
    moreover have "cl_pc c' = CL_close \<or> cl_pc c' = CL_input" using poll_ends [OF assms(1)] assms(2) False by auto
    ultimately show ?thesis using False rest poll_keeps_client [OF assms(1)] by auto
  qed
qed

text \<open>A ping whose payload comes after the rest, and the pong.\<close>

theorem thread_serves_frame_witness:
  "\<exists>c'. poll_run (\<lambda>_. ''{}'') 10
      ((new_client 4 \<lparr>sk_incoming = [], sk_accepts = [9], sk_sent = []\<rparr>)\<lparr>cl_pc := CL_header\<rparr>)
      [[0x89, 0x81, 1, 2, 3, 4], [6]] [] c' \<and>
    cl_pc c' = CL_input \<and> sk_incoming (cl_socket c') = [] \<and> sk_sent (cl_socket c') = [0x8A, 1, 7]"
proof -
  let ?at = "\<lambda>inc acc sent pc. (new_client 4 \<lparr>sk_incoming = inc, sk_accepts = acc, sk_sent = sent\<rparr>)\<lparr>cl_pc := pc\<rparr>"
  let ?c = "?at [] [9] [] CL_header" and ?h = "[0x89, 0x81]" and ?f = "[0x89, 0x81, 1, 2, 3, 4]" and ?key = "[1, 2, 3, 4]"
  let ?run = "poll_run (\<lambda>_. ''{}'') 10 ?c" and ?step = "client_step (\<lambda>_. ''{}'') 10 True True new_memory_map"
  note step = client_waits_def client_step_def new_client_def
  have "?run [?f] [] (?at [?f] [9] [] CL_header)"
    using poll_peers [OF poll_starts, of "\<lambda>_. ''{}''" 10 ?c "[?f]" "[]"]
    by (simp add: client_peer_def peer_acts_def new_client_def)
  from poll_steps [OF this, of True True new_memory_map "?at [?key] [9] [] (CL_length ?h)"]
  have "?run [?f] [] (?at [?key] [9] [] (CL_length ?h))"
    by (simp add: step recv_array_def recv_def)
  from poll_steps [OF this, of True True new_memory_map "?at [?key] [9] [] (CL_mask ?h 1)"]
  have "?run [?f] [] (?at [?key] [9] [] (CL_mask ?h 1))"
    by (simp add: step recv_length_def frame_length7_def)
  from poll_steps [OF this, of True True new_memory_map "?at [] [9] [] (CL_alloc ?h 1 ?key)"]
  have "?run [?f] [] (?at [] [9] [] (CL_alloc ?h 1 ?key))"
    by (simp add: step recv_mask_def frame_masked_def recv_def)
  from poll_steps [OF this, of True True new_memory_map "?at [] [9] [] (CL_payload ?h ?key 1 [])"]
  have "?run [?f] [] (?at [] [9] [] (CL_payload ?h ?key 1 []))"
    by (simp add: step)
  from poll_peers [OF this, of "[[6]]" "[]"]
  have "?run [?f, [6]] [] (?at [[6]] [9] [] (CL_payload ?h ?key 1 []))"
    by (simp add: client_peer_def peer_acts_def new_client_def)
  from poll_steps [OF this, of True True new_memory_map "?at [] [9] [] (CL_payload ?h ?key 1 [6])"]
  have "?run [?f, [6]] [] (?at [] [9] [] (CL_payload ?h ?key 1 [6]))"
    by (simp add: step recv_def)
  from poll_steps [OF this, of True True new_memory_map "?at [] [9] [] (CL_answer False [0x8A, 1, 7])"]
  have "?run [?f, [6]] [] (?at [] [9] [] (CL_answer False [0x8A, 1, 7]))"
    by (simp add: step after_payload_def frame_opcode_def frame_masked_def control_frame_def unmask_def)
  from poll_steps [OF this, of True True new_memory_map "?at [] [] [0x8A, 1, 7] (CL_answer False [])"]
  have "?run [?f, [6]] [] (?at [] [] [0x8A, 1, 7] (CL_answer False []))"
    by (simp add: step send_def Let_def)
  from poll_steps [OF this, of True True new_memory_map "?at [] [] [0x8A, 1, 7] CL_input"]
  have run: "?run [?f, [6]] [] (?at [] [] [0x8A, 1, 7] CL_input)" by (simp add: step Let_def)
  have "length_field 1 = (1, [])" by (simp add: length_field_def)
  with thread_serves_frame [OF run, where fin = True and opcode = 9 and key = ?key and payload = "[7]" and rest = "[]"
      and chunks = "[[6]]"]
  have "sk_sent (cl_socket (?at [] [] [0x8A, 1, 7] CL_input)) = take 9 (frame_answer 9 [7])"
    by (simp add: client_header_def header_fields_def new_client_def word_less_nat_alt willing_def)
  with run show ?thesis by (intro exI [of _ "?at [] [] [0x8A, 1, 7] CL_input"]) (simp add: new_client_def)
qed

text \<open>
  C27. A greeting that is cut at every byte, with the client sending as slowly as it likes, is the handshake
  on all the bytes that have come in: a client that gets its thread has been sent exactly the reply of
  the handshake, and one that is given up made no valid request or did not take the reply. A greeting that
  meets neither obstacle runs through: wherever it is, and without waiting for more of the client, its
  remaining steps end in the client's thread with the whole reply sent.
\<close>

theorem greeting_in_steps:
  assumes "greeting_run (AC_greet c sock []) F T r"
  shows "(\<forall>s'. r = Some (AC_push c s') \<longrightarrow>
      (\<exists>reply. handshake (text_of (available (peer_acts F T sock))) = Some reply \<and>
        sk_sent s' = sk_sent sock @ bytes_of reply)) \<and>
    (r = None \<longrightarrow>
      (case handshake (text_of (available (peer_acts F T sock))) of
         None \<Rightarrow> True
       | Some reply \<Rightarrow> willing (sk_accepts sock @ T) < length reply)) \<and>
    (\<forall>reply. handshake (text_of (available (peer_acts F T sock))) = Some reply \<and>
        length reply \<le> willing (sk_accepts sock @ T) \<longrightarrow>
      (\<exists>pc s'. r = Some pc \<and> greeting_run pc [] [] (Some (AC_push c s')) \<and>
        sk_sent s' = sk_sent sock @ bytes_of reply))"
proof -
  let ?s = "peer_acts F T sock"
  have rest: "case r of None \<Rightarrow> \<not> fst (greet_client ?s)
      | Some pc \<Rightarrow> rest_of_greeting pc = Some (greet_client ?s)"
    using greeting_run_rest [OF assms, of "[]" "[]"]
    by (auto simp: rest_of_greeting_start simp del: rest_of_greeting.simps split: option.splits)
  obtain incoming where greet: "greet_client ?s =
      (case handshake (text_of (available ?s)) of None \<Rightarrow> (False, ?s\<lparr>sk_incoming := incoming\<rparr>)
       | Some reply \<Rightarrow> send_all (?s\<lparr>sk_incoming := incoming\<rparr>) (bytes_of reply))"
    using greet_client_handshake by blast
  let ?s' = "?s\<lparr>sk_incoming := incoming\<rparr>"
  have sent: "fst (send_all s data) = (length data \<le> willing (sk_accepts s))"
    "fst (send_all s data) \<Longrightarrow> sk_sent (snd (send_all s data)) = sk_sent s @ data" for s data
    using send_all_sends_prefix [of s data] by (auto simp: Let_def willing_def)
  have greeted: "\<exists>reply. handshake (text_of (available ?s)) = Some reply \<and> sk_sent s' = sk_sent sock @ bytes_of reply"
    if "greet_client ?s = (True, s')" for s'
  proof -
    from greet that obtain reply where reply: "handshake (text_of (available ?s)) = Some reply"
      by (cases "handshake (text_of (available ?s))") simp_all
    with greet that have "send_all ?s' (bytes_of reply) = (True, s')" by simp
    with reply sent(2) [of ?s' "bytes_of reply"] show ?thesis by simp
  qed
  show ?thesis
  proof (intro conjI allI impI)
    fix s' assume "r = Some (AC_push c s')"
    with rest have "greet_client ?s = (True, s')" by simp
    then show "\<exists>reply. handshake (text_of (available ?s)) = Some reply \<and> sk_sent s' = sk_sent sock @ bytes_of reply"
      by (rule greeted)
  next
    assume "r = None"
    with rest greet sent(1) show "case handshake (text_of (available ?s)) of None \<Rightarrow> True
       | Some reply \<Rightarrow> willing (sk_accepts sock @ T) < length reply"
      by (auto split: option.splits)
  next
    fix reply assume fine: "handshake (text_of (available ?s)) = Some reply \<and> length reply \<le> willing (sk_accepts sock @ T)"
    with greet sent(1) [of ?s' "bytes_of reply"] have "fst (greet_client ?s)" by simp
    then obtain s' where s': "greet_client ?s = (True, s')" by (cases "greet_client ?s") simp
    with rest obtain pc where pc: "r = Some pc" "rest_of_greeting pc = Some (True, s')" by (cases r) simp_all
    then have "greeting_run pc [] [] (Some (AC_push c s'))"
      using greeting_runs_through greeting_run_fd [OF assms] by blast
    with pc(1) greeted [OF s'] fine show "\<exists>pc s'. r = Some pc \<and> greeting_run pc [] [] (Some (AC_push c s')) \<and>
        sk_sent s' = sk_sent sock @ bytes_of reply" by auto
  qed
qed

theorem greeting_in_steps_witness:
  "\<exists>s'. greeting_run (AC_greet 4 (demo_socket []) []) [] [] (Some (AC_push 4 s')) \<and>
     sk_sent s' = bytes_of (upgrade_response ''abc='')"
proof -
  from demo_greeted obtain s' where "greet_client (demo_socket []) = (True, s')" by blast
  from greeting_run_greets [OF this] have run: "greeting_run (AC_greet 4 (demo_socket []) []) [] [] (Some (AC_push 4 s'))" .
  have "text_of (available (demo_socket [])) = example_request"
    by (simp add: available_def demo_socket_def example_request_def crlf_def)
  with greeting_in_steps [OF run] demo_handshake run show ?thesis by (auto simp: demo_socket_def)
qed

end
