(* ===== verification/Telemetry_System.thy ===== *)
theory Telemetry_System
  imports Telemetry_Calls
begin

text \<open>
  The telemetry server as a system of threads: which descriptors are open and who owns them, what a
  client is sent, how the threads come to an end after \<open>stop\<close>, how a client can keep them from it, and the
  race on \<open>listen_socket_\<close>.
\<close>

section \<open>Who holds which descriptor\<close>

fun held_by_acceptor :: "accept_pc \<Rightarrow> nat list" where
  "held_by_acceptor (AC_check (Some (c, sock))) = [c]"
| "held_by_acceptor (AC_greet c sock request) = [c]"
| "held_by_acceptor (AC_reply c sock rest) = [c]"
| "held_by_acceptor (AC_push c sock) = [c]"
| "held_by_acceptor _ = []"

definition held_by_clients :: "client list \<Rightarrow> nat list" where
  "held_by_clients cs = map cl_fd (filter (\<lambda>c. cl_pc c \<noteq> CL_done) cs)"

definition held_listen :: "telemetry_server \<Rightarrow> nat list" where
  "held_listen s =
     (if ts_owner s = ST_free \<or> ts_owner s = ST_cleared then
        (case ts_listen s of None \<Rightarrow> [] | Some fd \<Rightarrow> [fd]) else [])"

definition held :: "telemetry_server \<Rightarrow> nat list" where
  "held s = held_listen s @ held_by_acceptor (ts_acceptor s) @ held_by_clients (ts_clients s)"

definition message_ok :: "u64 \<times> u8 list \<times> u8 list \<Rightarrow> bool" where
  "message_ok m \<longleftrightarrow> length (fst (snd m)) = area_bytes Input \<and> length (snd (snd m)) = area_bytes Output"

fun at_message :: "client_pc \<Rightarrow> nat \<Rightarrow> bool" where
  "at_message (CL_output n xs) k \<longleftrightarrow> n = of_nat k \<and> length xs = area_bytes Input"
| "at_message (CL_send n xs ys) k \<longleftrightarrow> n = of_nat k \<and> length xs = area_bytes Input \<and> length ys = area_bytes Output"
| "at_message _ k \<longleftrightarrow> True"

fun taken_number :: "client_pc \<Rightarrow> nat" where
  "taken_number (CL_output n xs) = 1"
| "taken_number (CL_send n xs ys) = 1"
| "taken_number _ = 0"

definition client_ok :: "client \<Rightarrow> bool" where
  "client_ok c \<longleftrightarrow>
     map fst (cl_messages c) = map of_nat [0..<length (cl_messages c)] \<and>
     list_all message_ok (cl_messages c) \<and>
     cl_sequence c = of_nat (length (cl_messages c) + taken_number (cl_pc c)) \<and>
     at_message (cl_pc c) (length (cl_messages c))"

definition tm_inv :: "telemetry_server \<Rightarrow> bool" where
  "tm_inv s \<longleftrightarrow>
     ts_open s = set (held s) \<and> distinct (held s) \<and>
     (ts_owner s = ST_free \<and> \<not> ts_running s \<longrightarrow>
        ts_listen s = None \<and> ts_acceptor s = AC_none \<and> ts_clients s = []) \<and>
     (ts_owner s \<noteq> ST_free \<longrightarrow> \<not> ts_running s) \<and>
     (ts_acceptor s = AC_none \<longleftrightarrow> ts_owner s = ST_joined \<or> ts_owner s = ST_free \<and> \<not> ts_running s) \<and>
     (ts_acceptor s = AC_done \<longrightarrow> \<not> ts_running s) \<and>
     (ts_owner s = ST_reset \<or> ts_owner s = ST_joined \<longrightarrow> ts_listen s = None) \<and>
     list_all client_ok (ts_clients s)"

lemma held_by_clients_simps [simp]:
  "held_by_clients [] = []"
  "held_by_clients (xs @ ys) = held_by_clients xs @ held_by_clients ys"
  "held_by_clients (c # xs) = (if cl_pc c = CL_done then [] else [cl_fd c]) @ held_by_clients xs"
  by (simp_all add: held_by_clients_def)

lemma new_client_simps [simp]: "cl_fd (new_client fd s) = fd" "cl_pc (new_client fd s) = CL_test" "client_ok (new_client fd s)"
  by (simp_all add: new_client_def client_ok_def)

lemma client_ok_network: "client_ok (c\<lparr>cl_socket := s\<rparr>) = client_ok c"
  by (simp add: client_ok_def)

lemma client_ok_quiet:
  "client_ok c \<Longrightarrow> at_message (cl_pc c) = at_message pc \<Longrightarrow> taken_number (cl_pc c) = taken_number pc \<Longrightarrow>
   client_ok (c\<lparr>cl_socket := s, cl_pc := pc\<rparr>) \<and> client_ok (c\<lparr>cl_pc := pc\<rparr>)"
  by (simp add: client_ok_def)

lemma after_payload_quiet [simp]:
  "at_message (after_payload h key received) = (\<lambda>k. True)" "taken_number (after_payload h key received) = 0"
  "after_payload h key received \<noteq> CL_done"
  by (auto simp: after_payload_def Let_def)

lemma client_step_ok:
  assumes "client_step dump max_alloc running ready mem c = Inr c'" and "valid_memory mem" and "client_ok c"
  shows "client_ok c' \<and> cl_fd c' = cl_fd c \<and> (cl_pc c \<noteq> CL_done \<longrightarrow> (cl_pc c' = CL_done) = (cl_pc c = CL_close))"
proof (cases "cl_pc c")
  case (CL_output n xs)
  with assms show ?thesis by (auto simp: client_step_def memory_call_def client_ok_def)
next
  case (CL_send n xs ys)
  with assms show ?thesis by (auto simp: client_step_def client_ok_def message_ok_def)
next
  case CL_input
  with assms show ?thesis by (auto simp: client_step_def client_ok_def memory_call_def)
qed (use assms in \<open>auto simp: client_step_def client_ok_quiet fun_eq_iff Let_def
  split: if_splits sum.splits option.splits prod.splits\<close>)

lemma held_listen_simps [simp]:
  "held_listen (s\<lparr>ts_clients := cs\<rparr>) = held_listen s"
  "held_listen (s\<lparr>ts_acceptor := pc\<rparr>) = held_listen s"
  "held_listen (s\<lparr>ts_open := fds\<rparr>) = held_listen s"
  "held_listen (s\<lparr>ts_running := b\<rparr>) = held_listen s"
  "held_listen (s\<lparr>ts_errors := es\<rparr>) = held_listen s"
  "ts_owner s = ST_free \<Longrightarrow> held_listen (s\<lparr>ts_listen := Some fd\<rparr>) = [fd]"
  "ts_owner s = ST_free \<Longrightarrow> held_listen (s\<lparr>ts_owner := ST_cleared\<rparr>) = held_listen s"
  "st \<noteq> ST_free \<Longrightarrow> st \<noteq> ST_cleared \<Longrightarrow> held_listen (s\<lparr>ts_owner := st\<rparr>) = []"
  "ts_owner s \<noteq> ST_free \<Longrightarrow> ts_owner s \<noteq> ST_cleared \<Longrightarrow> held_listen s = []"
  "ts_listen s = None \<Longrightarrow> held_listen s = []"
  by (simp_all add: held_listen_def)

lemma held_listen_set:
  "ts_owner s = ST_free \<or> ts_owner s = ST_cleared \<Longrightarrow> set (held_listen s) = set_option (ts_listen s)"
  by (cases "ts_listen s") (auto simp: held_listen_def)

lemma tm_own_inv: "tm_own dump max_alloc mem s t \<Longrightarrow> valid_memory mem \<Longrightarrow> tm_inv s \<Longrightarrow> tm_inv t"
proof (induction rule: tm_own.induct)
  case (client_acts s xs c ys ready c')
  then have ok: "client_ok c" by (simp add: tm_inv_def)
  from client_step_ok [OF client_acts(4,5) this] client_acts(1,2,6) show ?case
    by (auto simp: tm_inv_def held_def)
next
  case (greets s c)
  then show ?case
    by (cases "ts_acceptor s") (auto simp: tm_inv_def held_def Let_def split: prod.split)
next
  case (stop_closes s)
  then show ?case using held_listen_set [of s] by (auto simp: tm_inv_def held_def)
next
  case (stop_clears s)
  then have "held_by_clients (ts_clients s) = []" by (simp add: held_by_clients_def)
  with stop_clears show ?case by (auto simp: tm_inv_def held_def)
qed (auto simp: tm_inv_def held_def split: if_splits)

lemma tm_start_inv:
  assumes "ts_owner s = ST_free" and "set_option (net_socket net) \<inter> ts_open s = {}" and "tm_inv s"
  shows "tm_inv (telemetry_start net s)"
proof (cases "ts_running s")
  case True
  with assms(3) show ?thesis by (simp add: telemetry_start_def)
next
  case False
  with assms have s: "ts_listen s = None" "ts_acceptor s = AC_none" "ts_clients s = []" "ts_open s = {}"
    by (auto simp: tm_inv_def held_def)
  have errors: "tm_inv (s\<lparr>ts_errors := es\<rparr>)" for es using assms(3) by (simp add: tm_inv_def held_def)
  show ?thesis
  proof (cases "net_socket net")
    case None
    with False errors show ?thesis by (simp add: telemetry_start_def Let_def)
  next
    case (Some fd)
    have "tm_inv (s\<lparr>ts_open := insert fd (ts_open s), ts_listen := Some fd, ts_running := True,
        ts_acceptor := AC_test\<rparr>)"
      using assms(1) s by (simp add: tm_inv_def held_def)
    with Some False errors show ?thesis by (simp add: telemetry_start_def Let_def)
  qed
qed

lemma tm_env_inv: "tm_env s t \<Longrightarrow> tm_inv s \<Longrightarrow> tm_inv t"
proof (induction rule: tm_env.induct)
  case (owner_starts s net)
  then show ?case by (rule tm_start_inv)
next
  case (network s xs c ys chunks taken)
  let ?t = "s\<lparr>ts_clients := xs @ c\<lparr>cl_socket := peer_acts chunks taken (cl_socket c)\<rparr> # ys\<rparr>"
  have "held ?t = held s" by (simp add: held_def network(1))
  with network show ?case unfolding tm_inv_def by (simp add: client_ok_network)
next
  case (owner_stops s)
  then show ?case by (simp add: tm_inv_def held_def)
qed (simp_all add: tm_inv_def held_def)

lemma tm_reach_inv: "tm_reach dump max_alloc port s \<Longrightarrow> tm_inv s"
proof (induction rule: tm_reach.induct)
  case tm_new
  show ?case by (simp add: tm_inv_def TelemetryServer_def held_def held_listen_def)
qed (auto intro: tm_env_inv tm_own_inv)

section \<open>How long the reply is\<close>

lemma length_base64_from: "length (base64_from data i) = 4 * ((length data - i + 2) div 3)"
proof (induction data i rule: base64_from.induct)
  case (1 data i)
  consider "i + 3 \<le> length data" | "length data - i = 1" | "length data - i = 2" | "length data \<le> i"
    by linarith
  then show ?case
  proof cases
    case 1
    then have "length data - i + 2 = (length data - (i + 3) + 2) + 3" by simp
    then have "(length data - i + 2) div 3 = Suc ((length data - (i + 3) + 2) div 3)" by (simp only: div_add_self2)
    with 1 "1.IH" show ?thesis by (subst base64_from.simps) (simp add: Let_def)
  qed (subst base64_from.simps, simp add: Let_def)+
qed

lemma length_upgrade_response: "length (upgrade_response key) = 129"
proof -
  have "length (sha1 data) = 20" for data
    by (simp add: sha1_def be_bytes_to_be split: prod.split)
  then show ?thesis
    by (simp add: upgrade_response_def accept_key_def base64_encode_def length_base64_from crlf_def)
qed

section \<open>What is left to do after \<open>stop\<close>\<close>

text \<open>
  Steps left, where \<open>F\<close> bounds the frames of telemetry messages and \<open>m\<close> the payloads that can be
  allocated: a byte of a frame or of a request costs one step at most.
\<close>

fun client_left :: "nat \<Rightarrow> nat \<Rightarrow> client_pc \<Rightarrow> nat" where
  "client_left F m CL_done = 0"
| "client_left F m CL_close = 1"
| "client_left F m CL_test = 2"
| "client_left F m CL_sleep = 3"
| "client_left F m (CL_sending rest) = 4 + length rest"
| "client_left F m (CL_send n xs ys) = 5 + F"
| "client_left F m (CL_output n xs) = 6 + F"
| "client_left F m CL_input = 7 + F"
| "client_left F m (CL_answer closing rest) = 8 + F + length rest"
| "client_left F m (CL_payload h key wanted received) =
     11 + F + max wanted (length received) + (wanted - length received)"
| "client_left F m (CL_alloc h len key) = 12 + F + 2 * m"
| "client_left F m (CL_mask h len) = 13 + F + 2 * m"
| "client_left F m (CL_length h) = 14 + F + 2 * m"
| "client_left F m CL_header = 15 + F + 2 * m"
| "client_left F m CL_poll = 16 + F + 2 * m"

fun accept_left :: "accept_pc \<Rightarrow> nat" where
  "accept_left AC_none = 0"
| "accept_left AC_done = 0"
| "accept_left AC_test = 1"
| "accept_left (AC_push c sock) = 4"
| "accept_left (AC_reply c sock rest) = 5 + length rest"
| "accept_left (AC_greet c sock request) = 135 + (8192 - length request)"
| "accept_left (AC_check x) = 8328"
| "accept_left (AC_accept fd) = 8329"
| "accept_left (AC_select x) = 8330"
| "accept_left AC_listen = 8331"

fun stop_left :: "stop_pc \<Rightarrow> nat" where
  "stop_left ST_free = 0"
| "stop_left ST_joined = 1"
| "stop_left ST_reset = 2"
| "stop_left ST_closed = 3"
| "stop_left ST_cleared = 4"

definition clients_left :: "nat \<Rightarrow> nat \<Rightarrow> client list \<Rightarrow> nat" where
  "clients_left F m cs = sum_list (map (\<lambda>c. client_left F m (cl_pc c)) cs)"

definition server_left :: "nat \<Rightarrow> nat \<Rightarrow> telemetry_server \<Rightarrow> nat" where
  "server_left F m s = accept_left (ts_acceptor s) + clients_left F m (ts_clients s) + stop_left (ts_owner s)"

definition frames_bounded :: "(json \<Rightarrow> string) \<Rightarrow> nat \<Rightarrow> bool" where
  "frames_bounded dump F \<longleftrightarrow>
     (\<forall>n xs ys. length xs = area_bytes Input \<and> length ys = area_bytes Output \<longrightarrow>
        length (text_frame (bytes_of (dump (telemetry_message n xs ys)))) \<le> F)"

text \<open>A thread of the server waits for the peer of its socket.\<close>

definition awaits_peer :: "telemetry_server \<Rightarrow> bool" where
  "awaits_peer s \<longleftrightarrow> accept_waits (ts_acceptor s) \<or> (\<exists>c\<in>set (ts_clients s). client_waits c)"

lemma clients_left_simps [simp]:
  "clients_left F m [] = 0"
  "clients_left F m (xs @ ys) = clients_left F m xs + clients_left F m ys"
  "clients_left F m (c # xs) = client_left F m (cl_pc c) + clients_left F m xs"
  by (simp_all add: clients_left_def)

lemma length_recv: "length (fst (recv s n)) \<le> n"
  by (simp add: recv_def split: list.split)

lemma length_control_frame: "length (control_frame opcode payload) = 2 + length payload"
  by (simp add: control_frame_def)

lemma length_unmask [simp]: "length (unmask key payload) = length payload"
  by (simp add: unmask_def)

lemma after_payload_left: "client_left F m (after_payload h key received) \<le> 10 + F + length received"
  by (simp add: after_payload_def Let_def length_control_frame)

lemma client_step_left:
  assumes "client_step dump m False ready mem c = Inr c'" and "cl_pc c \<noteq> CL_done"
    and "frames_bounded dump F" and "client_ok c"
  shows "client_left F m (cl_pc c') < client_left F m (cl_pc c)"
proof (cases "cl_pc c")
  case (CL_send n xs ys)
  with assms(1,3,4) show ?thesis by (auto simp: client_step_def frames_bounded_def client_ok_def less_Suc_eq_le)
next
  case (CL_payload h key wanted received)
  obtain bs s where r: "recv (cl_socket c) (wanted - length received) = (bs, s)" by fastforce
  with length_recv [of "cl_socket c" "wanted - length received"] have "length bs \<le> wanted - length received" by simp
  then have le: "length bs \<le> wanted - length received" .
  have "wanted - (length received + length bs) < wanted - length received"
    if "bs \<noteq> []" "length received < wanted"
  proof -
    have "0 < length bs" using that(1) by simp
    then show ?thesis using le that(2) by linarith
  qed
  moreover have "max wanted (length received + length bs) = max wanted (length received)" using le by linarith
  ultimately have more: "bs \<noteq> [] \<Longrightarrow> length received < wanted \<Longrightarrow>
      wanted - (length received + length bs) < wanted - length received"
    and "max wanted (length received + length bs) = max wanted (length received)" by blast+
  then show ?thesis
    using CL_payload assms(1) r after_payload_left [of F m h key received]
    by (auto simp: client_step_def less_Suc_eq_le simp del: max.absorb1 max.absorb2 split: if_splits)
next
  case (CL_answer closing rest)
  with assms(1) show ?thesis
    by (cases rest) (auto simp: client_step_def Let_def split: if_splits prod.splits)
next
  case (CL_sending rest)
  with assms(1) show ?thesis
    by (cases rest) (auto simp: client_step_def split: if_splits prod.splits)
qed (use assms(1,2) in \<open>auto simp: client_step_def memory_call_def
  split: sum.splits prod.splits if_splits option.splits\<close>)

lemma greet_step_left:
  assumes "greeted pc \<noteq> None"
  shows "case greet_step pc of None \<Rightarrow> 1 < accept_left pc | Some pc' \<Rightarrow> accept_left pc' < accept_left pc"
proof (cases pc)
  case (AC_greet c sock request)
  obtain bs s where r: "recv sock 1 = (bs, s)" by fastforce
  with length_recv [of sock 1] have "bs = [] \<or> length bs = 1" by (cases bs) simp_all
  with AC_greet r show ?thesis by (auto simp: Let_def length_upgrade_response request_complete_def)
next
  case (AC_reply c sock rest)
  then show ?thesis by (cases rest) (auto split: prod.split)
qed (use assms in simp_all)

lemma tm_own_left:
  assumes "tm_own dump m mem s t" and "\<not> ts_running s" and "frames_bounded dump F" and "list_all client_ok (ts_clients s)"
  shows "server_left F m t < server_left F m s"
  using assms
proof (induction rule: tm_own.induct)
  case (client_acts s xs c ys ready c')
  then have "client_step dump m False ready mem c = Inr c'" and "client_ok c" by simp_all
  from client_step_left [OF this(1) client_acts(2) client_acts(6) this(2)] show ?case
    using client_acts(1) by (simp add: server_left_def)
next
  case (greets s c)
  then have "greeted (ts_acceptor s) \<noteq> None" by simp
  from greet_step_left [OF this] show ?case
    by (cases "greet_step (ts_acceptor s)") (simp_all add: server_left_def)
qed (auto simp: server_left_def)

lemma tm_own_progress:
  assumes "tm_inv s" and "ts_owner s \<noteq> ST_free"
  shows "(\<exists>t. tm_own dump m mem s t) \<or> (\<exists>f. tm_fails dump m mem s f) \<or> awaits_peer s"
proof (cases "\<exists>c\<in>set (ts_clients s). cl_pc c \<noteq> CL_done")
  case True
  then obtain c xs ys where c: "ts_clients s = xs @ c # ys" "cl_pc c \<noteq> CL_done" by (metis split_list)
  show ?thesis
  proof (cases "client_waits c")
    case True
    with c(1) have "awaits_peer s" by (auto simp: awaits_peer_def)
    then show ?thesis by blast
  next
    case ready: False
    show ?thesis
    proof (cases "client_step dump m (ts_running s) False mem c")
      case (Inl f)
      then show ?thesis using client_fails [of c s] c ready by fastforce
    next
      case (Inr c')
      then show ?thesis using client_acts [OF c ready] by blast
    qed
  qed
next
  case clients: False
  have greet: ?thesis if "greeted (ts_acceptor s) = Some c" for c
  proof (cases "accept_waits (ts_acceptor s)")
    case True
    then show ?thesis by (simp add: awaits_peer_def)
  next
    case False
    from greets [OF that this] show ?thesis by blast
  qed
  show ?thesis
  proof (cases "ts_owner s")
    case ST_reset
    with assms(1) have "ts_acceptor s \<noteq> AC_none" by (simp add: tm_inv_def)
    then show ?thesis
    proof (cases "ts_acceptor s")
      case (AC_select x)
      then show ?thesis by (cases x) (blast intro: select_fails accept_timeout)+
    next
      case (AC_check x)
      then show ?thesis by (cases x) (auto intro: check_none check_client)
    next
      case (AC_greet c sock request)
      then show ?thesis by (intro greet) simp
    next
      case (AC_reply c sock rest)
      then show ?thesis by (intro greet) simp
    next
      case AC_done
      with ST_reset show ?thesis by (blast intro: stop_joins)
    qed (blast intro: accept_test accept_listen accept_none pushes)+
  next
    case ST_joined
    with clients show ?thesis by (blast intro: stop_clears)
  qed (use assms(2) in \<open>blast intro: stop_closes stop_resets\<close>)+
qed

section \<open>Runs\<close>

text \<open>A server just started, a client accepted, and rounds of a client's loop, as reachable states.\<close>

definition started_server :: "int \<Rightarrow> telemetry_server" where
  "started_server port =
     telemetry_start \<lparr>net_socket = Some 3, net_bind = (\<lambda>_. True), net_listen = True\<rparr> (TelemetryServer port)"

lemma started_server_eq: "started_server port = (TelemetryServer port)\<lparr>ts_open := {3}, ts_listen := Some 3,
    ts_running := True, ts_acceptor := AC_test\<rparr>"
  by (simp add: started_server_def telemetry_start_def TelemetryServer_def)

lemma started_server_simps [simp]:
  "ts_owner (started_server port) = ST_free" "ts_running (started_server port)" "ts_listen (started_server port) = Some 3"
  "ts_open (started_server port) = {3}" "ts_acceptor (started_server port) = AC_test"
  "ts_clients (started_server port) = []"
  by (simp_all add: started_server_eq TelemetryServer_def)

lemma reach_started: "tm_reach dump max_alloc port (started_server port)"
  unfolding started_server_def
  by (rule tm_env_step [OF tm_new owner_starts]) (simp_all add: TelemetryServer_def)

lemma reach_greeting:
  assumes "greeting_run pc0 F T r" and "tm_reach dump max_alloc port (s\<lparr>ts_acceptor := pc0\<rparr>)"
  shows "case r of None \<Rightarrow> True | Some pc \<Rightarrow> tm_reach dump max_alloc port (s\<lparr>ts_acceptor := pc\<rparr>)"
  using assms
proof (induction rule: greeting_run.induct)
  case (greeting_steps F T pc)
  then obtain c where "greeted pc = Some c" by auto
  with greets [of "s\<lparr>ts_acceptor := pc\<rparr>" c] greeting_steps show ?case
    by (auto split: option.split intro: tm_own_step [OF _ valid_new_memory_map])
next
  case (greeting_peers F T pc chunks taken)
  from greeting_peers(2) show ?case
    by (cases pc) (use greeting_peers network_request [of "s\<lparr>ts_acceptor := pc\<rparr>"]
      network_reply [of "s\<lparr>ts_acceptor := pc\<rparr>"] in \<open>auto intro: tm_env_step\<close>)
qed simp

lemma reach_greet:
  assumes "tm_reach dump max_alloc port s" and "ts_acceptor s = AC_test" and "ts_running s"
    and "ts_listen s = Some fd" and "fd \<in> ts_open s" and "c \<notin> ts_open s"
  shows "tm_reach dump max_alloc port (s\<lparr>ts_open := insert c (ts_open s), ts_acceptor := AC_greet c sock []\<rparr>)"
proof -
  let ?go = "\<lambda>pc. s\<lparr>ts_acceptor := pc\<rparr>" and ?more = "\<lambda>pc. s\<lparr>ts_open := insert c (ts_open s), ts_acceptor := pc\<rparr>"
  from assms(1) have "tm_reach dump max_alloc port (?go AC_listen)"
    using accept_test [OF assms(2)] assms(3) by (auto intro: tm_own_step [OF _ valid_new_memory_map])
  then have "tm_reach dump max_alloc port (?go (AC_select (Some fd)))"
    using accept_listen [of "?go AC_listen"] assms(4) by (auto intro: tm_own_step [OF _ valid_new_memory_map])
  then have "tm_reach dump max_alloc port (?go (AC_accept fd))"
    using accept_ready [of "?go (AC_select (Some fd))"] assms(5) by (auto intro: tm_own_step [OF _ valid_new_memory_map])
  then have "tm_reach dump max_alloc port (?more (AC_check (Some (c, sock))))"
    using accept_client [of "?go (AC_accept fd)" fd c] assms(5,6) by (auto intro: tm_own_step [OF _ valid_new_memory_map])
  then show ?thesis
    using check_client [of "?more (AC_check (Some (c, sock)))"] assms(3) by (auto intro: tm_own_step [OF _ valid_new_memory_map])
qed

lemma reach_client:
  assumes "tm_reach dump max_alloc port s" and "ts_acceptor s = AC_test" and "ts_running s"
    and "ts_listen s = Some fd" and "fd \<in> ts_open s" and "c \<notin> ts_open s"
    and "greet_client sock = (True, sock')"
  shows "tm_reach dump max_alloc port (s\<lparr>ts_open := insert c (ts_open s),
    ts_acceptor := AC_test, ts_clients := ts_clients s @ [new_client c sock']\<rparr>)"
proof -
  let ?more = "\<lambda>pc. s\<lparr>ts_open := insert c (ts_open s), ts_acceptor := pc\<rparr>"
  from reach_greeting [OF greeting_run_greets [OF assms(7), of c], of dump max_alloc port "?more AC_test"]
    reach_greet [OF assms(1-6)]
  have "tm_reach dump max_alloc port (?more (AC_push c sock'))" by simp
  then show ?thesis
    using pushes [of "?more (AC_push c sock')"] by (auto intro: tm_own_step [OF _ valid_new_memory_map])
qed

lemma reach_client_step:
  assumes "tm_reach dump max_alloc port s" and "ts_clients s = [c]" and "valid_memory mem"
    and "client_step dump max_alloc (ts_running s) ready mem c = Inr c'"
    and "cl_pc c \<noteq> CL_done" and "cl_pc c \<noteq> CL_close" and "\<not> client_waits c"
  shows "tm_reach dump max_alloc port (s\<lparr>ts_clients := [c']\<rparr>)"
  using client_acts [of s "[]" c "[]" dump max_alloc ready mem c'] assms by (auto intro: tm_own_step)

text \<open>A round of the loop of a client that sends nothing; the two areas are read at different moments.\<close>

definition client_round ::
  "(json \<Rightarrow> string) \<Rightarrow> nat \<Rightarrow> memory_map \<Rightarrow> memory_map \<Rightarrow> client \<Rightarrow> telemetry_failure + client" where
  "client_round dump max_alloc mi mq c =
     (let go = client_step dump max_alloc True False in
      res_bind (go mi c) (\<lambda>c. res_bind (go mi c) (\<lambda>c. res_bind (go mi c) (\<lambda>c.
      res_bind (go mq c) (\<lambda>c. res_bind (go mq c) (\<lambda>c. res_bind (go mq c) (\<lambda>c. res_bind (go mq c) (go mq))))))))"

fun client_rounds ::
  "(json \<Rightarrow> string) \<Rightarrow> nat \<Rightarrow> (memory_map \<times> memory_map) list \<Rightarrow> client \<Rightarrow> telemetry_failure + client" where
  "client_rounds dump max_alloc [] c = Inr c"
| "client_rounds dump max_alloc ((mi, mq) # ms) c =
     res_bind (client_round dump max_alloc mi mq c) (client_rounds dump max_alloc ms)"

definition message_frame :: "(json \<Rightarrow> string) \<Rightarrow> u64 \<Rightarrow> memory_map \<times> memory_map \<Rightarrow> u8 list" where
  "message_frame dump sequence m =
     text_frame (bytes_of (dump (telemetry_message sequence (get_area (fst m) Input) (get_area (snd m) Output))))"

fun message_frames :: "(json \<Rightarrow> string) \<Rightarrow> u64 \<Rightarrow> (memory_map \<times> memory_map) list \<Rightarrow> u8 list list" where
  "message_frames dump sequence [] = []"
| "message_frames dump sequence (m # ms) = message_frame dump sequence m # message_frames dump (sequence + 1) ms"

lemma text_frame_nonempty [simp]: "text_frame payload \<noteq> []"
  by (simp add: text_frame_def Let_def)

lemma client_round_sends:
  assumes "cl_pc c = CL_test" and "valid_memory mi" and "valid_memory mq"
    and "sk_accepts (cl_socket c) = length (message_frame dump (cl_sequence c) (mi, mq)) # ks"
  shows "client_round dump max_alloc mi mq c =
    Inr (c\<lparr>cl_socket := (cl_socket c)\<lparr>sk_accepts := ks,
             sk_sent := sk_sent (cl_socket c) @ message_frame dump (cl_sequence c) (mi, mq)\<rparr>,
           cl_sequence := cl_sequence c + 1,
           cl_messages := cl_messages c @ [(cl_sequence c, get_area mi Input, get_area mq Output)]\<rparr>)"
  using assms
  by (simp add: client_round_def client_step_def memory_call_def message_frame_def send_def Let_def)

text \<open>The server with one client that is being sent its first message.\<close>

lemma demo_sending:
  "\<exists>c inputs outputs. tm_reach dump max_alloc port
      ((started_server port)\<lparr>ts_open := {4, 3}, ts_acceptor := AC_test, ts_clients := [c]\<rparr>) \<and>
    cl_fd c = 4 \<and> cl_messages c = [(0, inputs, outputs)] \<and> sk_accepts (cl_socket c) = taken \<and>
    cl_pc c = CL_sending (text_frame (bytes_of (dump (telemetry_message 0 inputs outputs))))"
proof -
  from demo_greeted obtain incoming where greet: "greet_client (demo_socket taken) =
    (True, \<lparr>sk_incoming = incoming, sk_accepts = taken, sk_sent = bytes_of (upgrade_response ''abc='')\<rparr>)"
    (is "_ = (True, ?sock)") by blast
  let ?s = "started_server port"
  let ?t = "\<lambda>c. ?s\<lparr>ts_open := {4, 3}, ts_acceptor := AC_test, ts_clients := [c]\<rparr>"
  let ?at = "\<lambda>pc n. (new_client 4 ?sock)\<lparr>cl_pc := pc, cl_sequence := n\<rparr>"
  let ?step = "client_step dump max_alloc True False new_memory_map"
  let ?zeros = "get_area new_memory_map"
  have go: "tm_reach dump max_alloc port (?t c')"
    if "tm_reach dump max_alloc port (?t c)" "?step c = Inr c'" "cl_pc c \<noteq> CL_done" "cl_pc c \<noteq> CL_close"
      "\<not> client_waits c" for c c'
    using reach_client_step [OF that(1) _ valid_new_memory_map, of c False c'] that(2-) by simp
  have "tm_reach dump max_alloc port (?t (?at CL_test 0))"
    using reach_client [OF reach_started, where fd = 3 and c = 4 and sock = "demo_socket taken"] greet
    by (simp add: new_client_def)
  from go [OF this, of "?at CL_poll 0"] have "tm_reach dump max_alloc port (?t (?at CL_poll 0))"
    by (simp add: client_step_def client_waits_def)
  from go [OF this, of "?at CL_input 0"] have "tm_reach dump max_alloc port (?t (?at CL_input 0))"
    by (simp add: client_step_def client_waits_def)
  from go [OF this, of "?at (CL_output 0 (?zeros Input)) 1"] valid_new_memory_map
  have "tm_reach dump max_alloc port (?t (?at (CL_output 0 (?zeros Input)) 1))"
    by (simp add: client_step_def client_waits_def memory_call_def new_client_def del: get_area_new)
  from go [OF this, of "?at (CL_send 0 (?zeros Input) (?zeros Output)) 1"] valid_new_memory_map
  have "tm_reach dump max_alloc port (?t (?at (CL_send 0 (?zeros Input) (?zeros Output)) 1))"
    by (simp add: client_step_def client_waits_def memory_call_def new_client_def del: get_area_new)
  from go [OF this]
  have "tm_reach dump max_alloc port (?t ((?at (CL_sending
      (text_frame (bytes_of (dump (telemetry_message 0 (?zeros Input) (?zeros Output)))))) 1)
        \<lparr>cl_messages := [(0, ?zeros Input, ?zeros Output)]\<rparr>))"
    by (simp add: client_step_def client_waits_def new_client_def del: get_area_new)
  then show ?thesis by (intro exI conjI, assumption) (simp_all add: new_client_def)
qed

lemma demo_reached:
  "\<exists>s c. tm_reach (\<lambda>_. ''{}'') max_alloc port s \<and> ts_clients s = [c] \<and> length (cl_messages c) = 1"
proof -
  let ?s = "\<lambda>c. (started_server port)\<lparr>ts_open := {4, 3}, ts_acceptor := AC_test, ts_clients := [c]\<rparr>"
  from demo_sending [of "\<lambda>_. ''{}''" max_alloc port "[]"] obtain c x where
    "tm_reach (\<lambda>_. ''{}'') max_alloc port (?s c)" "cl_messages c = [x]" by blast
  then show ?thesis by (intro exI [of _ "?s c"] exI [of _ c]) simp
qed

text \<open>A running server whose owner is in \<open>stop\<close>, about to join the accept thread.\<close>

definition stopping :: "telemetry_server \<Rightarrow> telemetry_server" where
  "stopping s = s\<lparr>ts_running := False, ts_open := ts_open s - set_option (ts_listen s), ts_listen := None, ts_owner := ST_reset\<rparr>"

lemma reach_stopping:
  assumes "tm_reach dump max_alloc port s" and "ts_owner s = ST_free" and "ts_running s"
  shows "tm_reach dump max_alloc port (stopping s)"
proof -
  let ?s1 = "s\<lparr>ts_running := False, ts_owner := ST_cleared\<rparr>"
  let ?s2 = "?s1\<lparr>ts_open := ts_open ?s1 - set_option (ts_listen ?s1), ts_owner := ST_closed\<rparr>"
  let ?s3 = "?s2\<lparr>ts_listen := None, ts_owner := ST_reset\<rparr>"
  have "tm_reach dump max_alloc port ?s1" by (rule tm_env_step [OF assms(1) owner_stops]) (use assms in simp_all)
  moreover have "tm_own dump max_alloc new_memory_map ?s1 ?s2" by (rule stop_closes) simp
  ultimately have "tm_reach dump max_alloc port ?s2" by (rule tm_own_step [OF _ valid_new_memory_map])
  moreover have "tm_own dump max_alloc new_memory_map ?s2 ?s3" by (rule stop_resets) simp
  ultimately have "tm_reach dump max_alloc port ?s3" by (rule tm_own_step [OF _ valid_new_memory_map])
  moreover have "?s3 = stopping s" by (simp add: stopping_def)
  ultimately show ?thesis by (simp only:)
qed

section \<open>Properties\<close>

text \<open>
  C23. Descriptors are neither leaked nor closed twice, under every interleaving of the accept thread,
  the client threads, the network and calls of \<open>start\<close> and \<open>stop\<close>: the open ones are exactly those held
  by the listening member, the accept thread and the client threads, each by one of them. Whenever the
  server is not running and not inside \<open>stop\<close> (before a start, after a failed one, after a stop), none
  is open and no thread is left.
\<close>

theorem descriptors_accounted:
  assumes "tm_reach dump max_alloc port s"
  shows "ts_open s = set (held s) \<and> distinct (held s) \<and>
    (ts_owner s = ST_free \<and> \<not> ts_running s \<longrightarrow> ts_open s = {} \<and> ts_acceptor s = AC_none \<and> ts_clients s = [])"
  using tm_reach_inv [OF assms] by (auto simp: tm_inv_def held_def)

theorem descriptors_accounted_witness:
  "ts_open (started_server 8081) = set (held (started_server 8081)) \<and> distinct (held (started_server 8081))"
  using descriptors_accounted [OF reach_started, of 8081] by simp

text \<open>
  What any client has been sent so far: its k-th message has sequence number k and the whole input and
  output area, whatever the scan thread and the other threads do in between; no number is left out or
  used twice.
\<close>

theorem messages_numbered:
  assumes "tm_reach dump max_alloc port s" and "c \<in> set (ts_clients s)" and "k < length (cl_messages c)"
  shows "case cl_messages c ! k of (sequence, inputs, outputs) \<Rightarrow>
    sequence = of_nat k \<and> length inputs = area_bytes Input \<and> length outputs = area_bytes Output"
proof -
  have "client_ok c" using tm_reach_inv [OF assms(1)] assms(2) by (auto simp: tm_inv_def list_all_iff)
  then have "map fst (cl_messages c) ! k = map of_nat [0..<length (cl_messages c)] ! k"
    and "message_ok (cl_messages c ! k)"
    using assms(3) by (simp_all add: client_ok_def list_all_length)
  with assms(3) show ?thesis by (auto simp: message_ok_def)
qed

theorem messages_numbered_witness:
  "\<exists>s c. tm_reach (\<lambda>_. ''{}'') 1000 8081 s \<and> c \<in> set (ts_clients s) \<and> fst (cl_messages c ! 0) = 0"
proof -
  from demo_reached [of 1000 8081] obtain s c where s: "tm_reach (\<lambda>_. ''{}'') 1000 8081 s"
    "ts_clients s = [c]" "length (cl_messages c) = 1" by blast
  with messages_numbered [OF s(1), of c 0] show ?thesis by (auto split: prod.splits)
qed

text \<open>
  C24. The stream a quiet client receives while its socket takes every frame: the messages numbered from
  where it is, one per round, with the input area of the moment the first and the output area of the
  moment the second call reads, and nothing else.
\<close>

theorem client_stream:
  assumes "cl_pc c = CL_test" and "list_all (\<lambda>m. valid_memory (fst m) \<and> valid_memory (snd m)) ms"
    and "sk_accepts (cl_socket c) = map length (message_frames dump (cl_sequence c) ms)"
  shows "\<exists>c'. client_rounds dump max_alloc ms c = Inr c' \<and> cl_pc c' = CL_test \<and>
    cl_sequence c' = cl_sequence c + of_nat (length ms) \<and>
    sk_sent (cl_socket c') = sk_sent (cl_socket c) @ concat (message_frames dump (cl_sequence c) ms)"
  using assms
proof (induction ms arbitrary: c)
  case (Cons m ms)
  obtain mi mq where m: "m = (mi, mq)" by (cases m)
  let ?frame = "message_frame dump (cl_sequence c) (mi, mq)"
  let ?c = "c\<lparr>cl_socket := (cl_socket c)\<lparr>sk_accepts := map length (message_frames dump (cl_sequence c + 1) ms),
             sk_sent := sk_sent (cl_socket c) @ ?frame\<rparr>,
           cl_sequence := cl_sequence c + 1,
           cl_messages := cl_messages c @ [(cl_sequence c, get_area mi Input, get_area mq Output)]\<rparr>"
  have "client_round dump max_alloc mi mq c = Inr ?c"
    using Cons.prems by (intro client_round_sends) (simp_all add: m)
  with Cons.IH [of ?c] Cons.prems show ?case by (auto simp: m ac_simps)
qed simp

theorem client_stream_witness:
  "\<exists>c'. client_rounds (\<lambda>_. ''{}'') 1000 [(new_memory_map, new_memory_map)]
      (new_client 4 \<lparr>sk_incoming = [], sk_accepts = [4], sk_sent = []\<rparr>) = Inr c' \<and>
    sk_sent (cl_socket c') = [0x81, 2, 0x7B, 0x7D]"
  using client_stream [of "new_client 4 \<lparr>sk_incoming = [], sk_accepts = [4], sk_sent = []\<rparr>"
      "[(new_memory_map, new_memory_map)]" "\<lambda>_. ''{}''" 1000] valid_new_memory_map
  by (auto simp: message_frame_def text_frame_def bytes_of_def new_client_def of_char_def)

text \<open>
  C20. What can keep \<open>stop\<close>: once it has cleared the flag, every step of the server's threads and of
  \<open>stop\<close> itself brings its end nearer, whatever the clients have sent, and as long as it has not returned
  some step is possible, or a thread fails, or a thread waits for the peer of a client's socket. So it
  returns unless a failure ends the process or a client keeps it waiting. \<open>F\<close> bounds the frames of
  telemetry messages.
\<close>

theorem stop_returns:
  assumes "tm_reach dump max_alloc port s" and "ts_owner s \<noteq> ST_free" and "frames_bounded dump F"
  shows "(\<forall>t. tm_own dump max_alloc mem s t \<longrightarrow> server_left F max_alloc t < server_left F max_alloc s) \<and>
    ((\<exists>t. tm_own dump max_alloc mem s t) \<or> (\<exists>f. tm_fails dump max_alloc mem s f) \<or> awaits_peer s)"
proof -
  have inv: "tm_inv s" by (rule tm_reach_inv [OF assms(1)])
  then have "\<not> ts_running s" "list_all client_ok (ts_clients s)" using assms(2) by (simp_all add: tm_inv_def)
  then show ?thesis using tm_own_left [OF _ _ assms(3)] tm_own_progress [OF inv assms(2)] by blast
qed

lemma frames_bounded_constant: "frames_bounded (\<lambda>_. ''{}'') 4"
  by (simp add: frames_bounded_def text_frame_def bytes_of_def)

theorem stop_returns_witness:
  "\<exists>t. tm_own (\<lambda>_. ''{}'') 1000 new_memory_map ((started_server 8081)\<lparr>ts_running := False, ts_owner := ST_cleared\<rparr>) t \<and>
     server_left 4 1000 t < 5"
proof -
  let ?s = "(started_server 8081)\<lparr>ts_running := False, ts_owner := ST_cleared\<rparr>"
  have "tm_reach (\<lambda>_. ''{}'') 1000 8081 ?s"
    by (rule tm_env_step [OF reach_started owner_stops]) simp_all
  from stop_returns [OF this _ frames_bounded_constant]
  have left: "tm_own (\<lambda>_. ''{}'') 1000 new_memory_map ?s t \<Longrightarrow> server_left 4 1000 t < server_left 4 1000 ?s" for t
    by simp
  have "tm_own (\<lambda>_. ''{}'') 1000 new_memory_map ?s (?s\<lparr>ts_acceptor := AC_done\<rparr>)" using accept_test [of ?s] by simp
  with left show ?thesis by (fastforce simp: server_left_def)
qed

text \<open>
  C21. A client can keep \<open>stop\<close> for ever. One that connects and sends nothing holds the accept thread in
  \<open>recv\<close> while \<open>stop\<close> joins it; one that is connected and takes nothing holds its own thread in \<open>send\<close> while
  \<open>stop\<close> joins that. In both states no thread of the server can move and none fails, whatever the memory
  map holds.
\<close>

theorem clients_hold_stop:
  "(\<exists>s. tm_reach dump max_alloc port s \<and> ts_owner s = ST_reset \<and>
      (\<nexists>mem t. tm_own dump max_alloc mem s t) \<and> (\<nexists>mem f. tm_fails dump max_alloc mem s f)) \<and>
   (\<exists>s. tm_reach dump max_alloc port s \<and> ts_owner s = ST_joined \<and>
      (\<nexists>mem t. tm_own dump max_alloc mem s t) \<and> (\<nexists>mem f. tm_fails dump max_alloc mem s f))"
proof (intro conjI)
  let ?quiet = "\<lparr>sk_incoming = [], sk_accepts = [], sk_sent = []\<rparr>"
  let ?s = "(started_server port)\<lparr>ts_open := {4, 3}, ts_acceptor := AC_greet 4 ?quiet []\<rparr>"
  have "tm_reach dump max_alloc port ?s"
    using reach_greet [OF reach_started, where fd = 3 and c = 4] by simp
  from reach_stopping [OF this] have "tm_reach dump max_alloc port (stopping ?s)" by simp
  moreover have stuck: "accept_waits (AC_greet 4 ?quiet [])"
    by (simp add: request_complete_def find_from.simps crlf_def)
  have "\<not> tm_own dump max_alloc mem (stopping ?s) t" "\<not> tm_fails dump max_alloc mem (stopping ?s) f" for mem t f
    using stuck by (auto simp: stopping_def elim!: tm_own.cases tm_fails.cases)
  ultimately show "\<exists>s. tm_reach dump max_alloc port s \<and> ts_owner s = ST_reset \<and>
      (\<nexists>mem t. tm_own dump max_alloc mem s t) \<and> (\<nexists>mem f. tm_fails dump max_alloc mem s f)"
    by (intro exI [of _ "stopping ?s"]) (auto simp: stopping_def)
next
  obtain c inputs outputs where c: "tm_reach dump max_alloc port
      ((started_server port)\<lparr>ts_open := {4, 3}, ts_acceptor := AC_test, ts_clients := [c]\<rparr>)" (is "tm_reach _ _ _ ?s")
    "sk_accepts (cl_socket c) = []" "cl_pc c = CL_sending (text_frame (bytes_of (dump (telemetry_message 0 inputs outputs))))"
    using demo_sending [of dump max_alloc port "[]"] by blast
  let ?t = "(stopping ?s)\<lparr>ts_acceptor := AC_done\<rparr>"
  let ?u = "?t\<lparr>ts_acceptor := AC_none, ts_owner := ST_joined\<rparr>"
  have "tm_reach dump max_alloc port (stopping ?s)" using reach_stopping [OF c(1)] by simp
  moreover have "tm_own dump max_alloc new_memory_map (stopping ?s) ?t"
    using accept_test [of "stopping ?s"] by (simp add: stopping_def)
  ultimately have "tm_reach dump max_alloc port ?t" by (rule tm_own_step [OF _ valid_new_memory_map])
  moreover have "tm_own dump max_alloc new_memory_map ?t ?u" by (rule stop_joins) (simp_all add: stopping_def)
  ultimately have "tm_reach dump max_alloc port ?u" by (rule tm_own_step [OF _ valid_new_memory_map])
  moreover have stuck: "client_waits c" "cl_pc c \<noteq> CL_done" using c(2,3) by (simp_all add: client_waits_def)
  have "\<not> tm_own dump max_alloc mem ?u t" "\<not> tm_fails dump max_alloc mem ?u f" for mem t f
    using stuck by (auto simp: stopping_def Cons_eq_append_conv elim!: tm_own.cases tm_fails.cases)
  ultimately show "\<exists>s. tm_reach dump max_alloc port s \<and> ts_owner s = ST_joined \<and>
      (\<nexists>mem t. tm_own dump max_alloc mem s t) \<and> (\<nexists>mem f. tm_fails dump max_alloc mem s f)"
    by (intro exI [of _ ?u]) auto
qed

text \<open>
  C22. A race: \<open>stop\<close> resets \<open>listen_socket_\<close> before it joins the accept thread, so an accept thread that has
  just passed its test reads the invalid descriptor and gives it to \<open>FD_SET\<close>.
\<close>

theorem stop_races_accept_loop:
  "\<exists>s. tm_reach dump max_alloc port s \<and> tm_fails dump max_alloc new_memory_map s Bad_descriptor"
proof -
  let ?net = "\<lparr>net_socket = Some 3, net_bind = (\<lambda>_. True), net_listen = True\<rparr>"
  let ?s0 = "TelemetryServer port"
  let ?s1 = "telemetry_start ?net ?s0"
  let ?s2 = "?s1\<lparr>ts_acceptor := AC_listen\<rparr>"
  let ?s3 = "?s2\<lparr>ts_running := False, ts_owner := ST_cleared\<rparr>"
  let ?s4 = "?s3\<lparr>ts_open := ts_open ?s3 - set_option (ts_listen ?s3), ts_owner := ST_closed\<rparr>"
  let ?s5 = "?s4\<lparr>ts_listen := None, ts_owner := ST_reset\<rparr>"
  let ?s6 = "?s5\<lparr>ts_acceptor := AC_select None\<rparr>"
  note start = telemetry_start_def TelemetryServer_def Let_def
  have "tm_env ?s0 ?s1" by (rule owner_starts) (simp_all add: TelemetryServer_def)
  with tm_new have "tm_reach dump max_alloc port ?s1" by (rule tm_env_step)
  moreover have "tm_own dump max_alloc new_memory_map ?s1 ?s2" using accept_test [of ?s1] by (simp add: start)
  ultimately have "tm_reach dump max_alloc port ?s2" by (rule tm_own_step [OF _ valid_new_memory_map])
  moreover have "tm_env ?s2 ?s3" by (rule owner_stops) (simp_all add: start)
  ultimately have "tm_reach dump max_alloc port ?s3" by (rule tm_env_step)
  moreover have "tm_own dump max_alloc new_memory_map ?s3 ?s4" by (rule stop_closes) simp
  ultimately have "tm_reach dump max_alloc port ?s4" by (rule tm_own_step [OF _ valid_new_memory_map])
  moreover have "tm_own dump max_alloc new_memory_map ?s4 ?s5" by (rule stop_resets) simp
  ultimately have "tm_reach dump max_alloc port ?s5" by (rule tm_own_step [OF _ valid_new_memory_map])
  moreover have "tm_own dump max_alloc new_memory_map ?s5 ?s6" using accept_listen [of ?s5] by simp
  ultimately have "tm_reach dump max_alloc port ?s6" by (rule tm_own_step [OF _ valid_new_memory_map])
  moreover have "tm_fails dump max_alloc new_memory_map ?s6 Bad_descriptor" by (rule select_fails) simp
  ultimately show ?thesis by blast
qed

end
