(* ===== verification/Main_Program.thy ===== *)
theory Main_Program
  imports Scan_System Log_System Web_System Telemetry_System
begin

text \<open>
  The program of \<open>main.cpp\<close>: what it constructs, starts, logs, sets, stops and destroys, in order, on every
  way through it. The objects it declares are destroyed in the reverse order when it returns, and their
  destructors stop them.
\<close>

section \<open>Actions\<close>

datatype part = P_logger | P_archive | P_engine | P_runtime | P_web | P_telemetry

datatype action =
    Construct part | Start part | Stop part | Destroy part
  | Say string | Complain string | Log log_level string | Sleep nat
  | Set_input size_t u8 bool | Reload logic_program | Await_enter

text \<open>How \<open>main\<close> ends: a return with an exit code, or an exception that leaves it.\<close>

datatype main_end = Returned int | Terminated string

text \<open>
  What \<open>main\<close> depends on: opening the archive (its exception's message, if it throws), the directory of
  the examples, the files and the JSON parser behind \<open>from_file\<close>, and the cycle counts it reads when it is about to end.
\<close>

record main_world =
  mw_archive :: "string option"
  mw_examples :: string
  mw_file :: "string \<Rightarrow> string option"
  mw_parse :: "string \<Rightarrow> string + json"
  mw_cycles :: "u64 \<times> u64 \<times> u64"

definition cycle_period_ms :: int where "cycle_period_ms = 20"

definition load_program :: "main_world \<Rightarrow> string \<Rightarrow> logic_program result" where
  "load_program mw name =
     from_file (mw_file mw) (mw_parse mw) (mw_examples mw @ ''/'' @ name) cycle_period_ms"

text \<open>The handler catches \<open>LogicParseError\<close>; any other exception would leave \<open>main\<close>.\<close>

definition caught :: "failure \<Rightarrow> string option" where
  "caught f = (case f of Logic_parse_error m \<Rightarrow> Some m | _ \<Rightarrow> None)"

text \<open>The objects in the order of their declarations; leaving their scope destroys them from the last back.\<close>

definition leave :: "part list \<Rightarrow> action list" where
  "leave constructed = map Destroy (rev constructed)"

definition set_three :: "bool \<Rightarrow> action list" where
  "set_three v = [Set_input 0 0 v, Set_input 0 1 v, Set_input 0 2 v]"

definition rules_text :: "logic_program \<Rightarrow> string" where
  "rules_text p = dec_string (rule_count p) @ '' rules)''"

definition main_boot :: "logic_program \<Rightarrow> action list" where
  "main_boot a =
     [Log Info (''loaded initial logic program ('' @ rules_text a), Construct P_runtime,
      Say ''Starting AslcEngine with Mock HAL Driver and JSON-driven logic...'',
      Log Info ''AslcEngine starting'', Start P_engine,
      Construct P_web, Construct P_telemetry, Start P_web, Start P_telemetry,
      Log Info ''WebServer + TelemetryServer started'',
      Say ''Web UI:   http://localhost:8080'', Say ''Telemetry: ws://localhost:8081/ws/telemetry'',
      Sleep 60, Say ''Simulating Physical Inputs %I[0].0/.1/.2 -> HIGH''] @ set_three True @
     [Sleep 150, Say ''Hot-reloading logic program (no engine stop/restart)...'']"

definition main_finish :: "u64 \<times> u64 \<times> u64 \<Rightarrow> action list" where
  "main_finish cycles =
     [Sleep 100, Say ''Simulating Physical Inputs %I[0].0/.1/.2 -> LOW''] @ set_three False @
     [Sleep 60,
      Say (''Demo sequence complete ('' @ dec_string (unat (fst cycles)) @ '' cycles so far).''),
      Say ''Open the Web UI above, or press Enter here to stop.'', Await_enter,
      Say (''Stopping AslcEngine after '' @ dec_string (unat (fst (snd cycles))) @ '' cycles.''),
      Log Info (''shutting down after '' @ dec_string (unat (snd (snd cycles))) @ '' cycles''),
      Stop P_telemetry, Stop P_web, Stop P_engine, Stop P_logger]"

definition main_program :: "main_world \<Rightarrow> action list \<times> main_end" where
  "main_program mw =
     (let start = [Say ''OpenASLC Engine MVP Initializing...'', Construct P_logger, Start P_logger] in
      case mw_archive mw of
        Some e \<Rightarrow> (start, Terminated e)
      | None \<Rightarrow>
          let opened = start @ [Construct P_archive, Construct P_engine] in
            (case load_program mw ''logic_example.json'' of
               Inl f \<Rightarrow>
                 (case caught f of
                    None \<Rightarrow> (opened, Terminated [])
                  | Some e \<Rightarrow>
                      (opened @ [Complain (''Failed to load logic program: '' @ e),
                         Log Error (''failed to load initial logic program: '' @ e)] @
                       leave [P_logger, P_archive, P_engine], Returned 1))
             | Inr a \<Rightarrow>
                 let all = [P_logger, P_archive, P_engine, P_runtime, P_web, P_telemetry] in
                   (case load_program mw ''logic_example_reload.json'' of
                      Inl f \<Rightarrow>
                        (case caught f of
                           None \<Rightarrow> (opened @ main_boot a, Terminated [])
                         | Some e \<Rightarrow>
                             (opened @ main_boot a @ [Complain (''Failed to load reload logic program: '' @ e),
                                Log Error (''hot-reload failed: '' @ e), Stop P_engine] @ leave all, Returned 1))
                    | Inr b \<Rightarrow>
                        (opened @ main_boot a @
                         [Reload b, Log Info (''hot-reloaded logic program ('' @ rules_text b)] @
                         main_finish (mw_cycles mw) @ leave all, Returned 0))))"

section \<open>Loading fails only in ways that are caught\<close>

lemma located_anywhere: "located path r \<Longrightarrow> located [] r"
  by (rule located_longer [of "[]" path]) simp

lemma located_parse_rules: "located [] (parse_rules js i period)"
  by (induction js i period rule: parse_rules.induct)
    (auto intro!: located_intros located_anywhere [OF located_rule])

lemma located_from_file: "located [] (from_file open_file json_parse path period)"
proof -
  have err: "located [] (parse_error m :: logic_program result)" for m
    using located_parse_error [of "[]" m] by simp
  have "located [] (from_json doc period)" for doc
    unfolding from_json_def
    by (intro located_intros located_parse_rules err located_anywhere [OF located_require(1)])
  with err show ?thesis by (simp add: from_file_def split: option.split sum.split)
qed

lemma load_program_caught: "load_program mw name = Inl f \<Longrightarrow> \<exists>m. caught f = Some m"
  using located_from_file [of "mw_file mw" "mw_parse mw" "mw_examples mw @ ''/'' @ name" cycle_period_ms]
  by (auto simp: load_program_def located_def caught_def)

section \<open>What the life cycles of the parts ask for\<close>

text \<open>
  The parts that exist and the parts that run: a part is started when it exists and stopped or not
  when it is destroyed, which stops it; the runtime the engine's thread calls into must outlive the running engine, the engine and
  its runtime the web server that deploys to it, and what is logged needs the logger.
\<close>

fun safe_action :: "part list \<times> part list \<Rightarrow> action \<Rightarrow> bool" where
  "safe_action (there, running) (Construct p) \<longleftrightarrow> p \<notin> set there"
| "safe_action (there, running) (Start p) \<longleftrightarrow>
     p \<in> set there \<and> p \<notin> set running \<and> (p = P_engine \<longrightarrow> P_runtime \<in> set there) \<and>
     (p = P_web \<longrightarrow> {P_runtime, P_archive, P_logger} \<subseteq> set there)"
| "safe_action (there, running) (Stop p) \<longleftrightarrow> p \<in> set there"
| "safe_action (there, running) (Destroy p) \<longleftrightarrow>
     p \<in> set there \<and> (p = P_runtime \<longrightarrow> P_engine \<notin> set running \<and> P_web \<notin> set running) \<and>
     (p = P_archive \<or> p = P_logger \<longrightarrow> P_web \<notin> set running)"
| "safe_action (there, running) (Log level message) \<longleftrightarrow> P_logger \<in> set running"
| "safe_action (there, running) (Reload p) \<longleftrightarrow> P_runtime \<in> set there"
| "safe_action (there, running) a \<longleftrightarrow> True"

fun do_action :: "part list \<times> part list \<Rightarrow> action \<Rightarrow> part list \<times> part list" where
  "do_action (there, running) (Construct p) = (p # there, running)"
| "do_action (there, running) (Start p) = (there, p # running)"
| "do_action (there, running) (Stop p) = (there, removeAll p running)"
| "do_action (there, running) (Destroy p) = (removeAll p there, removeAll p running)"
| "do_action st a = st"

fun safe_run :: "part list \<times> part list \<Rightarrow> action list \<Rightarrow> (part list \<times> part list) option" where
  "safe_run st [] = Some st"
| "safe_run st (a # as) = (if safe_action st a then safe_run (do_action st a) as else None)"

section \<open>Properties\<close>

text \<open>
  C40. On every way \<open>main\<close> returns, the parts are used within their lives: nothing is started before it exists or
  twice, the runtime is not destroyed while the engine's thread or the web server runs, nothing is logged without the
  running logger, and at the end nothing is left or running; the exit code is 0 exactly when both
  programs could be loaded. Only a failing archive ends it by an exception, with nothing but the logger started.
\<close>

theorem main_uses_parts_safely:
  "case main_program mw of
     (acts, Returned code) \<Rightarrow> safe_run ([], []) acts = Some ([], []) \<and> mw_archive mw = None \<and>
       (code = 0 \<or> code = 1) \<and>
       (code = 0 \<longleftrightarrow> (\<exists>a b. load_program mw ''logic_example.json'' = Inr a \<and>
         load_program mw ''logic_example_reload.json'' = Inr b))
   | (acts, Terminated e) \<Rightarrow> mw_archive mw = Some e \<and> safe_run ([], []) acts = Some ([P_logger], [P_logger])"
  using load_program_caught [of mw "''logic_example.json''"] load_program_caught [of mw "''logic_example_reload.json''"]
  by (cases "mw_archive mw"; cases "load_program mw ''logic_example.json''";
      cases "load_program mw ''logic_example_reload.json''")
    (auto simp: main_program_def main_boot_def main_finish_def leave_def set_three_def Let_def)

end
