(* ===== verification/Locked_Object.thy ===== *)
theory Locked_Object
  imports Aslc_Prelude
begin

text \<open>
  Objects that several threads call. A call is split into its guard, the lock it takes
  (\<open>std::shared_lock\<close>, \<open>std::unique_lock\<close>/\<open>std::lock_guard\<close>, or none), the single accesses of its
  body, and its reply; the threads interleave between any two accesses. Beside this fine-grained
  machine stands the atomic one, in which a call takes effect in one step between its invocation and
  its return. The contract of the locale \<open>locked_object\<close> is what an object has to satisfy for the
  first to have no behaviour that the second does not have.
\<close>

section \<open>The code of an object and the fine-grained machine\<close>

datatype lock_mode = No_lock | Shared_lock | Unique_lock

type_synonym ('l, 'm) access = "'l \<Rightarrow> 'm \<Rightarrow> ('l \<times> 'm) result"

record ('c, 'l, 'm, 'r) object_code =
  oc_guard :: "'c \<Rightarrow> unit result"
  oc_mode :: "'c \<Rightarrow> lock_mode"
  oc_body :: "'c \<Rightarrow> ('l, 'm) access list"
  oc_start :: 'l
  oc_reply :: "'c \<Rightarrow> 'l \<Rightarrow> 'r"

text \<open>Where a thread is: outside, before the lock, in the body with the accesses left, or after the unlock.\<close>

datatype ('c, 'l, 'm, 'r) thread =
  Outside
| Called 'c
| is_inside: Inside 'c 'l "('l, 'm) access list"
| Leaving "'r result"

type_synonym tid = nat

record ('c, 'l, 'm, 'r) shared_state =
  sh_mem :: 'm
  sh_writer :: "tid option"
  sh_readers :: "tid set"
  sh_thread :: "tid \<Rightarrow> ('c, 'l, 'm, 'r) thread"
  sh_fault :: bool

definition shared_start :: "'m \<Rightarrow> ('c, 'l, 'm, 'r) shared_state" where
  "shared_start m =
     \<lparr>sh_mem = m, sh_writer = None, sh_readers = {}, sh_thread = (\<lambda>_. Outside), sh_fault = False\<rparr>"

text \<open>What an observer of the threads sees.\<close>

datatype ('c, 'r) event = Invoke tid 'c | Return tid "'r result"

abbreviation move ::
  "('c, 'l, 'm, 'r) shared_state \<Rightarrow> tid \<Rightarrow> ('c, 'l, 'm, 'r) thread \<Rightarrow> ('c, 'l, 'm, 'r) shared_state" where
  "move s t p \<equiv> s\<lparr>sh_thread := (sh_thread s)(t := p)\<rparr>"

fun enter :: "lock_mode \<Rightarrow> tid \<Rightarrow> ('c, 'l, 'm, 'r) shared_state \<Rightarrow> ('c, 'l, 'm, 'r) shared_state option" where
  "enter No_lock t s = Some s"
| "enter Shared_lock t s =
     (if sh_writer s = None then Some (s\<lparr>sh_readers := insert t (sh_readers s)\<rparr>) else None)"
| "enter Unique_lock t s =
     (if sh_writer s = None \<and> sh_readers s = {} then Some (s\<lparr>sh_writer := Some t\<rparr>) else None)"

fun unlock :: "lock_mode \<Rightarrow> tid \<Rightarrow> ('c, 'l, 'm, 'r) shared_state \<Rightarrow> ('c, 'l, 'm, 'r) shared_state" where
  "unlock No_lock t s = s"
| "unlock Shared_lock t s = s\<lparr>sh_readers := sh_readers s - {t}\<rparr>"
| "unlock Unique_lock t s = s\<lparr>sh_writer := None\<rparr>"

text \<open>
  One step of one thread; after undefined behaviour there is no next step. A lock that is not free
  leaves its thread where it is.
\<close>

inductive micro_step ::
  "('c, 'l, 'm, 'r) object_code \<Rightarrow> ('c, 'l, 'm, 'r) shared_state \<Rightarrow> ('c, 'r) event option \<Rightarrow>
   ('c, 'l, 'm, 'r) shared_state \<Rightarrow> bool" for code where
  invoke: "\<not> sh_fault s \<Longrightarrow> sh_thread s t = Outside \<Longrightarrow>
     micro_step code s (Some (Invoke t c)) (move s t (Called c))"
| reject: "\<not> sh_fault s \<Longrightarrow> sh_thread s t = Called c \<Longrightarrow> oc_guard code c = Inl e \<Longrightarrow>
     micro_step code s None (move s t (Leaving (Inl e)))"
| lock: "\<not> sh_fault s \<Longrightarrow> sh_thread s t = Called c \<Longrightarrow> oc_guard code c = Inr () \<Longrightarrow>
     enter (oc_mode code c) t s = Some s' \<Longrightarrow>
     micro_step code s None (move s' t (Inside c (oc_start code) (oc_body code c)))"
| act: "\<not> sh_fault s \<Longrightarrow> sh_thread s t = Inside c l (a # as) \<Longrightarrow> a l (sh_mem s) = Inr (l', m') \<Longrightarrow>
     micro_step code s None (move s t (Inside c l' as)\<lparr>sh_mem := m'\<rparr>)"
| fault: "\<not> sh_fault s \<Longrightarrow> sh_thread s t = Inside c l (a # as) \<Longrightarrow> a l (sh_mem s) = Inl e \<Longrightarrow>
     micro_step code s None (s\<lparr>sh_fault := True\<rparr>)"
| leave: "\<not> sh_fault s \<Longrightarrow> sh_thread s t = Inside c l [] \<Longrightarrow>
     micro_step code s None (move (unlock (oc_mode code c) t s) t (Leaving (Inr (oc_reply code c l))))"
| return: "\<not> sh_fault s \<Longrightarrow> sh_thread s t = Leaving r \<Longrightarrow>
     micro_step code s (Some (Return t r)) (move s t Outside)"

section \<open>The atomic machine\<close>

datatype ('c, 'r) caller = At_rest | Pending 'c | Answered "'r result"

record ('c, 'm, 'r) atomic_state =
  at_mem :: 'm
  at_thread :: "tid \<Rightarrow> ('c, 'r) caller"
  at_fault :: bool

definition atomic_start :: "'m \<Rightarrow> ('c, 'm, 'r) atomic_state" where
  "atomic_start m = \<lparr>at_mem = m, at_thread = (\<lambda>_. At_rest), at_fault = False\<rparr>"

abbreviation place ::
  "('c, 'm, 'r) atomic_state \<Rightarrow> tid \<Rightarrow> ('c, 'r) caller \<Rightarrow> ('c, 'm, 'r) atomic_state" where
  "place a t p \<equiv> a\<lparr>at_thread := (at_thread a)(t := p)\<rparr>"

inductive atomic_step ::
  "('c \<Rightarrow> 'm \<Rightarrow> ('r \<times> 'm) result) \<Rightarrow> ('c, 'm, 'r) atomic_state \<Rightarrow> ('c, 'r) event option \<Rightarrow>
   ('c, 'm, 'r) atomic_state \<Rightarrow> bool" for eff where
  at_invoke: "\<not> at_fault a \<Longrightarrow> at_thread a t = At_rest \<Longrightarrow>
     atomic_step eff a (Some (Invoke t c)) (place a t (Pending c))"
| at_effect: "\<not> at_fault a \<Longrightarrow> at_thread a t = Pending c \<Longrightarrow> eff c (at_mem a) = Inr (r, m') \<Longrightarrow>
     atomic_step eff a None (place a t (Answered (Inr r))\<lparr>at_mem := m'\<rparr>)"
| at_reject: "\<not> at_fault a \<Longrightarrow> at_thread a t = Pending c \<Longrightarrow> eff c (at_mem a) = Inl e \<Longrightarrow>
     e \<noteq> Undefined_behaviour \<Longrightarrow> atomic_step eff a None (place a t (Answered (Inl e)))"
| at_faulty: "\<not> at_fault a \<Longrightarrow> at_thread a t = Pending c \<Longrightarrow> eff c (at_mem a) = Inl Undefined_behaviour \<Longrightarrow>
     atomic_step eff a None (a\<lparr>at_fault := True\<rparr>)"
| at_return: "\<not> at_fault a \<Longrightarrow> at_thread a t = Answered r \<Longrightarrow>
     atomic_step eff a (Some (Return t r)) (place a t At_rest)"

section \<open>Runs and the events an observer sees\<close>

fun shown :: "'e option \<Rightarrow> 'e list" where
  "shown None = []"
| "shown (Some e) = [e]"

inductive runs :: "('s \<Rightarrow> 'e option \<Rightarrow> 's \<Rightarrow> bool) \<Rightarrow> 's \<Rightarrow> 'e list \<Rightarrow> 's \<Rightarrow> bool" for step s where
  runs_nil: "runs step s [] s"
| runs_snoc: "runs step s es s' \<Longrightarrow> step s' e s'' \<Longrightarrow> es' = es @ shown e \<Longrightarrow> runs step s es' s''"

lemma runs_simulated:
  assumes "runs step s es s'" and "rel s a"
    and sim: "\<And>s e s' a. rel s a \<Longrightarrow> step s e s' \<Longrightarrow>
      (\<exists>a'. step' a e a' \<and> rel s' a') \<or> (e = None \<and> rel s' a)"
  shows "\<exists>a'. runs step' a es a' \<and> rel s' a'"
  using assms(1,2)
proof (induction rule: runs.induct)
  case runs_nil
  then show ?case by (blast intro: runs.runs_nil)
next
  case (runs_snoc es s' e s'' es')
  then obtain a' where a': "runs step' a es a'" "rel s' a'" by blast
  from sim [OF a'(2) runs_snoc.hyps(2)] show ?case
  proof
    assume "\<exists>b. step' a' e b \<and> rel s'' b"
    then show ?thesis using a'(1) runs_snoc.hyps(3) by (blast intro: runs.runs_snoc)
  next
    assume "e = None \<and> rel s'' a'"
    then show ?thesis using a'(1) runs_snoc.hyps(3) by auto
  qed
qed

section \<open>Playing a schedule\<close>

text \<open>
  The next step of a thread that is in a call, and a whole schedule of invocations and steps; a run
  for every schedule that can be played.
\<close>

fun thread_step ::
  "('c, 'l, 'm, 'r) object_code \<Rightarrow> tid \<Rightarrow> ('c, 'l, 'm, 'r) shared_state \<Rightarrow>
   (('c, 'r) event option \<times> ('c, 'l, 'm, 'r) shared_state) option" where
  "thread_step code t s =
     (if sh_fault s then None
      else case sh_thread s t of
        Outside \<Rightarrow> None
      | Called c \<Rightarrow> (case oc_guard code c of
            Inl e \<Rightarrow> Some (None, move s t (Leaving (Inl e)))
          | Inr _ \<Rightarrow> (case enter (oc_mode code c) t s of
                None \<Rightarrow> None
              | Some s' \<Rightarrow> Some (None, move s' t (Inside c (oc_start code) (oc_body code c)))))
      | Inside c l [] \<Rightarrow>
          Some (None, move (unlock (oc_mode code c) t s) t (Leaving (Inr (oc_reply code c l))))
      | Inside c l (a # as) \<Rightarrow> (case a l (sh_mem s) of
            Inl e \<Rightarrow> Some (None, s\<lparr>sh_fault := True\<rparr>)
          | Inr (l', m') \<Rightarrow> Some (None, move s t (Inside c l' as)\<lparr>sh_mem := m'\<rparr>))
      | Leaving r \<Rightarrow> Some (Some (Return t r), move s t Outside))"

datatype 'c choice = Start tid 'c | Go tid

fun turn ::
  "('c, 'l, 'm, 'r) object_code \<Rightarrow> 'c choice \<Rightarrow> ('c, 'l, 'm, 'r) shared_state \<Rightarrow>
   (('c, 'r) event option \<times> ('c, 'l, 'm, 'r) shared_state) option" where
  "turn code (Start t c) s =
     (if \<not> sh_fault s \<and> (case sh_thread s t of Outside \<Rightarrow> True | _ \<Rightarrow> False)
      then Some (Some (Invoke t c), move s t (Called c)) else None)"
| "turn code (Go t) s = thread_step code t s"

fun play ::
  "('c, 'l, 'm, 'r) object_code \<Rightarrow> 'c choice list \<Rightarrow> ('c, 'l, 'm, 'r) shared_state \<Rightarrow>
   (('c, 'r) event list \<times> ('c, 'l, 'm, 'r) shared_state) option" where
  "play code [] s = Some ([], s)"
| "play code (x # xs) s =
     (case turn code x s of
        None \<Rightarrow> None
      | Some (e, s') \<Rightarrow> (case play code xs s' of
            None \<Rightarrow> None
          | Some (es, s'') \<Rightarrow> Some (shown e @ es, s'')))"

lemma thread_step_sound: "thread_step code t s = Some (e, s') \<Longrightarrow> micro_step code s e s'"
  by (auto split: if_splits thread.splits list.splits option.splits sum.splits prod.splits
      intro: micro_step.intros)

lemma turn_sound: "turn code x s = Some (e, s') \<Longrightarrow> micro_step code s e s'"
  by (cases x)
    (auto split: if_splits thread.splits simp del: thread_step.simps
      intro: micro_step.intros thread_step_sound)

lemma play_sound:
  "play code xs s = Some (es, s') \<Longrightarrow> runs (micro_step code) s0 es0 s \<Longrightarrow> runs (micro_step code) s0 (es0 @ es) s'"
proof (induction xs arbitrary: s es es0)
  case (Cons x xs)
  then obtain e s1 es1 where "turn code x s = Some (e, s1)" "play code xs s1 = Some (es1, s')"
    and "es = shown e @ es1"
    by (auto split: option.splits)
  with Cons.IH [of s1 es1 "es0 @ shown e"] runs_snoc [OF Cons.prems(2) turn_sound] show ?case by auto
qed auto

lemmas play_runs = play_sound [OF _ runs_nil, simplified]

section \<open>Uninterrupted bodies\<close>

text \<open>The body of a call run without interruption.\<close>

fun run_body :: "('l, 'm) access list \<Rightarrow> ('l, 'm) access" where
  "run_body [] l m = Inr (l, m)"
| "run_body (a # as) l m = res_bind (a l m) (\<lambda>(l', m'). run_body as l' m')"

lemma run_body_append:
  "run_body (as @ bs) l m = res_bind (run_body as l m) (\<lambda>(l', m'). run_body bs l' m')"
  by (induction as arbitrary: l m) (auto simp: res_bind_def split: sum.splits)

text \<open>What a thread inside has ahead of it are accesses of its call's body.\<close>

definition bodies_ok :: "('c, 'l, 'm, 'r) object_code \<Rightarrow> ('c, 'l, 'm, 'r) shared_state \<Rightarrow> bool" where
  "bodies_ok code s \<longleftrightarrow> (\<forall>t c l as. sh_thread s t = Inside c l as \<longrightarrow> set as \<subseteq> set (oc_body code c))"

lemma lock_threads:
  "sh_thread (unlock k t s) = sh_thread s" "enter k t s = Some s' \<Longrightarrow> sh_thread s' = sh_thread s"
  by (cases k; auto split: if_splits)+

lemma bodies_ok_step:
  assumes "micro_step code s e s'" and "bodies_ok code s"
  shows "bodies_ok code s'"
  using assms(1)
proof cases
  case (act t c l acc as l' m')
  then have "set (acc # as) \<subseteq> set (oc_body code c)" using assms(2) unfolding bodies_ok_def by blast
  with act assms(2) show ?thesis by (auto simp: bodies_ok_def)
qed (use assms(2) in \<open>auto simp: bodies_ok_def lock_threads\<close>)

lemma inside_body:
  assumes "runs (micro_step code) (shared_start m) es s" and "sh_thread s t = Inside c l as"
  shows "set as \<subseteq> set (oc_body code c)"
proof -
  from assms(1) have "bodies_ok code s"
  proof (induction rule: runs.induct)
    case runs_nil
    show ?case by (simp add: bodies_ok_def shared_start_def)
  qed (rule bodies_ok_step)
  with assms(2) show ?thesis unfolding bodies_ok_def by blast
qed

section \<open>Objects whose lock makes them atomic\<close>

locale locked_object =
  fixes code :: "('c, 'l, 'm, 'r) object_code"
    and eff :: "'c \<Rightarrow> 'm \<Rightarrow> ('r \<times> 'm) result"
    and valid :: "'m \<Rightarrow> bool"
  assumes locks: "oc_mode code c \<noteq> No_lock"
    and shared_reads: "oc_mode code c = Shared_lock \<Longrightarrow> acc \<in> set (oc_body code c) \<Longrightarrow>
      acc l m = Inr (l', m') \<Longrightarrow> m' = m"
    and guard_effect: "oc_guard code c = Inl e \<Longrightarrow> e \<noteq> Undefined_behaviour \<and> eff c m = Inl e"
    and body_effect: "valid m \<Longrightarrow> oc_guard code c = Inr () \<Longrightarrow>
      eff c m = (case run_body (oc_body code c) (oc_start code) m of
        Inl _ \<Rightarrow> Inl Undefined_behaviour | Inr (l, m') \<Rightarrow> Inr (oc_reply code c l, m'))"
    and effect_valid: "valid m \<Longrightarrow> eff c m = Inr (r, m') \<Longrightarrow> valid m'"
begin

text \<open>What the lock says of a thread, by its control point.\<close>

fun lock_ok :: "tid \<Rightarrow> tid option \<Rightarrow> tid set \<Rightarrow> ('c, 'l, 'm, 'r) thread \<Rightarrow> bool" where
  "lock_ok t w rs (Inside c l as) =
     (if oc_mode code c = Shared_lock then t \<in> rs \<and> w \<noteq> Some t else w = Some t \<and> t \<notin> rs)"
| "lock_ok t w rs p = (t \<notin> rs \<and> w \<noteq> Some t)"

definition lock_inv :: "('c, 'l, 'm, 'r) shared_state \<Rightarrow> bool" where
  "lock_inv s \<longleftrightarrow> (\<forall>t. lock_ok t (sh_writer s) (sh_readers s) (sh_thread s t)) \<and>
     (sh_writer s \<noteq> None \<longrightarrow> sh_readers s = {})"

text \<open>A thread beside its atomic counterpart; inside, the accesses left lead to the whole effect.\<close>

fun thread_rel ::
  "'m \<Rightarrow> 'm \<Rightarrow> ('c, 'l, 'm, 'r) thread \<Rightarrow> ('c, 'r) caller \<Rightarrow> bool" where
  "thread_rel m am Outside q \<longleftrightarrow> q = At_rest"
| "thread_rel m am (Called c) q \<longleftrightarrow> q = Pending c"
| "thread_rel m am (Inside c l as) q \<longleftrightarrow> q = Pending c \<and> oc_guard code c = Inr () \<and>
     set as \<subseteq> set (oc_body code c) \<and>
     run_body as l m = run_body (oc_body code c) (oc_start code) am"
| "thread_rel m am (Leaving r) q \<longleftrightarrow> q = Answered r"

definition sim :: "('c, 'l, 'm, 'r) shared_state \<Rightarrow> ('c, 'm, 'r) atomic_state \<Rightarrow> bool" where
  "sim s a \<longleftrightarrow> lock_inv s \<and> sh_fault s = at_fault a \<and>
     (\<not> sh_fault s \<longrightarrow> valid (at_mem a) \<and> (sh_writer s = None \<longrightarrow> sh_mem s = at_mem a) \<and>
        (\<forall>t. thread_rel (sh_mem s) (at_mem a) (sh_thread s t) (at_thread a t)))"

lemma sim_start: "valid m \<Longrightarrow> sim (shared_start m) (atomic_start m)"
  by (simp add: sim_def lock_inv_def shared_start_def atomic_start_def)

lemma lock_ok_outside: "\<not> is_inside p \<Longrightarrow> lock_ok t w rs p \<longleftrightarrow> t \<notin> rs \<and> w \<noteq> Some t"
  by (cases p) simp_all

lemma lock_ok_inside:
  "is_inside p \<Longrightarrow> lock_ok t w rs p \<Longrightarrow> w = Some t \<or> t \<in> rs"
  by (cases p) (auto split: if_splits)

lemma lock_ok_others:
  "lock_ok t w rs p \<Longrightarrow> (t \<in> rs \<longleftrightarrow> t \<in> rs') \<Longrightarrow> (w = Some t \<longleftrightarrow> w' = Some t) \<Longrightarrow> lock_ok t w' rs' p"
  by (cases p) (auto split: if_splits)

lemma alone:
  assumes "lock_inv s" and "sh_thread s t = Inside c l as" and "oc_mode code c \<noteq> Shared_lock"
    and "t' \<noteq> t"
  shows "\<not> is_inside (sh_thread s t')"
proof
  assume i: "is_inside (sh_thread s t')"
  have "lock_ok t (sh_writer s) (sh_readers s) (sh_thread s t)"
    and t': "lock_ok t' (sh_writer s) (sh_readers s) (sh_thread s t')"
    using assms(1) unfolding lock_inv_def by blast+
  with assms have "sh_writer s = Some t" "sh_readers s = {}" by (auto simp: lock_inv_def)
  with lock_ok_inside [OF i t'] assms(4) show False by simp
qed

lemma thread_rel_mem:
  "\<not> is_inside p \<Longrightarrow> thread_rel m am p q \<Longrightarrow> thread_rel m' am' p q"
  by (cases p) auto

lemma lock_inv_move:
  assumes "lock_inv s" and "\<not> is_inside (sh_thread s t)" and "\<not> is_inside p"
  shows "lock_inv (move s t p)"
proof -
  have "lock_ok t (sh_writer s) (sh_readers s) (sh_thread s t)"
    using assms(1) unfolding lock_inv_def by blast
  with assms(2) have "t \<notin> sh_readers s \<and> sh_writer s \<noteq> Some t" by (simp add: lock_ok_outside)
  with assms(1,3) show ?thesis by (simp add: lock_inv_def lock_ok_outside)
qed

lemma lock_inv_enter:
  assumes inv: "lock_inv s" and c: "sh_thread s t = Called c"
    and "enter (oc_mode code c) t s = Some s'"
  shows "lock_inv (move s' t (Inside c l as))"
proof -
  have ok: "lock_ok t' (sh_writer s) (sh_readers s) (sh_thread s t')" for t'
    using inv unfolding lock_inv_def by blast
  show ?thesis
  proof (cases "oc_mode code c")
    case No_lock then show ?thesis using locks by blast
  next
    case Shared_lock
    then have s': "s' = s\<lparr>sh_readers := insert t (sh_readers s)\<rparr>" "sh_writer s = None"
      using assms(3) by (simp_all split: if_splits)
    have "lock_ok t' (sh_writer s') (sh_readers s') (sh_thread s t')" if "t' \<noteq> t" for t'
      by (rule lock_ok_others [OF ok [of t']]) (use s' that in auto)
    then show ?thesis using s' Shared_lock by (simp add: lock_inv_def)
  next
    case Unique_lock
    then have s': "s' = s\<lparr>sh_writer := Some t\<rparr>" "sh_writer s = None" "sh_readers s = {}"
      using assms(3) by (simp_all split: if_splits)
    have "lock_ok t' (sh_writer s') (sh_readers s') (sh_thread s t')" if "t' \<noteq> t" for t'
      by (rule lock_ok_others [OF ok [of t']]) (use s' that in auto)
    then show ?thesis using s' Unique_lock by (simp add: lock_inv_def)
  qed
qed

lemma lock_inv_act:
  assumes "lock_inv s" and "sh_thread s t = Inside c l as"
  shows "lock_inv (move s t (Inside c l' as')\<lparr>sh_mem := m'\<rparr>)"
proof -
  have "lock_ok t (sh_writer s) (sh_readers s) (sh_thread s t)"
    using assms(1) unfolding lock_inv_def by blast
  with assms show ?thesis by (simp add: lock_inv_def)
qed

lemma lock_inv_leave:
  assumes "lock_inv s" and i: "sh_thread s t = Inside c l as"
  shows "lock_inv (move (unlock (oc_mode code c) t s) t (Leaving r))"
proof -
  have ok: "lock_ok t' (sh_writer s) (sh_readers s) (sh_thread s t')" for t'
    using assms(1) unfolding lock_inv_def by blast
  let ?s = "unlock (oc_mode code c) t s"
  have t: "t \<notin> sh_readers ?s \<and> sh_writer ?s \<noteq> Some t"
    using ok [of t] i locks [of c] by (cases "oc_mode code c") auto
  have "lock_ok t' (sh_writer ?s) (sh_readers ?s) (sh_thread s t')" if "t' \<noteq> t" for t'
    by (rule lock_ok_others [OF ok [of t']])
      (use ok [of t] i locks [of c] that in \<open>cases "oc_mode code c"; auto\<close>)+
  moreover have "sh_thread ?s = sh_thread s" by (cases "oc_mode code c") simp_all
  moreover have "sh_writer ?s \<noteq> None \<longrightarrow> sh_readers ?s = {}"
    using assms(1) by (cases "oc_mode code c") (auto simp: lock_inv_def)
  ultimately show ?thesis using t by (simp add: lock_inv_def)
qed

lemma sim_fault: "sim s a \<Longrightarrow> sim (s\<lparr>sh_fault := True\<rparr>) (a\<lparr>at_fault := True\<rparr>)"
  by (simp add: sim_def lock_inv_def)

lemma sim_move:
  assumes "sim s a" and "\<not> is_inside (sh_thread s t)" and "\<not> is_inside p"
    and "thread_rel (sh_mem s) (at_mem a) p q"
  shows "sim (move s t p) (place a t q)"
  using assms by (simp add: sim_def lock_inv_move)

lemma sim_enter:
  assumes rel: "sim s a" and c: "sh_thread s t = Called c" and g: "oc_guard code c = Inr ()"
    and e: "enter (oc_mode code c) t s = Some s'"
  shows "sim (move s' t (Inside c (oc_start code) (oc_body code c))) a"
proof -
  let ?i = "Inside c (oc_start code) (oc_body code c)"
  have s': "sh_mem s' = sh_mem s" "sh_thread s' = sh_thread s" "sh_fault s' = sh_fault s"
      "sh_writer s = None"
    using e locks [of c] by (cases "oc_mode code c"; auto split: if_splits)+
  have inv: "lock_inv (move s' t ?i)" using lock_inv_enter [OF _ c e] rel by (simp add: sim_def)
  have trel: "thread_rel (sh_mem s) (at_mem a) (sh_thread s t') (at_thread a t')"
    if "\<not> sh_fault s" for t' using rel that by (simp add: sim_def)
  have mem: "sh_mem s = at_mem a" if "\<not> sh_fault s"
    using rel that s'(4) by (simp add: sim_def)
  have "thread_rel (sh_mem s) (at_mem a) ?i (at_thread a t)" if "\<not> sh_fault s"
    using trel [OF that, of t] c g mem [OF that] by simp
  with trel mem show ?thesis
    using rel s' inv by (simp add: sim_def del: thread_rel.simps)
qed

lemma sim_act:
  assumes rel: "sim s a" and i: "sh_thread s t = Inside c l (acc # as)"
    and step: "acc l (sh_mem s) = Inr (l', m')" and nf: "\<not> sh_fault s"
  shows "sim (move s t (Inside c l' as)\<lparr>sh_mem := m'\<rparr>) a"
proof -
  have inv: "lock_inv s" and trel: "\<And>t. thread_rel (sh_mem s) (at_mem a) (sh_thread s t) (at_thread a t)"
    and mem: "sh_writer s = None \<longrightarrow> sh_mem s = at_mem a"
    using rel nf by (simp_all add: sim_def)
  have own: "thread_rel m' (at_mem a) (Inside c l' as) (at_thread a t)"
    using trel [of t] i step by simp
  show ?thesis
  proof (cases "oc_mode code c = Shared_lock")
    case True
    have "acc \<in> set (oc_body code c)" using trel [of t] i by simp
    from shared_reads [OF True this step] have "m' = sh_mem s" .
    with own have "thread_rel (sh_mem s) (at_mem a) (Inside c l' as) (at_thread a t)" by simp
    then show ?thesis
      using rel lock_inv_act [OF inv i] \<open>m' = sh_mem s\<close> [symmetric]
      by (simp add: sim_def del: thread_rel.simps)
  next
    case False
    have "lock_ok t (sh_writer s) (sh_readers s) (sh_thread s t)"
      using inv unfolding lock_inv_def by blast
    with i False have "sh_writer s = Some t" by simp
    moreover have "thread_rel m' (at_mem a) (sh_thread s t') (at_thread a t')" if "t' \<noteq> t" for t'
      using thread_rel_mem [OF alone [OF inv i False that] trel [of t']] .
    ultimately show ?thesis
      using rel own lock_inv_act [OF inv i] by (simp add: sim_def del: thread_rel.simps)
  qed
qed

text \<open>The unlock is the point at which the call takes effect.\<close>

lemma sim_leave:
  assumes rel: "sim s a" and i: "sh_thread s t = Inside c l []" and nf: "\<not> sh_fault s"
  shows "\<exists>a'. atomic_step eff a None a' \<and>
    sim (move (unlock (oc_mode code c) t s) t (Leaving (Inr (oc_reply code c l)))) a'"
proof -
  have inv: "lock_inv s" and trel: "\<And>t. thread_rel (sh_mem s) (at_mem a) (sh_thread s t) (at_thread a t)"
    and mem: "sh_writer s = None \<longrightarrow> sh_mem s = at_mem a" and v: "valid (at_mem a)"
    and nfa: "\<not> at_fault a"
    using rel nf by (simp_all add: sim_def)
  from trel [of t] i have p: "at_thread a t = Pending c" and g: "oc_guard code c = Inr ()"
    and b: "run_body (oc_body code c) (oc_start code) (at_mem a) = Inr (l, sh_mem s)" by auto
  have eff: "eff c (at_mem a) = Inr (oc_reply code c l, sh_mem s)"
    using body_effect [OF v g] b by simp
  let ?s = "unlock (oc_mode code c) t s" and ?a = "place a t (Answered (Inr (oc_reply code c l)))\<lparr>at_mem := sh_mem s\<rparr>"
  have u: "sh_mem ?s = sh_mem s" "sh_thread ?s = sh_thread s" "sh_fault ?s = sh_fault s"
    by (cases "oc_mode code c"; simp)+
  have rest: "thread_rel (sh_mem s) (sh_mem s) (sh_thread s t') (at_thread a t')" if "t' \<noteq> t" for t'
  proof (cases "oc_mode code c = Shared_lock")
    case True
    have "lock_ok t (sh_writer s) (sh_readers s) (sh_thread s t)"
      using inv unfolding lock_inv_def by blast
    with True i inv have "sh_writer s = None" by (auto simp: lock_inv_def)
    with mem trel show ?thesis by simp
  next
    case False
    show ?thesis using thread_rel_mem [OF alone [OF inv i False that] trel [of t']] .
  qed
  have "sim (move ?s t (Leaving (Inr (oc_reply code c l)))) ?a"
    using lock_inv_leave [OF inv i] rest u nf nfa effect_valid [OF v eff] by (simp add: sim_def)
  with at_effect [where eff = eff, OF nfa p eff] show ?thesis by blast
qed

lemma sim_faulty:
  assumes rel: "sim s a" and i: "sh_thread s t = Inside c l (acc # as)"
    and step: "acc l (sh_mem s) = Inl e" and nf: "\<not> sh_fault s"
  shows "\<exists>a'. atomic_step eff a None a' \<and> sim (s\<lparr>sh_fault := True\<rparr>) a'"
proof -
  have t: "thread_rel (sh_mem s) (at_mem a) (sh_thread s t) (at_thread a t)" and v: "valid (at_mem a)"
    and nfa: "\<not> at_fault a"
    using rel nf by (simp_all add: sim_def)
  from t i step have p: "at_thread a t = Pending c" and g: "oc_guard code c = Inr ()"
    and b: "run_body (oc_body code c) (oc_start code) (at_mem a) = Inl e"
    by (auto dest: sym)
  have "eff c (at_mem a) = Inl Undefined_behaviour" using body_effect [OF v g] b by simp
  with at_faulty [OF nfa p] sim_fault [OF rel] show ?thesis by blast
qed

lemma sim_step:
  assumes rel: "sim s a" and step: "micro_step code s e s'"
  shows "(\<exists>a'. atomic_step eff a e a' \<and> sim s' a') \<or> (e = None \<and> sim s' a)"
proof -
  have trel: "thread_rel (sh_mem s) (at_mem a) (sh_thread s t) (at_thread a t)" if "\<not> sh_fault s" for t
    using rel that by (simp add: sim_def)
  have nfa: "\<not> at_fault a" if "\<not> sh_fault s" using rel that by (simp add: sim_def)
  from step show ?thesis
  proof cases
    case (invoke t c)
    then have "at_thread a t = At_rest" using trel [of t] by simp
    then show ?thesis
      using invoke at_invoke [OF nfa, of t eff c] sim_move [OF rel, of t "Called c" "Pending c"] by auto
  next
    case (reject t c e')
    then have p: "at_thread a t = Pending c" using trel [of t] by simp
    show ?thesis
      using reject at_reject [OF nfa p] guard_effect [OF reject(5), of "at_mem a"]
        sim_move [OF rel, of t "Leaving (Inl e')" "Answered (Inl e')"] by auto
  next
    case (lock t c s0)
    then show ?thesis using sim_enter [OF rel] by blast
  next
    case (act t c l acc as l' m')
    then show ?thesis using sim_act [OF rel] by blast
  next
    case (fault t c l acc as e')
    then show ?thesis using sim_faulty [OF rel] by blast
  next
    case (leave t c l)
    then show ?thesis using sim_leave [OF rel] by blast
  next
    case (return t r)
    then have p: "at_thread a t = Answered r" using trel [of t] by simp
    show ?thesis
      using return at_return [OF nfa p] sim_move [OF rel, of t Outside At_rest] by auto
  qed
qed

theorem linearizable:
  assumes "valid m" and "runs (micro_step code) (shared_start m) es s"
  shows "\<exists>a. runs (atomic_step eff) (atomic_start m) es a \<and> sim s a"
  by (rule runs_simulated [where rel = sim, OF assms(2) sim_start [OF assms(1)]]) (rule sim_step)

text \<open>When no thread is in the middle of a call, the object is what the atomic calls made of it.\<close>

lemma sim_quiescent:
  assumes "sim s a" and "\<not> sh_fault s" and "\<And>t. \<not> is_inside (sh_thread s t)"
  shows "at_mem a = sh_mem s"
proof -
  have "sh_writer s = None"
  proof (rule ccontr)
    assume "sh_writer s \<noteq> None"
    then obtain t where "sh_writer s = Some t" by blast
    moreover have "lock_ok t (sh_writer s) (sh_readers s) (sh_thread s t)"
      using assms(1) by (simp add: sim_def lock_inv_def)
    ultimately show False using assms(3) [of t] by (simp add: lock_ok_outside)
  qed
  with assms show ?thesis by (simp add: sim_def)
qed

theorem atomic:
  assumes "valid m" and "runs (micro_step code) (shared_start m) es s"
  shows "\<exists>a. runs (atomic_step eff) (atomic_start m) es a \<and> sh_fault s = at_fault a \<and>
    (\<not> sh_fault s \<and> (\<forall>t. \<not> is_inside (sh_thread s t)) \<longrightarrow> at_mem a = sh_mem s)"
proof -
  from linearizable [OF assms] obtain a where
    a: "runs (atomic_step eff) (atomic_start m) es a" "sim s a" by blast
  then have "sh_fault s = at_fault a" by (simp add: sim_def)
  with a sim_quiescent [OF a(2)] show ?thesis by blast
qed

text \<open>An object whose operations never leave their arrays does not fault in any interleaving.\<close>

lemma atomic_no_fault:
  assumes "runs (atomic_step eff) (atomic_start m) es a" and "valid m"
    and defined: "\<And>c m. valid m \<Longrightarrow> eff c m \<noteq> Inl Undefined_behaviour"
  shows "valid (at_mem a) \<and> \<not> at_fault a"
  using assms(1,2)
proof (induction rule: runs.induct)
  case runs_nil
  then show ?case by (simp add: atomic_start_def)
next
  case (runs_snoc es a e a' es')
  then have a: "valid (at_mem a)" by blast
  from runs_snoc.hyps(2) runs_snoc.IH [OF runs_snoc.prems] show ?case
    by cases (use defined [OF a] in \<open>auto intro: effect_valid [OF a]\<close>)
qed

lemma no_fault:
  assumes "valid m" and "runs (micro_step code) (shared_start m) es s"
    and "\<And>c m. valid m \<Longrightarrow> eff c m \<noteq> Inl Undefined_behaviour"
  shows "\<not> sh_fault s"
  using atomic [OF assms(1,2)] atomic_no_fault [OF _ assms(1,3)] by blast

text \<open>Mutual exclusion: whoever is inside together with a writer is that writer.\<close>

theorem exclusion:
  assumes "valid m" and "runs (micro_step code) (shared_start m) es s"
    and "sh_thread s t = Inside c l as" and "sh_thread s t' = Inside c' l' as'" and "t \<noteq> t'"
  shows "oc_mode code c = Shared_lock \<and> oc_mode code c' = Shared_lock"
proof -
  from linearizable [OF assms(1,2)] have inv: "lock_inv s" by (auto simp: sim_def)
  show ?thesis
    using alone [OF inv assms(3), of t'] alone [OF inv assms(4), of t] assms(3-5) by auto
qed

text \<open>Progress: while some call is under way, some thread can go on with its call.\<close>

lemma inside_moves:
  assumes "\<not> sh_fault s" and "is_inside (sh_thread s t)"
  shows "\<exists>s'. micro_step code s None s'"
proof -
  from assms(2) obtain c l as where i: "sh_thread s t = Inside c l as" by (cases "sh_thread s t") auto
  show ?thesis
  proof (cases as)
    case Nil
    with leave [OF assms(1)] i show ?thesis by blast
  next
    case (Cons acc rest)
    with i have i': "sh_thread s t = Inside c l (acc # rest)" by simp
    show ?thesis
      by (cases "acc l (sh_mem s)")
        (use fault [OF assms(1) i'] act [OF assms(1) i'] in \<open>auto intro: exI\<close>)
  qed
qed

theorem progress:
  assumes "valid m" and "runs (micro_step code) (shared_start m) es s" and nf: "\<not> sh_fault s"
    and "sh_thread s t \<noteq> Outside"
  shows "\<exists>e s'. micro_step code s e s' \<and> (\<forall>u c. e \<noteq> Some (Invoke u c))"
proof (cases "sh_thread s t")
  case Outside
  with assms(4) show ?thesis by simp
next
  case (Inside c l as)
  then have "is_inside (sh_thread s t)" by simp
  from inside_moves [OF nf this] show ?thesis by blast
next
  case (Leaving r)
  from return [OF nf this] show ?thesis by blast
next
  case (Called c)
  show ?thesis
  proof (cases "oc_guard code c")
    case (Inl e)
    from reject [OF nf Called this] show ?thesis by blast
  next
    case (Inr u)
    then have g: "oc_guard code c = Inr ()" by simp
    show ?thesis
    proof (cases "enter (oc_mode code c) t s")
      case (Some s')
      from lock [OF nf Called g this] show ?thesis by blast
    next
      case None
      then have "\<exists>u. sh_writer s = Some u \<or> u \<in> sh_readers s"
        by (cases "oc_mode code c") (auto split: if_splits)
      then obtain u where u: "sh_writer s = Some u \<or> u \<in> sh_readers s" by blast
      from linearizable [OF assms(1,2)] have "lock_ok u (sh_writer s) (sh_readers s) (sh_thread s u)"
        by (auto simp: sim_def lock_inv_def)
      with u have "is_inside (sh_thread s u)" using lock_ok_outside by blast
      from inside_moves [OF nf this] show ?thesis by blast
    qed
  qed
qed

end

end
