(* ===== verification/Memory_Locking.thy ===== *)
theory Memory_Locking
  imports Locked_Object Memory_Map
begin

text \<open>
  The locking of \<open>memory_map.cpp\<close>: every operation of the class checks its arguments, takes
  \<open>rw_mutex_\<close> as a \<open>std::shared_lock\<close> or a \<open>std::unique_lock\<close>, and touches the bytes of one area one
  after the other. The theory shows that this makes the operations of \<open>Memory_Map\<close> the single steps
  that the rest of the development takes them for.
\<close>

section \<open>The operations as accesses under the lock\<close>

datatype map_call =
  Read_byte memory_area size_t
| Write_byte memory_area size_t u8
| Read_bit memory_area size_t u8
| Write_bit memory_area size_t u8 bool
| Read_bytes memory_area size_t size_t
| Write_bytes memory_area size_t "u8 list"
| Get_area_snapshot memory_area
| Copy_snapshot_to memory_area "u8 list"

datatype memory_reply = Nothing | Byte u8 | Bit bool | Bytes "u8 list"

text \<open>What runs before the lock is taken.\<close>

fun memory_guard :: "map_call \<Rightarrow> unit result" where
  "memory_guard (Read_byte a off) = validate_bounds a off 1"
| "memory_guard (Write_byte a off v) = validate_bounds a off 1"
| "memory_guard (Read_bit a off i) =
     (if i > 7 then Inl (Invalid_argument ''Bit index must be 0..7'') else validate_bounds a off 1)"
| "memory_guard (Write_bit a off i v) =
     (if i > 7 then Inl (Invalid_argument ''Bit index must be 0..7'') else validate_bounds a off 1)"
| "memory_guard (Read_bytes a off n) = validate_bounds a off n"
| "memory_guard (Write_bytes a off data) = validate_bounds a off (word_of_nat (length data))"
| "memory_guard (Get_area_snapshot a) = Inr ()"
| "memory_guard (Copy_snapshot_to a data) = validate_bounds a 0 (word_of_nat (length data))"

fun memory_mode :: "map_call \<Rightarrow> lock_mode" where
  "memory_mode (Read_byte a off) = Shared_lock"
| "memory_mode (Read_bit a off i) = Shared_lock"
| "memory_mode (Read_bytes a off n) = Shared_lock"
| "memory_mode (Get_area_snapshot a) = Shared_lock"
| "memory_mode (Write_byte a off v) = Unique_lock"
| "memory_mode (Write_bit a off i v) = Unique_lock"
| "memory_mode (Write_bytes a off data) = Unique_lock"
| "memory_mode (Copy_snapshot_to a data) = Unique_lock"

text \<open>Single accesses to the array of an area; the bytes loaded so far are the locals of the call.\<close>

definition load :: "memory_area \<Rightarrow> nat \<Rightarrow> (u8 list, memory_map) access" where
  "load a i l m = res_bind (ptr_read (get_area m a) i) (\<lambda>b. Inr (l @ [b], m))"

definition store :: "memory_area \<Rightarrow> nat \<Rightarrow> (u8 list \<Rightarrow> u8) \<Rightarrow> (u8 list, memory_map) access" where
  "store a i f l m = res_bind (ptr_write (get_area m a) i (f l)) (\<lambda>xs. Inr (l, put_area m a xs))"

definition store_all :: "memory_area \<Rightarrow> nat \<Rightarrow> u8 list \<Rightarrow> (u8 list, memory_map) access list" where
  "store_all a off data = map (\<lambda>j. store a (off + j) (\<lambda>_. data ! j)) [0..<length data]"

fun memory_body :: "map_call \<Rightarrow> (u8 list, memory_map) access list" where
  "memory_body (Read_byte a off) = [load a (unat off)]"
| "memory_body (Write_byte a off v) = [store a (unat off) (\<lambda>_. v)]"
| "memory_body (Read_bit a off i) = [load a (unat off)]"
| "memory_body (Write_bit a off i v) =
     [load a (unat off),
      store a (unat off) (\<lambda>l. if v then u8_or_assign (hd l) (bit_mask i)
                              else u8_and_assign (hd l) (NOT (bit_mask i)))]"
| "memory_body (Read_bytes a off n) = map (load a) [unat off..<unat off + unat n]"
| "memory_body (Write_bytes a off data) = store_all a (unat off) data"
| "memory_body (Get_area_snapshot a) = map (load a) [0..<area_bytes a]"
| "memory_body (Copy_snapshot_to a data) = store_all a 0 data"

fun memory_answer :: "map_call \<Rightarrow> u8 list \<Rightarrow> memory_reply" where
  "memory_answer (Read_byte a off) l = Byte (hd l)"
| "memory_answer (Read_bit a off i) l = Bit (u8_and (hd l) (bit_mask i) \<noteq> 0)"
| "memory_answer (Read_bytes a off n) l = Bytes l"
| "memory_answer (Get_area_snapshot a) l = Bytes l"
| "memory_answer (Write_byte a off v) l = Nothing"
| "memory_answer (Write_bit a off i v) l = Nothing"
| "memory_answer (Write_bytes a off data) l = Nothing"
| "memory_answer (Copy_snapshot_to a data) l = Nothing"

definition memory_code :: "(map_call, u8 list, memory_map, memory_reply) object_code" where
  "memory_code = \<lparr>oc_guard = memory_guard, oc_mode = memory_mode, oc_body = memory_body,
     oc_start = [], oc_reply = memory_answer\<rparr>"

section \<open>The operations as single steps\<close>

abbreviation answering :: "('a \<Rightarrow> memory_reply) \<Rightarrow> 'a result \<Rightarrow> memory_map \<Rightarrow> (memory_reply \<times> memory_map) result" where
  "answering f r m \<equiv> res_bind r (\<lambda>x. Inr (f x, m))"

abbreviation changing :: "memory_map result \<Rightarrow> (memory_reply \<times> memory_map) result" where
  "changing r \<equiv> res_bind r (\<lambda>m. Inr (Nothing, m))"

fun memory_effect :: "map_call \<Rightarrow> memory_map \<Rightarrow> (memory_reply \<times> memory_map) result" where
  "memory_effect (Read_byte a off) m = answering Byte (read_byte m a off) m"
| "memory_effect (Write_byte a off v) m = changing (write_byte m a off v)"
| "memory_effect (Read_bit a off i) m = answering Bit (read_bit m a off i) m"
| "memory_effect (Write_bit a off i v) m = changing (write_bit m a off i v)"
| "memory_effect (Read_bytes a off n) m = answering Bytes (read_bytes m a off n) m"
| "memory_effect (Write_bytes a off data) m = changing (write_bytes m a off data)"
| "memory_effect (Get_area_snapshot a) m = answering Bytes (get_area_snapshot m a) m"
| "memory_effect (Copy_snapshot_to a data) m = changing (copy_snapshot_to m a data)"

section \<open>The bodies have the effect of the operations\<close>

lemma run_loads:
  assumes "i \<le> length (get_area m a)"
  shows "run_body (map (load a) [i..<i + n]) l m =
    (if i + n \<le> length (get_area m a) then Inr (l @ take n (drop i (get_area m a)), m)
     else Inl Undefined_behaviour)"
proof (induction n)
  case 0
  with assms show ?case by simp
next
  case (Suc n)
  then show ?case
    by (auto simp: run_body_append load_def ptr_read_def take_Suc_conv_app_nth)
qed

lemma run_stores:
  assumes "off \<le> length (get_area m a)" and "n \<le> length data"
  shows "run_body (map (\<lambda>j. store a (off + j) (\<lambda>_. data ! j)) [0..<n]) l m =
    (if off + n \<le> length (get_area m a)
     then Inr (l, put_area m a (take off (get_area m a) @ take n data @ drop (off + n) (get_area m a)))
     else Inl Undefined_behaviour)"
  using assms(2)
proof (induction n)
  case 0
  with assms(1) show ?case by simp
next
  case (Suc n)
  let ?xs = "get_area m a"
  have upd: "(take off ?xs @ take n data @ drop (off + n) ?xs)[off + n := data ! n] =
      take off ?xs @ take (Suc n) data @ drop (off + Suc n) ?xs" if "off + n < length ?xs"
    using that Suc.prems
    by (simp add: list_update_append take_Suc_conv_app_nth flip: Cons_nth_drop_Suc)
  show ?case
    using Suc upd by (auto simp: run_body_append store_def ptr_write_def min_def)
qed

lemma run_store_all:
  assumes "off \<le> length (get_area m a)"
  shows "run_body (store_all a off data) l m =
    res_bind (ptr_copy (get_area m a) off data) (\<lambda>xs. Inr (l, put_area m a xs))"
  using run_stores [OF assms order_refl, of data l] by (simp add: store_all_def ptr_copy_def)

lemma guard_failure: "validate_bounds a off n = Inl e \<Longrightarrow> e = Out_of_range ''MemoryMap access out of bounds''"
  by (simp add: validate_bounds_def Let_def split: if_splits)

text \<open>An offset past the area is admitted only when the sum in the guard wraps, and then some byte is asked for.\<close>

lemma guard_offset:
  assumes "validate_bounds a off n = Inr ()" and "area_bytes a < unat off"
  shows "n \<noteq> 0"
  using assms by (auto simp: validate_bounds_def Let_def word_less_nat_alt split: if_splits)

lemma load_bytes:
  assumes "length (get_area m a) < off \<Longrightarrow> n \<noteq> 0"
  shows "run_body (map (load a) [off..<off + n]) l m =
    res_bind (ptr_read_range (get_area m a) off n) (\<lambda>bs. Inr (l @ bs, m))"
proof (cases "off \<le> length (get_area m a)")
  case True
  then show ?thesis by (simp add: run_loads ptr_read_range_def)
next
  case False
  with assms have "[off..<off + n] = off # [Suc off..<off + n]" by (simp add: upt_conv_Cons)
  with False show ?thesis by (simp add: load_def ptr_read_def ptr_read_range_def)
qed

lemma store_bytes:
  assumes "length (get_area m a) < off \<Longrightarrow> data \<noteq> []"
  shows "run_body (store_all a off data) l m =
    res_bind (ptr_copy (get_area m a) off data) (\<lambda>xs. Inr (l, put_area m a xs))"
proof (cases "off \<le> length (get_area m a)")
  case True
  then show ?thesis by (rule run_store_all)
next
  case False
  with assms have "[0..<length data] = 0 # [1..<length data]" by (simp add: upt_conv_Cons)
  with False show ?thesis by (simp add: store_all_def store_def ptr_write_def ptr_copy_def)
qed

lemma memory_body_effect:
  assumes v: "valid_memory m" and g: "memory_guard c = Inr ()"
  shows "memory_effect c m = (case run_body (memory_body c) [] m of
    Inl _ \<Rightarrow> Inl Undefined_behaviour | Inr (l, m') \<Rightarrow> Inr (memory_answer c l, m'))"
proof (cases c)
  case (Read_byte a off)
  with v g show ?thesis by (simp add: read_byte_def load_def ptr_read_def)
next
  case (Write_byte a off b)
  with v g show ?thesis by (simp add: write_byte_def store_def ptr_write_def)
next
  case (Read_bit a off i)
  with v g show ?thesis by (simp add: read_bit_def read_byte_def load_def ptr_read_def split: if_splits)
next
  case (Write_bit a off i b)
  with v g show ?thesis
    by (simp add: write_bit_def load_def store_def ptr_read_def ptr_write_def Let_def split: if_splits)
next
  case (Read_bytes a off n)
  have "length (get_area m a) < unat off \<Longrightarrow> unat n \<noteq> 0"
    using guard_offset [of a off n] g v Read_bytes by (simp add: unat_eq_0)
  from load_bytes [OF this, where l = "[]"] show ?thesis
    using g Read_bytes by (simp add: read_bytes_def ptr_read_range_def)
next
  case (Write_bytes a off data)
  have "length (get_area m a) < unat off \<Longrightarrow> data \<noteq> []"
    using guard_offset [of a off "word_of_nat (length data)"] g v Write_bytes by auto
  from store_bytes [OF this, where l = "[]"] show ?thesis
    using g Write_bytes by (simp add: write_bytes_def ptr_copy_def)
next
  case (Get_area_snapshot a)
  have "run_body (map (load a) [0..<area_bytes a]) [] m = Inr (get_area m a, m)"
    using load_bytes [of m a 0 "area_bytes a" "[]"] v by simp
  with Get_area_snapshot v show ?thesis by (simp add: get_area_snapshot_def)
next
  case (Copy_snapshot_to a data)
  from store_bytes [of m a 0 data "[]"] show ?thesis
    using g Copy_snapshot_to by (simp add: copy_snapshot_to_def ptr_copy_def)
qed

lemma memory_guard_effect:
  assumes "memory_guard c = Inl e"
  shows "e \<noteq> Undefined_behaviour \<and> memory_effect c m = Inl e"
  using assms
  by (cases c)
    (auto simp: read_byte_def write_byte_def read_bit_def write_bit_def read_bytes_def write_bytes_def
       copy_snapshot_to_def dest: guard_failure split: if_splits)

lemma memory_effect_valid:
  "valid_memory m \<Longrightarrow> memory_effect c m = Inr (r, m') \<Longrightarrow> valid_memory m'"
  by (cases c) (auto simp: res_bind_Inr intro: valid_intros)

lemma shared_bodies_read:
  "memory_mode c = Shared_lock \<Longrightarrow> acc \<in> set (memory_body c) \<Longrightarrow> acc l m = Inr (l', m') \<Longrightarrow> m' = m"
  by (cases c) (auto simp: load_def res_bind_Inr)

interpretation mem: locked_object memory_code memory_effect valid_memory
proof
  fix c show "oc_mode memory_code c \<noteq> No_lock" by (cases c) (simp_all add: memory_code_def)
next
  fix m c assume "valid_memory m" and "oc_guard memory_code c = Inr ()"
  then show "memory_effect c m = (case run_body (oc_body memory_code c) (oc_start memory_code) m of
      Inl _ \<Rightarrow> Inl Undefined_behaviour | Inr (l, m') \<Rightarrow> Inr (oc_reply memory_code c l, m'))"
    using memory_body_effect [of m c] by (simp add: memory_code_def split: sum.splits)
qed (auto simp: memory_code_def intro: shared_bodies_read memory_effect_valid dest: memory_guard_effect)

section \<open>Properties\<close>

text \<open>
  C13. The operations of \<open>MemoryMap\<close> are atomic. Whatever calls any number of threads make, and however
  their single byte accesses interleave under \<open>rw_mutex_\<close>, the invocations and replies that are
  observed are those of a run in which every call is one step of its sequential definition between
  its invocation and its return; when nobody is inside, the bytes are the same too. An access outside
  the arrays is reached in the one exactly when it is in the other.
\<close>

theorem memory_linearizable:
  assumes "valid_memory m" and "runs (micro_step memory_code) (shared_start m) es s"
  shows "\<exists>a. runs (atomic_step memory_effect) (atomic_start m) es a \<and> sh_fault s = at_fault a \<and>
    (\<not> sh_fault s \<and> (\<forall>t. \<not> is_inside (sh_thread s t)) \<longrightarrow> at_mem a = sh_mem s)"
  using mem.atomic [OF assms] .

text \<open>Two threads set different bits of one byte; the first is interrupted between its load and its store.\<close>

definition two_writers :: "map_call choice list" where
  "two_writers =
     [Start 0 (Write_bit Memory 3 0 True), Start 1 (Write_bit Memory 3 1 True), Go 0, Go 0, Go 0, Go 0,
      Go 1, Go 0, Go 1, Go 1, Go 1, Go 1]"

abbreviation writers_events :: "(map_call, memory_reply) event list" where
  "writers_events \<equiv> [Invoke 0 (Write_bit Memory 3 0 True), Invoke 1 (Write_bit Memory 3 1 True),
     Return 0 (Inr Nothing), Return 1 (Inr Nothing)]"

lemma two_writers_play:
  "\<exists>s. play memory_code two_writers (shared_start new_memory_map) = Some (writers_events, s)"
  by (simp add: two_writers_def memory_code_def shared_start_def validate_bounds_one load_def store_def)

theorem memory_linearizable_witness:
  "\<exists>a. runs (atomic_step memory_effect) (atomic_start new_memory_map) writers_events a"
proof -
  from two_writers_play obtain s where
    "play memory_code two_writers (shared_start new_memory_map) = Some (writers_events, s)" by blast
  from memory_linearizable [OF valid_new_memory_map play_runs [OF this]] show ?thesis by blast
qed

text \<open>An access that can change a byte: on some map it leaves another value there.\<close>

definition writes_byte :: "(u8 list, memory_map) access \<Rightarrow> memory_area \<Rightarrow> nat \<Rightarrow> bool" where
  "writes_byte acc a i \<longleftrightarrow> (\<exists>l m l' m'. acc l m = Inr (l', m') \<and> get_area m' a ! i \<noteq> get_area m a ! i)"

lemma store_writes_byte:
  assumes "i < area_bytes a"
  shows "writes_byte (store a i (\<lambda>_. v)) a i"
proof -
  let ?m = "put_area new_memory_map a ((get_area new_memory_map a)[i := v + 1])"
  have "store a i (\<lambda>_. v) [] ?m = Inr ([], put_area ?m a ((get_area ?m a)[i := v]))"
    using assms by (simp add: store_def ptr_write_def)
  with assms show ?thesis
    unfolding writes_byte_def by (intro exI conjI) (assumption, simp)
qed

lemma shared_bodies_write_nothing: "memory_mode c = Shared_lock \<Longrightarrow> acc \<in> set (memory_body c) \<Longrightarrow> \<not> writes_byte acc a i"
  unfolding writes_byte_def using shared_bodies_read by blast

text \<open>
  C31. The lock of \<open>MemoryMap\<close> excludes data races and never deadlocks: while a thread between its lock and its
  unlock still has an access ahead of it that can change a byte, no other thread is between its lock and its
  unlock, so none is about to read or write that byte, or any other; and while a call is under way some thread
  can take the next step of its call.
\<close>

theorem memory_race_free:
  assumes "valid_memory m" and "runs (micro_step memory_code) (shared_start m) es s"
  shows "(sh_thread s t = Inside c l as \<and> acc \<in> set as \<and> writes_byte acc a i \<and> t' \<noteq> t \<longrightarrow>
      \<not> is_inside (sh_thread s t')) \<and>
    (\<not> sh_fault s \<and> sh_thread s u \<noteq> Outside \<longrightarrow>
      (\<exists>e s'. micro_step memory_code s e s' \<and> (\<forall>v d. e \<noteq> Some (Invoke v d))))"
proof (intro conjI impI notI)
  assume race: "sh_thread s t = Inside c l as \<and> acc \<in> set as \<and> writes_byte acc a i \<and> t' \<noteq> t" "is_inside (sh_thread s t')"
  then obtain c' l' as' where "sh_thread s t' = Inside c' l' as'" by (cases "sh_thread s t'") simp_all
  with race have "memory_mode c = Shared_lock"
    using mem.exclusion [OF assms, of t c l as t' c' l' as'] by (simp add: memory_code_def)
  moreover have "acc \<in> set (memory_body c)" using inside_body [OF assms(2), of t c l as] race by (auto simp: memory_code_def)
  ultimately show False using shared_bodies_write_nothing race by blast
next
  assume "\<not> sh_fault s \<and> sh_thread s u \<noteq> Outside"
  then show "\<exists>e s'. micro_step memory_code s e s' \<and> (\<forall>v d. e \<noteq> Some (Invoke v d))"
    using mem.progress [OF assms, of u] by auto
qed

text \<open>A thread about to write a byte, and one that has called for the same byte: the second waits outside.\<close>

lemma write_and_wait_play:
  "\<exists>s. play memory_code
       [Start 0 (Write_byte Input 7 9), Start 1 (Read_byte Input 7), Go 0] (shared_start new_memory_map) =
       Some ([Invoke 0 (Write_byte Input 7 9), Invoke 1 (Read_byte Input 7)], s) \<and> \<not> sh_fault s \<and>
     sh_thread s 0 = Inside (Write_byte Input 7 9) [] [store Input 7 (\<lambda>_. 9)]"
  by (simp add: memory_code_def shared_start_def validate_bounds_one)

theorem memory_race_free_witness:
  "\<exists>s. runs (micro_step memory_code) (shared_start new_memory_map)
       [Invoke 0 (Write_byte Input 7 9), Invoke 1 (Read_byte Input 7)] s \<and>
     writes_byte (store Input 7 (\<lambda>_. 9)) Input 7 \<and> is_inside (sh_thread s 0) \<and> \<not> is_inside (sh_thread s 1) \<and>
     (\<exists>e s'. micro_step memory_code s e s')"
proof -
  from write_and_wait_play obtain s where
    p: "play memory_code [Start 0 (Write_byte Input 7 9), Start 1 (Read_byte Input 7), Go 0]
        (shared_start new_memory_map) = Some ([Invoke 0 (Write_byte Input 7 9), Invoke 1 (Read_byte Input 7)], s)"
    and s: "\<not> sh_fault s" "sh_thread s 0 = Inside (Write_byte Input 7 9) [] [store Input 7 (\<lambda>_. 9)]" by blast
  note race_free = memory_race_free [OF valid_new_memory_map play_runs [OF p]]
  have w: "writes_byte (store Input 7 (\<lambda>_. 9)) Input 7" by (rule store_writes_byte) simp
  have "\<exists>e s'. micro_step memory_code s e s'" using conjunct2 [OF race_free [where u = 0]] s by auto
  then show ?thesis
    using play_runs [OF p] s w race_free [where t = 0 and t' = 1 and c = "Write_byte Input 7 9" and l = "[]"
      and as = "[store Input 7 (\<lambda>_. 9)]" and acc = "store Input 7 (\<lambda>_. 9)" and a = Input and i = 7] by (intro exI [of _ s]) auto
qed

end
