(* ===== verification/Log_Locking.thy ===== *)
theory Log_Locking
  imports Locked_Object Ring_Buffer_Logger
begin

text \<open>
  The locking of \<open>ring_buffer_logger.cpp\<close>: \<open>log\<close> and the draining block of \<open>flush_pending\<close> hold
  \<open>mutex_\<close> while they fill a slot field by field or copy the pending slots one by one. With the lock
  they are the single steps of \<open>Ring_Buffer_Logger\<close>.
\<close>

section \<open>The operations as accesses under the mutex\<close>

datatype ring_call = Log nat log_level string | Drain

text \<open>The locals of \<open>flush_pending\<close>: the first slot to copy, and the copies.\<close>

type_synonym drain_locals = "size_t \<times> log_entry list"

definition update_slot ::
  "(log_entry \<Rightarrow> log_entry) \<Rightarrow> (drain_locals, log_ring) access" where
  "update_slot f l r =
     res_bind (ptr_read (rb_buffer r) (unat (rb_head r))) (\<lambda>slot.
       Inr (l, r\<lparr>rb_buffer := (rb_buffer r)[unat (rb_head r) := f slot]\<rparr>))"

definition advance_head :: "(drain_locals, log_ring) access" where
  "advance_head l r = Inr (l, r\<lparr>rb_head := (rb_head r + 1) mod kCapacity\<rparr>)"

definition count_entry :: "(drain_locals, log_ring) access" where
  "count_entry l r =
     (if rb_count r < kCapacity then Inr (l, r\<lparr>rb_count := rb_count r + 1\<rparr>)
      else Inr (l, r\<lparr>rb_dropped := rb_dropped r + 1\<rparr>))"

definition find_start :: "(drain_locals, log_ring) access" where
  "find_start l r =
     Inr (((rb_head r + kCapacity - rb_count r) mod kCapacity, []), r)"

text \<open>
  One turn of the copying loop, which tests \<open>count_\<close> each time: as that is at most the capacity, the turns
  of all indices below the capacity are the loop. With nothing pending no turn copies, and the early
  return of the code is no difference.
\<close>

definition copy_slot :: "nat \<Rightarrow> (drain_locals, log_ring) access" where
  "copy_slot i l r =
     (case l of (start, drained) \<Rightarrow>
        if i < unat (rb_count r)
        then res_bind (ptr_read (rb_buffer r) (unat ((start + of_nat i) mod kCapacity))) (\<lambda>slot.
          Inr ((start, drained @ [slot]), r))
        else Inr (l, r))"

definition reset_count :: "(drain_locals, log_ring) access" where
  "reset_count l r = Inr (l, if rb_count r = 0 then r else r\<lparr>rb_count := 0\<rparr>)"

fun ring_body :: "ring_call \<Rightarrow> (drain_locals, log_ring) access list" where
  "ring_body (Log now level message) =
     (let n = min (length message) kMaxMessageLen
      in [update_slot (\<lambda>e. e\<lparr>entry_timestamp := now\<rparr>), update_slot (\<lambda>e. e\<lparr>entry_level := level\<rparr>),
          update_slot (\<lambda>e. e\<lparr>entry_message_len := n\<rparr>),
          update_slot (\<lambda>e. e\<lparr>entry_message := copy_front message n (entry_message e)\<rparr>),
          advance_head, count_entry])"
| "ring_body Drain = find_start # map copy_slot [0..<unat kCapacity] @ [reset_count]"

fun ring_answer :: "ring_call \<Rightarrow> drain_locals \<Rightarrow> log_entry list" where
  "ring_answer (Log now level message) l = []"
| "ring_answer Drain l = snd l"

definition ring_code :: "(ring_call, drain_locals, log_ring, log_entry list) object_code" where
  "ring_code = \<lparr>oc_guard = (\<lambda>_. Inr ()), oc_mode = (\<lambda>_. Unique_lock), oc_body = ring_body,
     oc_start = (0, []), oc_reply = ring_answer\<rparr>"

fun ring_effect :: "ring_call \<Rightarrow> log_ring \<Rightarrow> (log_entry list \<times> log_ring) result" where
  "ring_effect (Log now level message) r = Inr ([], log r now level message)"
| "ring_effect Drain r = Inr (drain_pending r)"

section \<open>The bodies have the effect of the operations\<close>

lemma run_copy_slots:
  assumes "length (rb_buffer r) = 1024"
  shows "run_body (map copy_slot [0..<k]) (start, []) r =
    Inr ((start, map (\<lambda>i. rb_buffer r ! unat ((start + of_nat i) mod kCapacity)) [0..<min k (unat (rb_count r))]), r)"
proof (induction k)
  case (Suc k)
  have "unat ((start + of_nat k) mod kCapacity) < length (rb_buffer r)"
    using assms by (simp add: unat_mod)
  then show ?case using Suc by (auto simp: run_body_append copy_slot_def min_def)
qed simp

lemma ring_body_effect:
  assumes "valid_ring r"
  shows "ring_effect c r = (case run_body (ring_body c) (0, []) r of
    Inl _ \<Rightarrow> Inl Undefined_behaviour | Inr (l, r') \<Rightarrow> Inr (ring_answer c l, r'))"
proof (cases c)
  case (Log now level message)
  from assms have "unat (rb_head r) < length (rb_buffer r)" by (simp add: valid_ring_def)
  with Log show ?thesis
    by (simp add: log_def Let_def update_slot_def advance_head_def count_entry_def)
next
  case Drain
  from assms have len: "length (rb_buffer r) = 1024" and "min 1024 (unat (rb_count r)) = unat (rb_count r)"
    by (simp_all add: valid_ring_def)
  then show ?thesis
    using Drain run_copy_slots [OF len, of 1024]
    by (simp add: drain_pending_def Let_def run_body_append find_start_def reset_count_def
        del: upt_rec_numeral)
qed

lemma valid_log: "valid_ring r \<Longrightarrow> valid_ring (log r now level message)"
  using valid_put_record [of r "(now, level, message)"] by simp

lemma valid_drain: "valid_ring r \<Longrightarrow> drain_pending r = (xs, r') \<Longrightarrow> valid_ring r'"
  by (auto simp: drain_pending_def Let_def valid_ring_def split: if_splits)

interpretation ring_lock: locked_object ring_code ring_effect valid_ring
proof
  fix r c assume "valid_ring r"
  from ring_body_effect [OF this, of c]
  show "ring_effect c r = (case run_body (oc_body ring_code c) (oc_start ring_code) r of
      Inl _ \<Rightarrow> Inl Undefined_behaviour | Inr (l, r') \<Rightarrow> Inr (oc_reply ring_code c l, r'))"
    by (simp add: ring_code_def split: sum.splits)
next
  fix r c x r' assume "valid_ring r" and "ring_effect c r = Inr (x, r')"
  then show "valid_ring r'" by (cases c) (auto intro: valid_log valid_drain)
qed (simp_all add: ring_code_def)

lemma ring_never_faults: "valid_ring r \<Longrightarrow> ring_effect c r \<noteq> Inl e"
  by (cases c) simp_all

section \<open>Properties\<close>

text \<open>
  C34. \<open>log\<close> and the draining of \<open>flush_pending\<close> are atomic. Whatever calls the threads make, and however
  the assignments to the fields of the slots, to \<open>head_\<close> and to \<open>count_\<close> interleave under \<open>mutex_\<close>,
  the invocations and replies are those of a run in which every call is one step; no record is read
  half written, no access leaves the buffer, and two threads are never between lock and unlock at once.
\<close>

theorem log_linearizable:
  assumes "valid_ring r" and "runs (micro_step ring_code) (shared_start r) es s"
  shows "(\<exists>a. runs (atomic_step ring_effect) (atomic_start r) es a \<and>
      ((\<forall>t. \<not> is_inside (sh_thread s t)) \<longrightarrow> at_mem a = sh_mem s)) \<and>
    \<not> sh_fault s \<and> (is_inside (sh_thread s t) \<and> is_inside (sh_thread s t') \<longrightarrow> t = t')"
proof (intro conjI impI)
  show nf: "\<not> sh_fault s"
    by (rule ring_lock.no_fault [OF assms]) (simp add: ring_never_faults)
  with ring_lock.atomic [OF assms] show "\<exists>a. runs (atomic_step ring_effect) (atomic_start r) es a \<and>
      ((\<forall>t. \<not> is_inside (sh_thread s t)) \<longrightarrow> at_mem a = sh_mem s)" by blast
  assume "is_inside (sh_thread s t) \<and> is_inside (sh_thread s t')"
  then obtain c l as c' l' as' where
    "sh_thread s t = Inside c l as" "sh_thread s t' = Inside c' l' as'"
    by (cases "sh_thread s t"; cases "sh_thread s t'") auto
  from ring_lock.exclusion [OF assms this] show "t = t'" by (auto simp: ring_code_def)
qed

text \<open>Two threads log one message each; the second waits for the mutex while the first fills its slot.\<close>

lemma two_loggers_play:
  "\<exists>s. play ring_code
       ([Start 0 (Log 5 Info ''a''), Start 1 (Log 6 Warn ''b''), Go 0, Go 0, Go 0, Go 0, Go 0, Go 0, Go 0, Go 0,
         Go 1, Go 1, Go 0])
       (shared_start new_log_ring) =
     Some ([Invoke 0 (Log 5 Info ''a''), Invoke 1 (Log 6 Warn ''b''), Return 0 (Inr [])], s)"
  by (simp add: ring_code_def shared_start_def new_log_ring_def update_slot_def advance_head_def
      count_entry_def Let_def)

theorem log_linearizable_witness:
  "\<exists>a. runs (atomic_step ring_effect) (atomic_start new_log_ring)
     [Invoke 0 (Log 5 Info ''a''), Invoke 1 (Log 6 Warn ''b''), Return 0 (Inr [])] a"
proof -
  from two_loggers_play obtain s where "play ring_code
       ([Start 0 (Log 5 Info ''a''), Start 1 (Log 6 Warn ''b''), Go 0, Go 0, Go 0, Go 0, Go 0, Go 0, Go 0, Go 0,
         Go 1, Go 1, Go 0])
       (shared_start new_log_ring) =
     Some ([Invoke 0 (Log 5 Info ''a''), Invoke 1 (Log 6 Warn ''b''), Return 0 (Inr [])], s)" by blast
  from log_linearizable [OF valid_new_log_ring play_runs [OF this]] show ?thesis by blast
qed

end
