(* ===== verification/Mock_Race.thy ===== *)
theory Mock_Race
  imports Locked_Object Mock_Driver
begin

text \<open>
  The simulated inputs of \<open>mock_driver.cpp\<close> without a lock. The web threads call
  \<open>set_mock_input_bit\<close> and \<open>toggle_mock_input_bit\<close> while the scan thread calls \<open>read_inputs\<close>; the
  class has no mutex, so a call loads the byte and stores it back with nothing to keep the others
  out. The fine-grained machine of \<open>Locked_Object\<close> on this code has runs that no order of the
  operations explains.
\<close>

section \<open>The operations as unprotected accesses\<close>

datatype input_call = Set_bit size_t u8 bool | Toggle_bit size_t u8

definition load_input :: "nat \<Rightarrow> (u8, mock_driver) access" where
  "load_input i l d = res_bind (ptr_read (mock_inputs d) i) (\<lambda>b. Inr (b, d))"

definition store_input :: "nat \<Rightarrow> (u8 \<Rightarrow> u8) \<Rightarrow> (u8, mock_driver) access" where
  "store_input i f l d =
     res_bind (ptr_write (mock_inputs d) i (f l)) (\<lambda>xs. Inr (l, d\<lparr>mock_inputs := xs\<rparr>))"

text \<open>
  A compound assignment to \<open>mock_inputs_[byte_offset]\<close>; the early return for a place that does not
  exist compares with the fixed size of the vector.
\<close>

fun input_body :: "input_call \<Rightarrow> (u8, mock_driver) access list" where
  "input_body (Set_bit off i v) =
     (if off \<ge> INPUT_SIZE \<or> i > 7 then []
      else [load_input (unat off),
            store_input (unat off) (\<lambda>b. if v then u8_or_assign b (bit_mask i)
                                        else u8_and_assign b (NOT (bit_mask i)))])"
| "input_body (Toggle_bit off i) =
     (if off \<ge> INPUT_SIZE \<or> i > 7 then []
      else [load_input (unat off), store_input (unat off) (\<lambda>b. u8_xor_assign b (bit_mask i))])"

definition input_code :: "(input_call, u8, mock_driver, unit) object_code" where
  "input_code = \<lparr>oc_guard = (\<lambda>_. Inr ()), oc_mode = (\<lambda>_. No_lock), oc_body = input_body,
     oc_start = 0, oc_reply = (\<lambda>_ _. ())\<rparr>"

fun input_effect :: "input_call \<Rightarrow> mock_driver \<Rightarrow> (unit \<times> mock_driver) result" where
  "input_effect (Set_bit off i v) d = Inr ((), set_mock_input_bit d off i v)"
| "input_effect (Toggle_bit off i) d = Inr ((), toggle_mock_input_bit d off i)"

text \<open>Uninterrupted, the body of a call is the operation.\<close>

lemma input_body_effect:
  assumes "valid_mock d"
  shows "\<exists>l'. run_body (input_body c) l d = Inr (l', snd (projr (input_effect c d)))"
proof -
  have size: "off \<ge> INPUT_SIZE \<longleftrightarrow> 512 \<le> unat off" for off :: size_t
    by (simp add: INPUT_SIZE_def word_le_nat_alt)
  show ?thesis
    using assms
    by (cases c)
      (auto simp: size valid_mock_def set_mock_input_bit_def toggle_mock_input_bit_def Let_def
        load_input_def store_input_def linorder_not_le)
qed

section \<open>A lost update\<close>

text \<open>
  Two threads set bits 0 and 1 of input byte 0. Both load the byte before either stores it.
\<close>

definition both_load_first :: "input_call choice list" where
  "both_load_first =
     [Start 0 (Set_bit 0 0 True), Start 1 (Set_bit 0 1 True), Go 0, Go 1, Go 0, Go 1, Go 0, Go 1,
      Go 0, Go 1, Go 0, Go 1]"

abbreviation set_both :: "(input_call, unit) event list" where
  "set_both \<equiv> [Invoke 0 (Set_bit 0 0 True), Invoke 1 (Set_bit 0 1 True), Return 0 (Inr ()), Return 1 (Inr ())]"

lemma both_load_first_play:
  "\<exists>s. play input_code both_load_first (shared_start (MockDriver prt)) = Some (set_both, s) \<and>
     \<not> sh_fault s \<and> (\<forall>t. sh_thread s t = Outside) \<and> mock_inputs (sh_mem s) ! 0 = 2"
  by (simp add: both_load_first_def input_code_def shared_start_def load_input_def store_input_def
      MockDriver_def INPUT_SIZE_def u8_or_assign_def bit_mask_def)

text \<open>In the atomic machine a bit that has been set stays set while only such calls are made.\<close>

definition setter :: "tid \<Rightarrow> input_call" where
  "setter t = Set_bit 0 (of_nat t) True"

definition setters_only :: "(input_call, unit) event list \<Rightarrow> bool" where
  "setters_only es \<longleftrightarrow> (\<forall>t c. Invoke t c \<in> set es \<longrightarrow> t < 2 \<and> c = setter t)"

definition set_is_seen ::
  "(input_call, unit) event list \<Rightarrow> (input_call, mock_driver, unit) atomic_state \<Rightarrow> bool" where
  "set_is_seen es a \<longleftrightarrow> valid_mock (at_mem a) \<and>
     (\<forall>t c. at_thread a t = Pending c \<longrightarrow> t < 2 \<and> c = setter t) \<and>
     (\<forall>t r. at_thread a t = Answered r \<longrightarrow> t < 2 \<and> bit (mock_inputs (at_mem a) ! 0) t) \<and>
     (\<forall>t r. Return t r \<in> set es \<longrightarrow> t < 2 \<and> bit (mock_inputs (at_mem a) ! 0) t)"

lemma set_bit_zero:
  assumes "valid_mock d" and "t < 2"
  shows "valid_mock (set_mock_input_bit d 0 (of_nat t) True)"
    and "bit (mock_inputs (set_mock_input_bit d 0 (of_nat t) True) ! 0) n \<longleftrightarrow> n = t \<or> bit (mock_inputs d ! 0) n"
proof -
  show "valid_mock (set_mock_input_bit d 0 (of_nat t) True)" using assms(1) by (rule valid_intros)
  have "t = 0 \<or> t = 1" using assms(2) by auto
  then show "bit (mock_inputs (set_mock_input_bit d 0 (of_nat t) True) ! 0) n \<longleftrightarrow>
      n = t \<or> bit (mock_inputs d ! 0) n"
    using assms(1) by (auto simp: set_mock_input_bit_def valid_mock_def byte_bits)
qed

lemma set_is_seen_runs:
  assumes "runs (atomic_step input_effect) (atomic_start (MockDriver prt)) es a"
  shows "setters_only es \<Longrightarrow> set_is_seen es a"
  using assms
proof (induction rule: runs.induct)
  case runs_nil
  show ?case by (simp add: set_is_seen_def atomic_start_def valid_MockDriver)
next
  case (runs_snoc es a e a' es')
  from runs_snoc.prems runs_snoc.hyps(3) have "setters_only es" by (simp add: setters_only_def)
  with runs_snoc.IH have seen: "set_is_seen es a" by blast
  then have v: "valid_mock (at_mem a)"
    and pending: "\<And>t c. at_thread a t = Pending c \<Longrightarrow> t < 2 \<and> c = setter t"
    and answered: "\<And>t r. at_thread a t = Answered r \<Longrightarrow> t < 2 \<and> bit (mock_inputs (at_mem a) ! 0) t"
    and returned: "\<And>t r. Return t r \<in> set es \<Longrightarrow> t < 2 \<and> bit (mock_inputs (at_mem a) ! 0) t"
    unfolding set_is_seen_def by blast+
  from runs_snoc.hyps(2) show ?case
  proof cases
    case (at_invoke t c)
    have "t < 2 \<and> c = setter t"
      using runs_snoc.prems runs_snoc.hyps(3) at_invoke by (simp add: setters_only_def)
    then show ?thesis
      using at_invoke runs_snoc.hyps(3) v
      by (auto simp: set_is_seen_def dest: pending answered returned)
  next
    case (at_effect t c r m')
    from pending [OF at_effect(4)] have t: "t < 2" "c = setter t" by simp_all
    with at_effect have m': "m' = set_mock_input_bit (at_mem a) 0 (of_nat t) True"
      by (simp add: setter_def)
    show ?thesis
      using at_effect runs_snoc.hyps(3) t set_bit_zero [OF v t(1)]
      by (auto simp: set_is_seen_def m' dest: pending answered returned)
  next
    case (at_reject t c e')
    then show ?thesis by (cases c) simp_all
  next
    case (at_faulty t c)
    then show ?thesis by (cases c) simp_all
  next
    case (at_return t r)
    then show ?thesis
      using runs_snoc.hyps(3) v by (auto simp: set_is_seen_def dest: pending answered returned)
  qed
qed

section \<open>Properties\<close>

text \<open>
  C38. \<open>MockDriver\<close> loses updates. Two web threads that set different bits of one input byte at the
  same time can both return while one of the two bits is not set; no order of the two operations
  explains that, since after any of them bit 0 is set.
\<close>

theorem lost_input_update:
  "\<exists>s. runs (micro_step input_code) (shared_start (MockDriver prt)) set_both s \<and> \<not> sh_fault s \<and>
     (\<forall>t. sh_thread s t = Outside) \<and> \<not> bit (mock_inputs (sh_mem s) ! 0) 0 \<and>
     \<not> (\<exists>a. runs (atomic_step input_effect) (atomic_start (MockDriver prt)) set_both a \<and> at_mem a = sh_mem s)"
proof -
  from both_load_first_play [of prt] obtain s where
    s: "play input_code both_load_first (shared_start (MockDriver prt)) = Some (set_both, s)"
      "\<not> sh_fault s" "\<forall>t. sh_thread s t = Outside" "mock_inputs (sh_mem s) ! 0 = 2" by blast
  have lost: "\<not> bit (mock_inputs (sh_mem s) ! 0) 0" using s(4) by simp
  have "setters_only set_both" by (auto simp: setters_only_def setter_def)
  then have "bit (mock_inputs (at_mem a) ! 0) 0"
    if "runs (atomic_step input_effect) (atomic_start (MockDriver prt)) set_both a" for a
    using set_is_seen_runs [OF that] by (simp add: set_is_seen_def)
  with lost play_runs [OF s(1)] s(2,3) show ?thesis by metis
qed

end
