(* ===== verification/Sha_Constants.thy ===== *)
theory Sha_Constants
  imports Complex_Main Digests
begin

text \<open>
  Where the constants of SHA-256 come from: the first 32 bits of the fractional parts of the square and
  cube roots of the first primes, over the real numbers. The table and the initial values written out in
  \<open>config_archive.cpp\<close> are exactly those.
\<close>

section \<open>The first primes\<close>

text \<open>The primes below a bound, by trial division; below 361 by the primes below 19 only.\<close>

definition primes_below :: "nat \<Rightarrow> nat list" where
  "primes_below k = filter (\<lambda>n. list_all (\<lambda>d. n mod d \<noteq> 0) [2..<n]) [2..<k]"

definition small_primes :: "nat list" where
  "small_primes = [2, 3, 5, 7, 11, 13, 17]"

lemma small_primes_ge: "p \<in> set small_primes \<Longrightarrow> 2 \<le> p"
  by (auto simp: small_primes_def)

lemma small_factors: "list_all (\<lambda>d. list_ex (\<lambda>p. d mod p = 0) small_primes) [2..<19]"
  by (simp add: small_primes_def)

lemma small_factor:
  assumes "2 \<le> d" and "d < n" and "d dvd n" and "n < 19 * 19"
  shows "\<exists>p\<in>set small_primes. p dvd n \<and> p < (n :: nat)"
proof -
  obtain e where n: "n = d * e" using assms(3) by (elim dvdE)
  have "2 \<le> e" using assms(1,2) unfolding n by (cases e) auto
  have "d < 19 \<or> e < 19"
  proof (rule ccontr)
    assume "\<not> (d < 19 \<or> e < 19)"
    then have "19 * 19 \<le> d * e" by (intro mult_le_mono) auto
    with assms(4) n show False by simp
  qed
  moreover have "d dvd n" "e dvd n" "e < n" using n assms(1) \<open>2 \<le> e\<close> by simp_all
  ultimately obtain f where f: "2 \<le> f" "f < 19" "f dvd n" "f < n"
    using assms(1,2) \<open>2 \<le> e\<close> by blast
  have "f \<in> set [2..<19]" using f(1,2) by (simp only: set_upt atLeastLessThan_iff)
  with small_factors have "list_ex (\<lambda>p. f mod p = 0) small_primes"
    unfolding list_all_iff by (rule bspec)
  then obtain p where "p \<in> set small_primes" "p dvd f" by (auto simp: list_ex_iff)
  moreover have "p \<le> f" using \<open>p dvd f\<close> f(1) by (intro dvd_imp_le) simp_all
  ultimately show ?thesis using f by (meson dvd_trans order_le_less_trans)
qed

lemma primes_sieve:
  assumes "k \<le> 19 * 19"
  shows "primes_below k = filter (\<lambda>n. list_all (\<lambda>p. n \<le> p \<or> n mod p \<noteq> 0) small_primes) [2..<k]"
  unfolding primes_below_def
proof (rule filter_cong [OF refl])
  fix n assume n: "n \<in> set [2..<k]"
  show "list_all (\<lambda>d. n mod d \<noteq> 0) [2..<n] \<longleftrightarrow> list_all (\<lambda>p. n \<le> p \<or> n mod p \<noteq> 0) small_primes"
  proof
    assume "list_all (\<lambda>d. n mod d \<noteq> 0) [2..<n]"
    then have "\<forall>d. 2 \<le> d \<and> d < n \<longrightarrow> n mod d \<noteq> 0" by (simp add: list_all_iff)
    then show "list_all (\<lambda>p. n \<le> p \<or> n mod p \<noteq> 0) small_primes"
      unfolding list_all_iff by (meson not_le small_primes_ge)
  next
    assume *: "list_all (\<lambda>p. n \<le> p \<or> n mod p \<noteq> 0) small_primes"
    have "n mod d \<noteq> 0" if d: "2 \<le> d" "d < n" for d
    proof
      assume "n mod d = 0"
      then have "d dvd n" by (simp add: dvd_eq_mod_eq_0)
      moreover have "n < 19 * 19" using n assms by simp
      ultimately obtain p where "p \<in> set small_primes" "p dvd n" "p < n"
        using small_factor [OF d] by blast
      with * show False unfolding list_all_iff dvd_eq_mod_eq_0 by (metis not_le)
    qed
    then show "list_all (\<lambda>d. n mod d \<noteq> 0) [2..<n]" by (simp add: list_all_iff)
  qed
qed

lemma first_primes: "primes_below 312 = concat
    [[2, 3, 5, 7, 11, 13, 17, 19],
     [23, 29, 31, 37, 41, 43, 47, 53],
     [59, 61, 67, 71, 73, 79, 83, 89],
     [97, 101, 103, 107, 109, 113, 127, 131],
     [137, 139, 149, 151, 157, 163, 167, 173],
     [179, 181, 191, 193, 197, 199, 211, 223],
     [227, 229, 233, 239, 241, 251, 257, 263],
     [269, 271, 277, 281, 283, 293, 307, 311]]"
  by (simp add: primes_sieve small_primes_def)
section \<open>Bits of roots\<close>

text \<open>The first 32 bits of the fractional part of a root.\<close>

definition root_bits :: "nat \<Rightarrow> nat \<Rightarrow> u32" where
  "root_bits k p = word_of_int (floor (frac (root k (real p)) * 2 ^ 32))"

lemma root_bits_eq:
  assumes "0 < k" and "n ^ k \<le> p * 2 ^ (32 * k)" and "p * 2 ^ (32 * k) < (n + 1) ^ k"
  shows "root_bits k p = of_nat n"
proof -
  let ?x = "root k (real p) * 2 ^ 32"
  have pow: "?x ^ k = real (p * 2 ^ (32 * k))"
    using assms(1) by (simp add: power_mult_distrib real_root_pow_pos2 power_mult)
  have "real n \<le> ?x"
  proof (rule power_le_imp_le_base [where n = "k - 1"])
    show "real n ^ Suc (k - 1) \<le> ?x ^ Suc (k - 1)"
      using assms(1,2) pow by (simp only: Suc_pred' [symmetric] flip: of_nat_power)
  qed (simp add: real_root_ge_zero)
  moreover have "?x < real (n + 1)"
  proof (rule power_less_imp_less_base [where n = k])
    show "?x ^ k < real (n + 1) ^ k"
      unfolding pow using assms(3) by (simp only: flip: of_nat_power of_nat_less_iff)
  qed simp
  ultimately have floor: "floor (?x) = int n" by (simp add: floor_eq_iff)
  have "frac (root k (real p)) * 2 ^ 32 = ?x - real_of_int (floor (root k (real p)) * 2 ^ 32)"
    by (simp add: frac_def algebra_simps)
  then have "floor (frac (root k (real p)) * 2 ^ 32) = int n - floor (root k (real p)) * 2 ^ 32"
    by (simp only: floor_diff_of_int floor)
  moreover have "(2 ^ 32 :: u32) = 0" by simp
  then have "word_of_int (floor (root k (real p)) * 2 ^ 32) = (0 :: u32)"
    by (simp only: of_int_mult of_int_power of_int_numeral mult_zero_right)
  ultimately show ?thesis
    by (simp only: root_bits_def of_int_diff of_int_of_nat_eq diff_zero)
qed

text \<open>Truncated roots, with the integer part, for each prime.\<close>

definition cube_roots :: "nat list" where
  "cube_roots = concat
    [[0x1428a2f98, 0x171374491, 0x1b5c0fbcf, 0x1e9b5dba5, 0x23956c25b, 0x259f111f1, 0x2923f82a4, 0x2ab1c5ed5],
     [0x2d807aa98, 0x312835b01, 0x3243185be, 0x3550c7dc3, 0x372be5d74, 0x380deb1fe, 0x39bdc06a7, 0x3c19bf174],
     [0x3e49b69c1, 0x3efbe4786, 0x40fc19dc6, 0x4240ca1cc, 0x42de92c6f, 0x44a7484aa, 0x45cb0a9dc, 0x476f988da],
     [0x4983e5152, 0x4a831c66d, 0x4b00327c8, 0x4bf597fc7, 0x4c6e00bf3, 0x4d5a79147, 0x506ca6351, 0x514292967],
     [0x527b70a85, 0x52e1b2138, 0x54d2c6dfc, 0x553380d13, 0x5650a7354, 0x5766a0abb, 0x581c2c92e, 0x592722c85],
     [0x5a2bfe8a1, 0x5a81a664b, 0x5c24b8b70, 0x5c76c51a3, 0x5d192e819, 0x5d6990624, 0x5f40e3585, 0x6106aa070],
     [0x619a4c116, 0x61e376c08, 0x62748774c, 0x634b0bcb5, 0x6391c0cb3, 0x64ed8aa4a, 0x65b9cca4f, 0x6682e6ff3],
     [0x6748f82ee, 0x678a5636f, 0x684c87814, 0x68cc70208, 0x690befffa, 0x6a4506ceb, 0x6bef9a3f7, 0x6c67178f2]]"

definition square_roots :: "nat list" where
  "square_roots = [0x16a09e667, 0x1bb67ae85, 0x23c6ef372, 0x2a54ff53a, 0x3510e527f, 0x39b05688c, 0x41f83d9ab, 0x45be0cd19]"

lemma roots_of_primes:
  assumes "0 < k" and "list_all2 (\<lambda>p n. n ^ k \<le> p * 2 ^ (32 * k) \<and> p * 2 ^ (32 * k) < (n + 1) ^ k) ps ns"
  shows "map (root_bits k) ps = map of_nat ns"
  using assms(2) by (induction rule: list_all2_induct) (simp_all add: root_bits_eq [OF assms(1)])

lemma cube_root_bits: "map (root_bits 3) (primes_below 312) = kSha256K"
proof -
  have "map (root_bits 3) (primes_below 312) = map of_nat cube_roots"
    by (rule roots_of_primes) (simp_all add: first_primes cube_roots_def)
  then show ?thesis by (simp add: cube_roots_def kSha256K_def)
qed

lemma square_root_bits:
  "map (root_bits 2) (take 8 (primes_below 312)) =
    (case sha256_initial of (h0, h1, h2, h3, h4, h5, h6, h7) \<Rightarrow> [h0, h1, h2, h3, h4, h5, h6, h7])"
proof -
  have "map (root_bits 2) (take 8 (primes_below 312)) = map of_nat square_roots"
    by (rule roots_of_primes) (simp_all add: first_primes square_roots_def)
  then show ?thesis by (simp add: square_roots_def sha256_initial_def)
qed

end
