(* ===== verification/Secure_Hash.thy ===== *)
theory Secure_Hash
  imports Sha_Constants Ws_Handshake
begin

text \<open>
  The secure hash standard, FIPS 180-4, as a reference for the two hand-written digests: messages are
  strings of bits, padding and parsing are on bits, the functions are those of the standard, and the
  constants of SHA-256 are the first 32 bits of the fractional parts of square and cube roots of the
  first primes. The byte-wise code of \<open>config_archive.cpp\<close> and \<open>telemetry_server.cpp\<close> computes the same.
\<close>

unbundle bit_operations_syntax

section \<open>Strings of bits\<close>

definition nat_bits :: "nat \<Rightarrow> nat \<Rightarrow> bool list" where
  "nat_bits k n = map (bit n) (rev [0..<k])"

definition bits_nat :: "bool list \<Rightarrow> nat" where
  "bits_nat bs = foldl (\<lambda>n b. 2 * n + of_bool b) 0 bs"

text \<open>The bits of a message of bytes, the highest of each byte first.\<close>

definition message_bits :: "u8 list \<Rightarrow> bool list" where
  "message_bits bs = concat (map (\<lambda>b. nat_bits 8 (unat b)) bs)"

lemma length_nat_bits [simp]: "length (nat_bits k n) = k"
  by (simp add: nat_bits_def)

lemma message_bits_simps [simp]:
  "message_bits [] = []" "message_bits (b # bs) = nat_bits 8 (unat b) @ message_bits bs"
  "message_bits (as @ bs) = message_bits as @ message_bits bs"
  by (simp_all add: message_bits_def)

lemma length_message_bits [simp]: "length (message_bits bs) = 8 * length bs"
  by (induction bs) simp_all

lemma drop_message_bits: "drop (8 * n) (message_bits bs) = message_bits (drop n bs)"
proof (induction n arbitrary: bs)
  case (Suc n)
  then show ?case by (cases bs) simp_all
qed simp

lemma take_message_bits: "take (8 * n) (message_bits bs) = message_bits (take n bs)"
proof (induction n arbitrary: bs)
  case (Suc n)
  then show ?case by (cases bs) simp_all
qed simp

lemma foldl_bits: "foldl (\<lambda>n b. 2 * n + of_bool b) a bs = a * 2 ^ length bs + bits_nat bs"
proof (induction bs arbitrary: a)
  case (Cons b bs)
  have "bits_nat (b # bs) = of_bool b * 2 ^ length bs + bits_nat bs"
    using Cons [of "of_bool b"] by (simp add: bits_nat_def)
  with Cons [of "2 * a + of_bool b"] show ?case by (simp add: algebra_simps)
qed (simp add: bits_nat_def)

lemma bits_nat_append: "bits_nat (as @ bs) = bits_nat as * 2 ^ length bs + bits_nat bs"
proof -
  have "bits_nat (as @ bs) = foldl (\<lambda>n b. 2 * n + of_bool b) (bits_nat as) bs"
    by (simp add: bits_nat_def)
  then show ?thesis by (simp only: foldl_bits)
qed

lemma bits_nat_nat_bits: "bits_nat (nat_bits k n) = take_bit k n"
proof (induction k)
  case (Suc k)
  have "nat_bits (Suc k) n = [bit n k] @ nat_bits k n" by (simp add: nat_bits_def)
  with Suc show ?case
    by (simp only: bits_nat_append) (simp add: bits_nat_def take_bit_Suc_from_most)
qed (simp add: nat_bits_def bits_nat_def)

lemma bits_nat_message: "bits_nat (message_bits bs) = be_nat bs"
proof (induction bs rule: rev_induct)
  case (snoc b bs)
  have "unat b < 2 ^ 8" using unsigned_less [of b, where ?'a = nat] by simp
  with snoc show ?case by (simp add: bits_nat_append bits_nat_nat_bits take_bit_nat_eq_self)
qed (simp add: bits_nat_def)

lemma nat_bits_nth: "i < k \<Longrightarrow> nat_bits k n ! i = bit n (k - Suc i)"
  by (simp add: nat_bits_def rev_nth)

lemma nat_bits_add: "nat_bits (j + k) n = nat_bits j (n div 2 ^ k) @ nat_bits k n"
proof (rule nth_equalityI)
  fix i assume "i < length (nat_bits (j + k) n)"
  then show "nat_bits (j + k) n ! i = (nat_bits j (n div 2 ^ k) @ nat_bits k n) ! i"
    by (auto simp: nth_append nat_bits_nth bit_drop_bit_eq add.commute simp flip: drop_bit_eq_div)
qed simp

lemma nat_bits_take_bit: "nat_bits k (take_bit k n) = nat_bits k n"
  by (auto simp: nat_bits_def bit_take_bit_iff)

lemma message_bits_to_be: "message_bits (to_be k n) = nat_bits (8 * k) n"
proof (induction k arbitrary: n)
  case (Suc k)
  have "unat (of_nat n :: u8) = take_bit 8 n" by (simp add: unat_of_nat_u8 take_bit_eq_mod)
  with Suc show ?case
    using nat_bits_add [of "8 * k" 8 n] by (simp add: nat_bits_take_bit add.commute)
qed (simp add: nat_bits_def)

section \<open>Padding and parsing\<close>

text \<open>The number of zero bits after the one bit: the least that leaves 64 bits of the last block.\<close>

definition fips_zeros :: "nat \<Rightarrow> nat" where
  "fips_zeros l = (LEAST k. (l + 1 + k) mod 512 = 448)"

definition fips_padded :: "bool list \<Rightarrow> bool list" where
  "fips_padded M = M @ [True] @ replicate (fips_zeros (length M)) False @ nat_bits 64 (length M)"

lemma fips_zeros_bytes: "fips_zeros (8 * n) = 7 + 8 * zeros_missing (Suc n)"
  unfolding fips_zeros_def
proof (rule Least_equality)
  have "(Suc n + zeros_missing (Suc n)) mod 64 = 56"
    using length_zero_fill [of "replicate (Suc n) 0"] by (simp add: zero_fill_eq)
  then have "8 * (Suc n + zeros_missing (Suc n)) mod (8 * 64) = 8 * 56"
    by (simp only: mult_mod_right [symmetric])
  then show "(8 * n + 1 + (7 + 8 * zeros_missing (Suc n))) mod 512 = 448" by (simp add: algebra_simps)
next
  fix y assume y: "(8 * n + 1 + y) mod 512 = 448"
  define q r where "q = Suc n div 64" and "r = Suc n mod 64"
  have n: "8 * n + 8 = 512 * q + 8 * r" and r: "r < 64"
    using div_mult_mod_eq [of "Suc n" 64] unfolding q_def r_def by (linarith, simp)
  have "8 * n + 1 + y = 512 * ((8 * n + 1 + y) div 512) + 448" using y div_mult_mod_eq [of "8 * n + 1 + y" 512] by simp
  then obtain m where m: "8 * n + 1 + y = 512 * m + 448" by blast
  show "7 + 8 * zeros_missing (Suc n) \<le> y"
  proof (cases "r \<le> 56")
    case True
    then have "zeros_missing (Suc n) = 56 - r" by (simp add: zeros_missing_def r_def)
    moreover have "q \<le> m"
    proof (rule ccontr)
      assume "\<not> q \<le> m"
      then have "512 * m + 512 \<le> 512 * q" by simp
      with n m show False by linarith
    qed
    ultimately show ?thesis using n m True by linarith
  next
    case False
    then have "zeros_missing (Suc n) = 120 - r" by (simp add: zeros_missing_def r_def)
    moreover have "q < m"
    proof (rule ccontr)
      assume "\<not> q < m"
      then have "512 * m \<le> 512 * q" by simp
      with n m False show False by linarith
    qed
    then have "512 * q + 512 \<le> 512 * m" by simp
    ultimately show ?thesis using n m r False by linarith
  qed
qed

lemma message_bits_zeros: "message_bits (replicate k 0) = replicate (8 * k) False"
proof (induction k)
  case (Suc k)
  have "nat_bits 8 0 = replicate 8 False" by code_simp
  moreover have "replicate (8 * Suc k) False = replicate 8 False @ replicate (8 * k) False"
    by (simp only: mult_Suc_right replicate_add)
  ultimately show ?case using Suc by (simp only: replicate_Suc message_bits_simps) simp
qed simp

lemma message_bits_padded:
  assumes "length data < 2 ^ 61"
  shows "message_bits (pad_message data) = fips_padded (message_bits data)"
proof -
  have "unat (of_nat (length data) * 8 :: u64) = 8 * length data"
    using assms by (simp add: unat_word_ariths unat_of_nat)
  moreover have "nat_bits 8 128 = True # replicate 7 False" by code_simp
  ultimately show ?thesis
    by (simp add: pad_message_eq fips_padded_def fips_zeros_bytes message_bits_to_be message_bits_zeros
        replicate_add del: to_be.simps)
qed

text \<open>The words of block \<open>i\<close> of a padded message, and the blocks the code cuts off one by one.\<close>

definition fips_word :: "bool list \<Rightarrow> nat \<Rightarrow> nat \<Rightarrow> u32" where
  "fips_word M i t = of_nat (bits_nat (take 32 (drop (512 * i + 32 * t) M)))"

lemma over_blocks_fold:
  "length data = 64 * n \<Longrightarrow>
   over_blocks f data h = fold (\<lambda>i. f (take 64 (drop (64 * i) data))) [0..<n] h"
proof (induction n arbitrary: data h)
  case 0
  then show ?case by (subst over_blocks.simps) simp
next
  case (Suc n)
  then have "data \<noteq> []" by auto
  with Suc show ?case
    by (subst over_blocks.simps) (simp add: upt_conv_Cons map_Suc_upt [symmetric] fold_map comp_def add.commute del: upt_Suc)
qed

lemma block_word_bits:
  assumes "length data = 64 * n" and "i < n" and "t < 16"
  shows "of_nat (be_nat (take 4 (drop (4 * t) (take 64 (drop (64 * i) data))))) =
    fips_word (message_bits data) i t"
proof -
  have "take 4 (drop (4 * t) (take 64 (drop (64 * i) data))) = take 4 (drop (64 * i + 4 * t) data)"
    using assms by (simp add: drop_take min_def add.commute)
  moreover have "take 32 (drop (512 * i + 32 * t) (message_bits data)) =
      message_bits (take 4 (drop (64 * i + 4 * t) data))"
    using take_message_bits [of 4] drop_message_bits [of "64 * i + 4 * t" data] by (simp add: algebra_simps)
  ultimately show ?thesis by (simp add: fips_word_def bits_nat_message)
qed

text \<open>A digest: compress block after block, and write down the bits of the words.\<close>

definition fips_digest :: "((nat \<Rightarrow> u32) \<Rightarrow> u32 list \<Rightarrow> u32 list) \<Rightarrow> u32 list \<Rightarrow> bool list \<Rightarrow> bool list" where
  "fips_digest compress H0 message =
     (let M = fips_padded message
      in concat (map (nat_bits 32 \<circ> unat) (fold (\<lambda>i. compress (fips_word M i)) [0..<length M div 512] H0)))"

definition word_bits :: "u32 list \<Rightarrow> bool list" where
  "word_bits ws = concat (map (\<lambda>w. nat_bits 32 (unat w)) ws)"

lemma fold_image:
  "(\<And>i h. i < n \<Longrightarrow> words (f i h) = g i (words h)) \<Longrightarrow> words (fold f [0..<n] h) = fold g [0..<n] (words h)"
  by (induction n arbitrary: h) simp_all

lemma fold_cong_upt: "(\<And>t v. t < n \<Longrightarrow> f t v = g t v) \<Longrightarrow> fold f [0..<n] v = fold g [0..<n] v"
  by (rule fold_cong) (simp_all add: fun_eq_iff)

lemma over_blocks_digest:
  assumes "\<And>block h. length block = 64 \<Longrightarrow> words (f block h) = g (block_word block) (words h)"
    and "\<And>M M' H. (\<And>t. t < 16 \<Longrightarrow> M t = M' t) \<Longrightarrow> g M H = g M' H"
    and "length data < 2 ^ 61"
  shows "word_bits (words (over_blocks f (pad_message data) h)) = fips_digest g (words h) (message_bits data)"
proof -
  obtain n where n: "length (pad_message data) = 64 * n"
    using length_pad_message [of data] by (metis dvd_eq_mod_eq_0 dvdE)
  let ?block = "\<lambda>i. take 64 (drop (64 * i) (pad_message data))"
  have "words (f (?block i) h) = g (fips_word (message_bits (pad_message data)) i) (words h)" if "i < n" for i h
  proof -
    have "length (?block i) = 64" using n that by simp
    moreover have "g (block_word (?block i)) = g (fips_word (message_bits (pad_message data)) i)"
      using block_word_bits [OF n that] by (intro ext assms(2)) (simp add: block_word_def)
    ultimately show ?thesis by (simp add: assms(1))
  qed
  then have "words (over_blocks f (pad_message data) h) =
      fold (\<lambda>i. g (fips_word (message_bits (pad_message data)) i)) [0..<n] (words h)"
    unfolding over_blocks_fold [OF n] by (rule fold_image [where words = words])
  moreover have "length (message_bits (pad_message data)) div 512 = n" using n by simp
  ultimately show ?thesis
    unfolding fips_digest_def Let_def message_bits_padded [OF assms(3), symmetric]
    by (simp only: word_bits_def comp_def)
qed

lemma fips_schedule_cong: "(\<And>t. t < 16 \<Longrightarrow> M t = M' t) \<Longrightarrow> fips_schedule M t = fips_schedule M' t"
proof (induction t rule: less_induct)
  case (less t)
  show ?case
  proof (cases "t < 16")
    case False
    then have "t - 16 < t" "t - 15 < t" "t - 7 < t" "t - 2 < t" by simp_all
    with False less show ?thesis by (subst (1 2) fips_schedule.simps) (simp only: if_False less)
  qed (simp add: fips_schedule_first less)
qed

section \<open>SHA-256\<close>

definition Ch :: "u32 \<Rightarrow> u32 \<Rightarrow> u32 \<Rightarrow> u32" where
  "Ch x y z = (x AND y) XOR (NOT x AND z)"

definition Maj :: "u32 \<Rightarrow> u32 \<Rightarrow> u32 \<Rightarrow> u32" where
  "Maj x y z = (x AND y) XOR (x AND z) XOR (y AND z)"

definition fips256_step :: "(nat \<Rightarrow> u32) \<Rightarrow> nat \<Rightarrow> sha256_vars \<Rightarrow> sha256_vars" where
  "fips256_step W t = (\<lambda>(a, b, c, d, e, f, g, h).
     let T1 = h + (word_rotr 6 e XOR word_rotr 11 e XOR word_rotr 25 e) + Ch e f g
           + map (root_bits 3) (primes_below 312) ! t + W t;
         T2 = (word_rotr 2 a XOR word_rotr 13 a XOR word_rotr 22 a) + Maj a b c
     in (T1 + T2, a, b, c, d + T1, e, f, g))"

definition fips256_block :: "(nat \<Rightarrow> u32) \<Rightarrow> u32 list \<Rightarrow> u32 list" where
  "fips256_block M H =
     (case fold (fips256_step (fips_schedule M)) [0..<64] (H ! 0, H ! 1, H ! 2, H ! 3, H ! 4, H ! 5, H ! 6, H ! 7) of
        (a, b, c, d, e, f, g, h) \<Rightarrow> map2 (+) [a, b, c, d, e, f, g, h] H)"

definition fips_sha256 :: "bool list \<Rightarrow> bool list" where
  "fips_sha256 = fips_digest fips256_block (map (root_bits 2) (take 8 (primes_below 312)))"

text \<open>Bits in groups of four, as hexadecimal digits.\<close>

fun hex_of_bits :: "bool list \<Rightarrow> string" where
  "hex_of_bits (a # b # c # d # bits) = digit_char (bits_nat [a, b, c, d]) # hex_of_bits bits"
| "hex_of_bits _ = []"

lemma hex_of_bits_append: "length xs = 4 \<Longrightarrow> hex_of_bits (xs @ ys) = digit_char (bits_nat xs) # hex_of_bits ys"
  by (auto simp: numeral_eq_Suc length_Suc_conv)

lemma hex8_bits: "hex_of_bits (nat_bits 32 (unat x) @ rest) = hex8 x @ hex_of_bits rest"
proof -
  let ?d = "\<lambda>i. nat_bits 4 (unat x div 2 ^ (4 * i))"
  have "nat_bits 32 (unat x) = ?d 7 @ ?d 6 @ ?d 5 @ ?d 4 @ ?d 3 @ ?d 2 @ ?d 1 @ ?d 0"
    using nat_bits_add [of 28 4 "unat x"] nat_bits_add [of 24 4 "unat x div 2 ^ 4"]
      nat_bits_add [of 20 4 "unat x div 2 ^ 8"] nat_bits_add [of 16 4 "unat x div 2 ^ 12"]
      nat_bits_add [of 12 4 "unat x div 2 ^ 16"] nat_bits_add [of 8 4 "unat x div 2 ^ 20"]
      nat_bits_add [of 4 4 "unat x div 2 ^ 24"]
    by (simp add: div_mult2_eq [symmetric])
  moreover have "bits_nat (?d i) = unat (drop_bit (4 * i) x AND 0xF)" for i
  proof -
    have "(0xF :: u32) = mask 4" by (simp add: mask_eq_exp_minus_1)
    then have "drop_bit (4 * i) x AND 0xF = take_bit 4 (drop_bit (4 * i) x)" by (simp add: take_bit_eq_mask)
    moreover have "take_bit 32 (unat x) = unat x"
      using unsigned_less [of x, where ?'a = nat] by (simp add: take_bit_nat_eq_self)
    ultimately show ?thesis
      by (simp only: bits_nat_nat_bits unsigned_take_bit_eq unsigned_drop_bit_eq drop_bit_eq_div [symmetric])
        (simp add: unsigned_take_bit_eq unsigned_drop_bit_eq flip: drop_bit_eq_div)
  qed
  ultimately show ?thesis
    by (simp only: hex8_def list.map append_assoc append_Cons append_Nil hex_of_bits_append length_nat_bits)
qed

lemma sha256_round_fips:
  assumes t: "t < 64"
  shows "sha256_round (map W [0..<64]) t v = fips256_step W t v"
proof -
  note rots = rotr_word_rotr [of 6] rotr_word_rotr [of 11] rotr_word_rotr [of 25]
    rotr_word_rotr [of 2] rotr_word_rotr [of 13] rotr_word_rotr [of 22]
  have "map W [0..<64] ! t = W t" using t by (simp only: nth_map length_upt) simp
  then show ?thesis
    by (cases v) (simp add: sha256_round_def fips256_step_def Let_def cube_root_bits Ch_def Maj_def rots
        del: upt_rec_numeral)
qed

definition words8 :: "sha256_vars \<Rightarrow> u32 list" where
  "words8 = (\<lambda>(a, b, c, d, e, f, g, h). [a, b, c, d, e, f, g, h])"

lemma sha256_block_fips:
  assumes "length block = 64"
  shows "words8 (sha256_process_block block h) = fips256_block (block_word block) (words8 h)"
proof -
  have "fold (sha256_round (sha256_schedule block)) [0..<64] h =
      fold (fips256_step (fips_schedule (block_word block))) [0..<64] h"
    unfolding sha256_schedule_fips [OF assms] by (rule fold_cong_upt) (rule sha256_round_fips)
  then show ?thesis
    by (cases h) (simp add: sha256_process_block_def fips256_block_def words8_def add.commute
        del: upt_rec_numeral split: prod.split)
qed

lemma hex_of_word_bits: "hex_of_bits (word_bits ws) = concat (map hex8 ws)"
  by (induction ws) (simp_all add: word_bits_def hex8_bits)

section \<open>SHA-1\<close>

definition fips1_f :: "nat \<Rightarrow> u32 \<Rightarrow> u32 \<Rightarrow> u32 \<Rightarrow> u32" where
  "fips1_f t x y z = (if t < 20 then Ch x y z else if 40 \<le> t \<and> t < 60 then Maj x y z else x XOR y XOR z)"

fun fips1_schedule :: "(nat \<Rightarrow> u32) \<Rightarrow> nat \<Rightarrow> u32" where
  "fips1_schedule M t =
     (if t < 16 then M t
      else word_rotl 1 (fips1_schedule M (t - 3) XOR fips1_schedule M (t - 8) XOR fips1_schedule M (t - 14)
        XOR fips1_schedule M (t - 16)))"

declare fips1_schedule.simps [simp del]

definition fips1_step :: "(nat \<Rightarrow> u32) \<Rightarrow> nat \<Rightarrow> sha1_vars \<Rightarrow> sha1_vars" where
  "fips1_step W t = (\<lambda>(a, b, c, d, e).
     (word_rotl 5 a + fips1_f t b c d + e + [0x5a827999, 0x6ed9eba1, 0x8f1bbcdc, 0xca62c1d6] ! (t div 20) + W t,
      a, word_rotl 30 b, c, d))"

definition fips1_block :: "(nat \<Rightarrow> u32) \<Rightarrow> u32 list \<Rightarrow> u32 list" where
  "fips1_block M H =
     (case fold (fips1_step (fips1_schedule M)) [0..<80] (H ! 0, H ! 1, H ! 2, H ! 3, H ! 4) of
        (a, b, c, d, e) \<Rightarrow> map2 (+) [a, b, c, d, e] H)"

definition fips_sha1 :: "bool list \<Rightarrow> bool list" where
  "fips_sha1 = fips_digest fips1_block [0x67452301, 0xefcdab89, 0x98badcfe, 0x10325476, 0xc3d2e1f0]"

lemma left_rotate_word_rotl:
  assumes "0 < n" and "n < 32"
  shows "left_rotate x n = word_rotl n x"
proof -
  have "left_rotate x n = rotr x (32 - n)" using assms by (simp add: left_rotate_def rotr_def or.commute)
  also have "\<dots> = word_rotr (32 - n) x" using assms by (intro rotr_word_rotr) simp_all
  also have "\<dots> = word_rotl n x"
  proof (rule bit_eqI)
    fix k assume "possible_bit TYPE(u32) k"
    then have "k < 32" by simp
    with assms show "bit (word_rotr (32 - n) x) k = bit (word_rotl n x) k"
      by (simp add: bit_word_rotr_iff bit_word_rotl_iff)
  qed
  finally show ?thesis .
qed

lemma fips1_schedule_cong: "(\<And>t. t < 16 \<Longrightarrow> M t = M' t) \<Longrightarrow> fips1_schedule M t = fips1_schedule M' t"
proof (induction t rule: less_induct)
  case (less t)
  show ?case
  proof (cases "t < 16")
    case True
    with less.prems show ?thesis by (subst (1 2) fips1_schedule.simps) simp
  next
    case False
    then have "t - 16 < t" "t - 14 < t" "t - 8 < t" "t - 3 < t" by simp_all
    with False less show ?thesis by (subst (1 2) fips1_schedule.simps) (simp only: if_False less)
  qed
qed

lemma sha1_extend_fips:
  assumes "16 \<le> n"
  shows "sha1_extend n (map (fips1_schedule M) [0..<n]) = map (fips1_schedule M) [0..<Suc n]"
proof -
  have nth: "map (fips1_schedule M) [0..<n] ! (n - j) = fips1_schedule M (n - j)" if "0 < j" for j
    using that assms by simp
  note nths = nth [of 3, simplified] nth [of 8, simplified] nth [of 14, simplified] nth [of 16, simplified]
  have rot: "left_rotate x 1 = word_rotl 1 x" for x by (rule left_rotate_word_rotl) simp_all
  have not_less: "(n < 16) = False" using assms by simp
  have "map (fips1_schedule M) [0..<Suc n] = map (fips1_schedule M) [0..<n] @ [fips1_schedule M n]" by simp
  then show ?thesis
    unfolding sha1_extend_def nths rot
    by (simp only: fips1_schedule.simps [of M n] not_less if_False)
qed

lemma sha1_schedule_fips:
  assumes "length block = 64"
  shows "sha1_schedule block = map (fips1_schedule (block_word block)) [0..<80]"
proof -
  have "map (\<lambda>i. big_endian_word block (i * 4)) [0..<16] = map (fips1_schedule (block_word block)) [0..<16]"
    using assms by (rule first_words) (simp add: fips1_schedule.simps)
  moreover have "fold sha1_extend [16..<80] (map (fips1_schedule M) [0..<16]) = map (fips1_schedule M) [0..<80]"
    for M by (rule fold_schedule [where ext = sha1_extend]) (rule sha1_extend_fips, assumption, simp)
  ultimately show ?thesis unfolding sha1_schedule_def by (simp only:)
qed

lemma sha1_f_fips: "sha1_f t b c d = fips1_f t b c d"
proof -
  have "(b AND c) OR (NOT b AND d) = Ch b c d" "(b AND c) OR (b AND d) OR (c AND d) = Maj b c d"
    unfolding Ch_def Maj_def by (rule bit_word_eqI; auto simp: bit_simps)+
  then show ?thesis by (simp add: sha1_f_def fips1_f_def)
qed

lemma sha1_round_fips:
  assumes t: "t < 80"
  shows "sha1_round (map W [0..<80]) t v = fips1_step W t v"
proof -
  have "map W [0..<80] ! t = W t" using t by (simp only: nth_map length_upt) simp
  moreover have "sha1_k t = [0x5a827999, 0x6ed9eba1, 0x8f1bbcdc, 0xca62c1d6] ! (t div 20)"
  proof -
    consider "t div 20 = 0" "t < 20" | "t div 20 = 1" "20 \<le> t" "t < 40" | "t div 20 = 2" "40 \<le> t" "t < 60"
      | "t div 20 = 3" "60 \<le> t" using t by linarith
    then show ?thesis by cases (simp_all add: sha1_k_def)
  qed
  ultimately show ?thesis
    by (cases v) (simp add: sha1_round_def fips1_step_def Let_def sha1_f_fips left_rotate_word_rotl
        del: upt_rec_numeral)
qed

definition words5 :: "sha1_vars \<Rightarrow> u32 list" where
  "words5 = (\<lambda>(a, b, c, d, e). [a, b, c, d, e])"

lemma sha1_block_fips:
  assumes "length block = 64"
  shows "words5 (sha1_chunk block h) = fips1_block (block_word block) (words5 h)"
proof -
  have "fold (sha1_round (sha1_schedule block)) [0..<80] h =
      fold (fips1_step (fips1_schedule (block_word block))) [0..<80] h"
    unfolding sha1_schedule_fips [OF assms] by (rule fold_cong_upt) (rule sha1_round_fips)
  then show ?thesis
    by (cases h) (simp add: sha1_chunk_def fips1_block_def words5_def add.commute
        del: upt_rec_numeral split: prod.split)
qed

lemma be_bytes_bits: "message_bits (concat (map (be_bytes 4) ws)) = word_bits (ws :: u32 list)"
  by (induction ws) (simp_all add: word_bits_def be_bytes_to_be message_bits_to_be)

section \<open>Properties\<close>

text \<open>
  C7. The commit id is the SHA-256 of FIPS 180-4, in hexadecimal: for every text shorter than 2 to the 61
  bytes \<open>sha256_hex\<close> computes the digest of the standard, padding, parsing, schedule, functions and
  constants (the table holds bits of cube roots of primes, the start values bits of square roots).
\<close>

theorem sha256_is_fips:
  assumes "length input < 2 ^ 61"
  shows "sha256_hex input = hex_of_bits (fips_sha256 (message_bits (bytes_of input)))"
proof -
  let ?h = "over_blocks sha256_process_block (pad_message (bytes_of input)) sha256_initial"
  have "word_bits (words8 ?h) = fips_digest fips256_block (words8 sha256_initial) (message_bits (bytes_of input))"
  proof (rule over_blocks_digest [where words = words8 and f = sha256_process_block and g = fips256_block, OF sha256_block_fips])
    fix M M' :: "nat \<Rightarrow> u32" and H assume "\<And>t. t < 16 \<Longrightarrow> M t = M' t"
    then have "fips_schedule M = fips_schedule M'" by (intro ext fips_schedule_cong)
    then show "fips256_block M H = fips256_block M' H" by (simp add: fips256_block_def)
  qed (use assms in simp_all)
  then have "fips_sha256 (message_bits (bytes_of input)) = word_bits (words8 ?h)"
    by (simp add: fips_sha256_def square_root_bits words8_def split: prod.split)
  then show ?thesis by (cases ?h) (simp add: sha256_hex_def hex_of_word_bits words8_def split: prod.split)
qed

theorem sha256_is_fips_witness: "sha256_hex ''abc'' = hex_of_bits (fips_sha256 (message_bits (bytes_of ''abc'')))"
  using sha256_is_fips [of "''abc''"] by simp

text \<open>
  C37. The accept key of the handshake is built on the SHA-1 of FIPS 180-4: for every message shorter than
  2 to the 61 bytes the twenty bytes of \<open>sha1\<close> are the digest of the standard.
\<close>

theorem sha1_is_fips:
  assumes "length input < 2 ^ 61"
  shows "message_bits (sha1 input) = fips_sha1 (message_bits input)"
proof -
  let ?h = "over_blocks sha1_chunk (pad_message input) sha1_initial"
  have "word_bits (words5 ?h) = fips_digest fips1_block (words5 sha1_initial) (message_bits input)"
  proof (rule over_blocks_digest [where words = words5 and f = sha1_chunk and g = fips1_block, OF sha1_block_fips])
    fix M M' :: "nat \<Rightarrow> u32" and H assume "\<And>t. t < 16 \<Longrightarrow> M t = M' t"
    then have "fips1_schedule M = fips1_schedule M'" by (intro ext fips1_schedule_cong)
    then show "fips1_block M H = fips1_block M' H" by (simp add: fips1_block_def)
  qed (use assms in simp_all)
  moreover have "message_bits (sha1 input) = word_bits (words5 ?h)"
    by (cases ?h) (simp add: sha1_def be_bytes_bits words5_def del: concat.simps list.map)
  ultimately show ?thesis by (simp add: fips_sha1_def sha1_initial_def words5_def)
qed

theorem sha1_is_fips_witness: "message_bits (sha1 [1, 2, 3]) = fips_sha1 (message_bits [1, 2, 3])"
  using sha1_is_fips [of "[1, 2, 3]"] by simp

end
