(* ===== verification/Deploy_Steps.thy ===== *)
theory Deploy_Steps
  imports Web_System
begin

text \<open>
  The deployment handler of \<open>web_server.cpp\<close> as a thread. The HTTP library serves requests from a pool of
  threads and the handler holds no lock of its own: between its calls into the runtime, the archive and
  the logger, each of which is atomic under the lock of the callee, other threads may do theirs. A step
  is what the handler does from one such call to the next.
\<close>

section \<open>The handler step by step\<close>

datatype deploy_pc =
  DP_start
| DP_commit json nat
| DP_record commit_info nat
| DP_log commit_info nat
| DP_reply nat "commit_info option"
| DP_fail int string log_level string
| DP_fail_log int string log_level string
| DP_done handler_end

definition author_of :: "request \<Rightarrow> string" where
  "author_of req = (if rq_param req ''author'' = [] then ''anonymous'' else rq_param req ''author'')"

text \<open>Where an exception of the archive takes the handler.\<close>

fun archive_exception :: "archive_failure \<Rightarrow> deploy_pc" where
  "archive_exception (ConfigArchiveError e) =
     DP_fail 500 (''deploy succeeded but archiving failed: '' @ e) Error (''archive write failed: '' @ e)"
| "archive_exception (Json_error e) = DP_done (Escaped e)"
| "archive_exception Null_column = DP_done (Escaped ''null column'')"

fun reload_exception :: "failure \<Rightarrow> deploy_pc" where
  "reload_exception (Logic_parse_error m) = DP_fail 400 m Warn (''deploy rejected: '' @ m)"
| "reload_exception (Out_of_range m) = DP_done (Escaped m)"
| "reload_exception (Invalid_argument m) = DP_done (Escaped m)"
| "reload_exception Undefined_behaviour = DP_done (Escaped ''undefined behaviour'')"

fun deploy_step ::
  "json_lib \<Rightarrow> 'db sql \<Rightarrow> web_config \<Rightarrow> web_times \<Rightarrow> request \<Rightarrow> deploy_pc \<Rightarrow> 'db web_world \<Rightarrow>
     deploy_pc \<times> 'db web_world" where
  "deploy_step lib run cfg tm req DP_start w =
     (case jl_parse lib (rq_body req) of
        Inl e \<Rightarrow> (DP_fail 400 (''invalid JSON: '' @ e) Warn (''deploy rejected: invalid JSON: '' @ e), w)
      | Inr doc \<Rightarrow>
          (case reload_from_json (ww_runtime w) (ww_heap w) doc of
             (Inl f, rt, h) \<Rightarrow> (reload_exception f, w)
           | (Inr a, rt, h) \<Rightarrow>
               let rules = rule_count (pointed_program h a) in
                 (if wc_archive cfg then DP_commit doc rules else DP_reply rules None,
                  w\<lparr>ww_runtime := rt, ww_heap := h\<rparr>)))"
| "deploy_step lib run cfg tm req (DP_commit doc rules) w =
     (case commit_config run (jl_dump lib) (at_commit tm) (author_of req) (rq_param req ''message'') doc (ww_db w) of
        (Inl f, db) \<Rightarrow> (archive_exception f, w\<lparr>ww_db := db\<rparr>)
      | (Inr c, db) \<Rightarrow> (DP_record c rules, w\<lparr>ww_db := db\<rparr>))"
| "deploy_step lib run cfg tm req (DP_record c rules) w =
     (case record_deployment run (at_deployment tm) (ci_sha256 c) (ww_db w) of
        (Inl f, db) \<Rightarrow> (archive_exception f, w\<lparr>ww_db := db\<rparr>)
      | (Inr _, db) \<Rightarrow> (DP_log c rules, w\<lparr>ww_db := db\<rparr>))"
| "deploy_step lib run cfg tm req (DP_log c rules) w =
     (DP_reply rules (Some c), write_log cfg (at_log tm) Info (deploy_message c (author_of req) rules) w)"
| "deploy_step lib run cfg tm req (DP_reply rules commit) w =
     (DP_done (fst (reply_deployed lib rules commit w)), w)"
| "deploy_step lib run cfg tm req (DP_fail status err level message) w =
     (case jl_dump lib (J_object [(''error'', J_string err)]) of
        Inl e \<Rightarrow> (DP_done (Escaped e), w)
      | Inr body \<Rightarrow> (DP_fail_log status body level message, w))"
| "deploy_step lib run cfg tm req (DP_fail_log status body level message) w =
     (DP_done (json_response status body), write_log cfg (at_log tm) level message w)"
| "deploy_step lib run cfg tm req (DP_done out) w = (DP_done out, w)"

text \<open>A handler that nothing interrupts.\<close>

primrec deploy_steps ::
  "json_lib \<Rightarrow> 'db sql \<Rightarrow> web_config \<Rightarrow> web_times \<Rightarrow> request \<Rightarrow> nat \<Rightarrow> deploy_pc \<times> 'db web_world \<Rightarrow>
     deploy_pc \<times> 'db web_world" where
  "deploy_steps lib run cfg tm req 0 st = st"
| "deploy_steps lib run cfg tm req (Suc k) st =
     deploy_steps lib run cfg tm req k (deploy_step lib run cfg tm req (fst st) (snd st))"

section \<open>Uninterrupted, the steps are the handler\<close>

lemma deploy_steps_done [simp]: "deploy_steps lib run cfg tm req k (DP_done out, w) = (DP_done out, w)"
  by (induction k) simp_all

lemma steps_fail:
  "deploy_steps lib run cfg tm req (Suc (Suc k)) (DP_fail status err level message, w) =
     (case reply_error lib cfg (at_log tm) status err level message w of (out, w') \<Rightarrow> (DP_done out, w'))"
  by (auto simp: reply_error_def split: sum.split)

lemma steps_archive_exception:
  "deploy_steps lib run cfg tm req (Suc (Suc k)) (archive_exception f, w) =
     (case reply_archive_error lib cfg (at_log tm) f w of (out, w') \<Rightarrow> (DP_done out, w'))"
  by (cases f) (simp_all add: reply_archive_error_def steps_fail del: deploy_steps.simps)

lemma steps_reply:
  "deploy_steps lib run cfg tm req (Suc k) (DP_reply rules commit, w) =
     (case reply_deployed lib rules commit w of (out, w') \<Rightarrow> (DP_done out, w'))"
  by (auto simp: reply_deployed_def split: sum.split)

lemma steps_log:
  "deploy_steps lib run cfg tm req (Suc (Suc k)) (DP_log c rules, w) =
     (case reply_deployed lib rules (Some c)
        (write_log cfg (at_log tm) Info (deploy_message c (author_of req) rules) w) of
        (out, w') \<Rightarrow> (DP_done out, w'))"
  by (subst deploy_steps.simps(2)) (simp only: fst_conv snd_conv deploy_step.simps steps_reply)

lemma steps_record:
  "deploy_steps lib run cfg tm req (Suc (Suc (Suc k))) (DP_record c rules, w) =
     (case (case record_deployment run (at_deployment tm) (ci_sha256 c) (ww_db w) of
             (Inl f, db) \<Rightarrow> reply_archive_error lib cfg (at_log tm) f (w\<lparr>ww_db := db\<rparr>)
           | (Inr _, db) \<Rightarrow> reply_deployed lib rules (Some c)
               (write_log cfg (at_log tm) Info (deploy_message c (author_of req) rules) (w\<lparr>ww_db := db\<rparr>))) of
        (out, w') \<Rightarrow> (DP_done out, w'))"
  by (subst deploy_steps.simps(2), cases "record_deployment run (at_deployment tm) (ci_sha256 c) (ww_db w)")
    (auto simp: steps_archive_exception steps_log simp del: deploy_steps.simps split: sum.split)

lemma steps_commit:
  "deploy_steps lib run cfg tm req (Suc (Suc (Suc (Suc k)))) (DP_commit doc rules, w) =
     (case deploy_archived lib run cfg tm req doc rules w of (out, w') \<Rightarrow> (DP_done out, w'))"
  by (subst deploy_steps.simps(2),
      cases "commit_config run (jl_dump lib) (at_commit tm) (author_of req) (rq_param req ''message'') doc (ww_db w)")
    (auto simp: steps_archive_exception steps_record deploy_archived_def author_of_def [symmetric] Let_def
      simp del: deploy_steps.simps split: sum.split prod.split)

lemma steps_reload_exception:
  "deploy_steps lib run cfg tm req (Suc (Suc k)) (reload_exception f, w) =
     (case (case f of
          Logic_parse_error m \<Rightarrow> reply_error lib cfg (at_log tm) 400 m Warn (''deploy rejected: '' @ m) w
        | Out_of_range m \<Rightarrow> (Escaped m, w)
        | Invalid_argument m \<Rightarrow> (Escaped m, w)
        | Undefined_behaviour \<Rightarrow> (Escaped ''undefined behaviour'', w)) of (out, w') \<Rightarrow> (DP_done out, w'))"
  by (cases f) (simp_all add: steps_fail del: deploy_steps.simps)

lemma steps_start:
  "deploy_steps lib run cfg tm req (Suc (Suc (Suc (Suc (Suc k))))) (DP_start, w) =
     (case handle_deploy lib run cfg tm req w of (out, w') \<Rightarrow> (DP_done out, w'))"
  by (subst deploy_steps.simps(2))
    (auto simp: handle_deploy_def steps_fail steps_reload_exception steps_commit steps_reply Let_def
      simp del: deploy_steps.simps split: sum.split prod.split)

section \<open>Property\<close>

text \<open>
  Left alone, the handler that is cut at its calls into the other parts is the handler in one piece:
  five steps end it, on every branch, with the same reply and the same runtime, archive and log.
\<close>

theorem deploy_steps_refine:
  "deploy_steps lib run cfg tm req (5 + k) (DP_start, w) =
     (case handle_deploy lib run cfg tm req w of (out, w') \<Rightarrow> (DP_done out, w'))"
  using steps_start [of lib run cfg tm req k w] by (simp add: eval_nat_numeral del: deploy_steps.simps)

end
