(* ===== verification/Whole_System.thy ===== *)
theory Whole_System
  imports Deploy_Steps Scan_System Log_System Telemetry_System
begin

text \<open>
  The running program: the scan thread and its owner, the web threads, the logger's threads and callers,
  the telemetry threads and \<open>main\<close>, interleaved. They share the simulated driver, the memory map, the logic
  runtime with its heap, the archive and the log buffer. Every step is one that the theories of the
  parts define; this theory says whose state each of them sees and changes.
\<close>

section \<open>State\<close>

text \<open>A request for a deployment on its thread.\<close>

record web_job =
  wj_times :: web_times
  wj_request :: request
  wj_pc :: deploy_pc

record 'db whole =
  wh_scan :: "(mock_driver, logic_runtime \<times> program_heap) engine_sys"
  wh_db :: 'db
  wh_log :: log_sys
  wh_jobs :: "nat \<Rightarrow> web_job option"
  wh_telemetry :: telemetry_server

text \<open>The part of the state the web handlers see, and its replacement.\<close>

definition web_view :: "'db whole \<Rightarrow> 'db web_world" where
  "web_view s = \<lparr>ww_runtime = fst (plant_logic (sys_plant (wh_scan s))),
     ww_heap = snd (plant_logic (sys_plant (wh_scan s))), ww_db = wh_db s, ww_log = ls_ring (wh_log s)\<rparr>"

definition on_plant ::
  "((mock_driver, logic_runtime \<times> program_heap) plant \<Rightarrow> (mock_driver, logic_runtime \<times> program_heap) plant) \<Rightarrow>
     'db whole \<Rightarrow> 'db whole" where
  "on_plant f s = s\<lparr>wh_scan := (wh_scan s)\<lparr>sys_plant := f (sys_plant (wh_scan s))\<rparr>\<rparr>"

definition put_web :: "'db web_world \<Rightarrow> 'db whole \<Rightarrow> 'db whole" where
  "put_web w s =
     (on_plant (\<lambda>p. p\<lparr>plant_logic := (ww_runtime w, ww_heap w)\<rparr>) s)
       \<lparr>wh_db := ww_db w, wh_log := (wh_log s)\<lparr>ls_ring := ww_log w\<rparr>\<rparr>"

text \<open>The records the handler is to give to the logger in a step: the success and the failures, when there is a logger.\<close>

fun deploy_logs :: "web_config \<Rightarrow> web_times \<Rightarrow> request \<Rightarrow> deploy_pc \<Rightarrow> log_record list" where
  "deploy_logs cfg tm req (DP_log c rules) =
     (if wc_logger cfg then [(at_log tm, Info, deploy_message c (author_of req) rules)] else [])"
| "deploy_logs cfg tm req (DP_fail_log status body level message) =
     (if wc_logger cfg then [(at_log tm, level, message)] else [])"
| "deploy_logs cfg tm req pc = []"

section \<open>Steps\<close>

text \<open>A step, with the records given to the logger in it and the batches written to the log file.\<close>

inductive whole_step ::
  "json_lib \<Rightarrow> 'db sql \<Rightarrow> web_config \<Rightarrow> log_config \<Rightarrow> (json \<Rightarrow> string) \<Rightarrow> nat \<Rightarrow>
     'db whole \<Rightarrow> log_record list \<times> log_entry list list \<Rightarrow> 'db whole \<Rightarrow> bool"
  for lib run cfg lcfg dump max_alloc where
  engine_moves: "engine_step mock_ops undisturbed (wh_scan s) evs e \<Longrightarrow>
     whole_step lib run cfg lcfg dump max_alloc s ([], []) (s\<lparr>wh_scan := e\<rparr>)"
| main_sets_input: "whole_step lib run cfg lcfg dump max_alloc s ([], [])
     (on_plant (\<lambda>w. w\<lparr>plant_drivers := (plant_drivers w)(0 := set_mock_input_bit (plant_drivers w 0) off i v)\<rparr>) s)"
| main_reloads: "plant_logic (sys_plant (wh_scan s)) = (rt, h) \<Longrightarrow> wf_program p \<Longrightarrow>
     make_shared_program h p = (a, h') \<Longrightarrow>
     whole_step lib run cfg lcfg dump max_alloc s ([], []) (on_plant (\<lambda>w. w\<lparr>plant_logic := (reload rt (Some a), h')\<rparr>) s)"
| input_posted: "handle_input lib (\<lambda>n k b d. set_mock_input_bit d n k b) req
       (plant_drivers (sys_plant (wh_scan s)) 0) = (out, d) \<Longrightarrow>
     whole_step lib run cfg lcfg dump max_alloc s ([], [])
       (on_plant (\<lambda>w. w\<lparr>plant_drivers := (plant_drivers w)(0 := d)\<rparr>) s)"
| history_asked: "handle_history lib run req (web_view s) = (out, w) \<Longrightarrow>
     whole_step lib run cfg lcfg dump max_alloc s ([], []) (put_web w s)"
| deploy_arrives: "wh_jobs s i = None \<Longrightarrow>
     whole_step lib run cfg lcfg dump max_alloc s ([], [])
       (s\<lparr>wh_jobs := (wh_jobs s)(i \<mapsto> \<lparr>wj_times = tm, wj_request = req, wj_pc = DP_start\<rparr>)\<rparr>)"
| deploy_moves: "wh_jobs s i = Some j \<Longrightarrow>
     deploy_step lib run cfg (wj_times j) (wj_request j) (wj_pc j) (web_view s) = (pc, w) \<Longrightarrow>
     whole_step lib run cfg lcfg dump max_alloc s (deploy_logs cfg (wj_times j) (wj_request j) (wj_pc j), [])
       ((put_web w s)\<lparr>wh_jobs := (wh_jobs s)(i \<mapsto> j\<lparr>wj_pc := pc\<rparr>)\<rparr>)"
| deploy_answered: "wh_jobs s i = Some j \<Longrightarrow> wj_pc j = DP_done out \<Longrightarrow>
     whole_step lib run cfg lcfg dump max_alloc s ([], []) (s\<lparr>wh_jobs := (wh_jobs s)(i := None)\<rparr>)"
| logger_moves: "log_step lcfg (wh_log s) lw l \<Longrightarrow>
     whole_step lib run cfg lcfg dump max_alloc s lw (s\<lparr>wh_log := l\<rparr>)"
| telemetry_moves: "tm_own dump max_alloc (plant_map (sys_plant (wh_scan s))) (wh_telemetry s) t \<Longrightarrow>
     whole_step lib run cfg lcfg dump max_alloc s ([], []) (s\<lparr>wh_telemetry := t\<rparr>)"
| telemetry_met: "tm_env (wh_telemetry s) t \<Longrightarrow>
     whole_step lib run cfg lcfg dump max_alloc s ([], []) (s\<lparr>wh_telemetry := t\<rparr>)"

definition whole_start ::
  "logic_runtime \<Rightarrow> program_heap \<Rightarrow> int \<Rightarrow> 'db \<Rightarrow> disk \<Rightarrow> int \<Rightarrow> 'db whole" where
  "whole_start rt h now db d port =
     \<lparr>wh_scan = main_started rt h now, wh_db = db, wh_log = start_logger (RingBufferLogger d),
      wh_jobs = Map.empty, wh_telemetry = TelemetryServer port\<rparr>"

inductive whole_run ::
  "json_lib \<Rightarrow> 'db sql \<Rightarrow> web_config \<Rightarrow> log_config \<Rightarrow> (json \<Rightarrow> string) \<Rightarrow> nat \<Rightarrow> 'db whole \<Rightarrow> 'db whole \<Rightarrow> bool"
  for lib run cfg lcfg dump max_alloc s where
  whole_here: "whole_run lib run cfg lcfg dump max_alloc s s"
| whole_on: "whole_run lib run cfg lcfg dump max_alloc s t \<Longrightarrow>
     whole_step lib run cfg lcfg dump max_alloc t lw u \<Longrightarrow> whole_run lib run cfg lcfg dump max_alloc s u"

text \<open>
  A run with its history: the states it went through, from the first to the last, all the records given to the
  logger and all the batches written, in order.
\<close>

inductive whole_trace ::
  "json_lib \<Rightarrow> 'db sql \<Rightarrow> web_config \<Rightarrow> log_config \<Rightarrow> (json \<Rightarrow> string) \<Rightarrow> nat \<Rightarrow> 'db whole \<Rightarrow>
     'db whole list \<Rightarrow> log_record list \<Rightarrow> log_entry list list \<Rightarrow> 'db whole \<Rightarrow> bool"
  for lib run cfg lcfg dump max_alloc s where
  trace_here: "whole_trace lib run cfg lcfg dump max_alloc s [s] [] [] s"
| trace_on: "whole_trace lib run cfg lcfg dump max_alloc s us logged written t \<Longrightarrow>
     whole_step lib run cfg lcfg dump max_alloc t lw u \<Longrightarrow>
     whole_trace lib run cfg lcfg dump max_alloc s (us @ [u]) (logged @ fst lw) (written @ snd lw) u"

lemma whole_run_traced:
  "whole_run lib run cfg lcfg dump max_alloc s t \<Longrightarrow>
    \<exists>us logged written. whole_trace lib run cfg lcfg dump max_alloc s us logged written t"
  by (induction rule: whole_run.induct) (blast intro: trace_here trace_on)+

lemma trace_last:
  "whole_trace lib run cfg lcfg dump max_alloc s us logged written t \<Longrightarrow> \<exists>before. us = before @ [t]"
  by (erule whole_trace.cases) auto

lemma whole_simps [simp]:
  "sys_plant (wh_scan (on_plant f s)) = f (sys_plant (wh_scan s))"
  "wh_db (on_plant f s) = wh_db s" "wh_log (on_plant f s) = wh_log s" "wh_jobs (on_plant f s) = wh_jobs s"
  "wh_telemetry (on_plant f s) = wh_telemetry s"
  "sys_engine (wh_scan (on_plant f s)) = sys_engine (wh_scan s)"
  "plant_logic (sys_plant (wh_scan (put_web w s))) = (ww_runtime w, ww_heap w)"
  "plant_drivers (sys_plant (wh_scan (put_web w s))) = plant_drivers (sys_plant (wh_scan s))"
  "plant_map (sys_plant (wh_scan (put_web w s))) = plant_map (sys_plant (wh_scan s))"
  "sys_engine (wh_scan (put_web w s)) = sys_engine (wh_scan s)"
  "wh_db (put_web w s) = ww_db w" "wh_log (put_web w s) = (wh_log s)\<lparr>ls_ring := ww_log w\<rparr>"
  "wh_jobs (put_web w s) = wh_jobs s" "wh_telemetry (put_web w s) = wh_telemetry s"
  "ww_runtime (web_view s) = fst (plant_logic (sys_plant (wh_scan s)))"
  "ww_heap (web_view s) = snd (plant_logic (sys_plant (wh_scan s)))"
  "ww_db (web_view s) = wh_db s" "ww_log (web_view s) = ls_ring (wh_log s)"
  by (simp_all add: on_plant_def put_web_def web_view_def)

section \<open>What a step of a handler does to the parts\<close>

lemma deploy_step_runtime:
  assumes "deploy_step lib run cfg tm req pc w = (pc', w')" and "runtime_ok (ww_runtime w) (ww_heap w)"
  shows "runtime_ok (ww_runtime w') (ww_heap w')"
  using assms reload_from_json_ok [OF assms(2)]
  by (cases pc)
    (auto simp: Let_def split: prod.splits sum.splits)

lemma deploy_step_log:
  assumes "deploy_step lib run cfg tm req pc w = (pc', w')"
  shows "ww_log w' = foldl put_record (ww_log w) (deploy_logs cfg tm req pc)"
  using assms by (cases pc) (auto simp: write_log_def Let_def split: prod.splits sum.splits)

text \<open>
  A document that was made to run: in a state of the past the runtime's current program is the one the
  parser makes of it.
\<close>

definition installed :: "json \<Rightarrow> 'db web_world \<Rightarrow> bool" where
  "installed doc w \<longleftrightarrow>
     (\<exists>a p. rt_current (ww_runtime w) = Some a \<and> heap_cells (ww_heap w) a = Some p \<and>
        from_json doc (rt_period (ww_runtime w)) = Inr p)"

definition runs_document :: "json \<Rightarrow> 'db whole \<Rightarrow> bool" where
  "runs_document doc u \<longleftrightarrow> installed doc (web_view u)"

text \<open>A commit that is about to be made is of a document that was made to run.\<close>

fun pc_ran :: "'db whole list \<Rightarrow> deploy_pc \<Rightarrow> bool" where
  "pc_ran us (DP_commit doc rules) \<longleftrightarrow> (\<exists>u\<in>set us. runs_document doc u)"
| "pc_ran us pc \<longleftrightarrow> True"

lemma exceptions_commit_nothing [simp]:
  "archive_exception f \<noteq> DP_commit doc rules" "reload_exception g \<noteq> DP_commit doc rules"
  by (cases f; simp) (cases g; simp)

lemma deploy_step_installs:
  assumes "deploy_step lib run cfg tm req pc w = (DP_commit doc rules, w')"
  shows "installed doc w'"
  using assms
  by (cases pc)
    (auto simp: installed_def reload_from_json_cases Let_def split: sum.splits prod.splits if_splits)

lemma deploy_step_ran:
  assumes "deploy_step lib run cfg tm req pc w = (pc', web_view u)"
  shows "pc_ran (us @ [u]) pc'"
  using deploy_step_installs assms by (cases pc') (auto simp: runs_document_def)

lemma pc_ran_more: "pc_ran us pc \<Longrightarrow> pc_ran (us @ extra) pc"
  by (cases pc) auto

text \<open>The tables after a step: still an archive, with at most the snapshot of the document being committed added.\<close>

lemma record_deployment_tables:
  assumes "sqlite_store run tables" and "record_deployment run now sha db = (r, db')"
  shows "tab_commits (tables db') = tab_commits (tables db) \<and> tab_snapshots (tables db') = tab_snapshots (tables db)"
  using sqlite_store.insert_deployment [OF assms(1)] assms(2)
  by (fastforce simp: record_deployment_def bind_text_def split: if_splits)

lemma archive_ok_cong:
  "archive_ok t \<Longrightarrow> tab_commits t' = tab_commits t \<Longrightarrow> tab_snapshots t' = tab_snapshots t \<Longrightarrow> archive_ok t'"
  by (simp add: archive_ok_def)

lemma commit_config_tables:
  assumes "sqlite_store run tables" and "head_reliable run" and "archive_ok (tables db)"
    and "commit_config run dump now author message doc db = (r, db')"
  shows "archive_ok (tables db') \<and>
    (\<forall>x\<in>set (tab_snapshots (tables db')). x \<in> set (tab_snapshots (tables db)) \<or>
       (\<exists>printed. dump doc = Inr printed \<and> snd x = c_str printed))"
proof (cases "dump doc")
  case (Inl e)
  with assms(3,4) show ?thesis by (simp add: commit_config_def)
next
  case (Inr printed)
  from sqlite_store.commit_config_keeps [OF assms(1,4) Inr assms(2,3)]
    sqlite_store.commit_config_cases [OF assms(1,4) Inr] show ?thesis
    using Inr by auto
qed

lemma deploy_step_tables:
  assumes "sqlite_store run tables" and "head_reliable run" and "archive_ok (tables (ww_db w))"
    and "deploy_step lib run cfg tm req pc w = (pc', w')"
  shows "archive_ok (tables (ww_db w')) \<and>
    (\<forall>x\<in>set (tab_snapshots (tables (ww_db w'))). x \<in> set (tab_snapshots (tables (ww_db w))) \<or>
       (\<exists>doc rules printed. pc = DP_commit doc rules \<and> jl_dump lib doc = Inr printed \<and> snd x = c_str printed))"
proof (cases pc)
  case (DP_commit doc rules)
  with assms(4) show ?thesis
    using commit_config_tables [OF assms(1-3), of "jl_dump lib" "at_commit tm" "author_of req" "rq_param req ''message''" doc]
    by (auto split: prod.splits sum.splits)
next
  case (DP_record c rules)
  with assms(3,4) show ?thesis
    using record_deployment_tables [OF assms(1), of "at_deployment tm" "ci_sha256 c" "ww_db w"] archive_ok_cong
    by (fastforce split: prod.splits sum.splits)
next
  case DP_start
  with assms(3,4) show ?thesis by (auto simp: Let_def split: prod.splits sum.splits)
qed (use assms(3,4) in \<open>auto split: sum.splits\<close>)

lemma history_tables:
  assumes "sqlite_store run tables" and "handle_history lib run req w = (out, w')"
  shows "tables (ww_db w') = tables (ww_db w) \<and> ww_runtime w' = ww_runtime w \<and> ww_heap w' = ww_heap w \<and>
    ww_log w' = ww_log w"
proof -
  obtain answer db where q: "run (ww_db w) history_sql [SQL_int (history_limit req)] = (answer, db)"
    by (cases "run (ww_db w) history_sql [SQL_int (history_limit req)]")
  have "\<exists>r. get_commit_history run (history_limit req) (ww_db w) = (r, db)"
    by (cases answer) (simp_all add: get_commit_history_def q)
  with assms(2) have "w' = w\<lparr>ww_db := db\<rparr>"
    by (auto simp: handle_history_def split: sum.splits archive_failure.splits)
  with sqlite_store.history_query [OF assms(1) q] show ?thesis by simp
qed

section \<open>The invariant of the whole program\<close>

definition whole_ok ::
  "('db \<Rightarrow> archive_tables) \<Rightarrow> log_config \<Rightarrow> disk \<Rightarrow> 'db whole list \<Rightarrow> log_record list \<Rightarrow> log_entry list list \<Rightarrow>
     'db whole \<Rightarrow> bool" where
  "whole_ok tables lcfg d us logged written s \<longleftrightarrow>
     plc.engine_good (wh_scan s) \<and> archive_ok (tables (wh_db s)) \<and> tm_inv (wh_telemetry s) \<and>
     log_inv lcfg d logged written (wh_log s) \<and>
     (\<forall>i j. wh_jobs s i = Some j \<longrightarrow> pc_ran us (wj_pc j))"

lemma engine_good_on_plant:
  "plc.engine_good (wh_scan s) \<Longrightarrow> plant_ok (f (sys_plant (wh_scan s))) \<Longrightarrow> plc.engine_good (wh_scan (on_plant f s))"
  by (simp add: plc.engine_good_def plant_good_iff)

lemma log_inv_log:
  assumes "log_inv lcfg d logged written l"
  shows "log_inv lcfg d (logged @ xs) written (l\<lparr>ls_ring := foldl put_record (ls_ring l) xs\<rparr>)"
proof (induction xs rule: rev_induct)
  case (snoc x xs)
  obtain now level message where "x = (now, level, message)" by (rule prod_cases3)
  with log_step_inv [OF calls_log snoc, of now level message] show ?case by simp
qed (use assms in simp)

lemma whole_ok_deploy:
  assumes store: "sqlite_store run tables" "head_reliable run" and ok: "whole_ok tables lcfg d us logged written s"
    and step: "deploy_step lib run cfg (wj_times j) (wj_request j) (wj_pc j) (web_view s) = (pc, w)"
    and t: "t = (put_web w s)\<lparr>wh_jobs := (wh_jobs s)(i \<mapsto> j\<lparr>wj_pc := pc\<rparr>)\<rparr>"
  shows "whole_ok tables lcfg d (us @ [t]) (logged @ deploy_logs cfg (wj_times j) (wj_request j) (wj_pc j)) written t"
proof -
  have good: "plant_ok (sys_plant (wh_scan s))" and eng: "plc.engine_good (wh_scan s)"
    using ok by (simp_all add: whole_ok_def plc.engine_good_def plant_good_iff)
  then have "runtime_ok (ww_runtime w) (ww_heap w)"
    by (intro deploy_step_runtime [OF step]) (simp add: plant_ok_def)
  with good have eng': "plc.engine_good (wh_scan (put_web w s))"
    using eng by (simp add: plc.engine_good_def plant_good_iff plant_ok_def)
  have "log_inv lcfg d logged written (wh_log s)" using ok by (simp add: whole_ok_def)
  from log_inv_log [OF this] deploy_step_log [OF step] have log:
    "log_inv lcfg d (logged @ deploy_logs cfg (wj_times j) (wj_request j) (wj_pc j)) written
      ((wh_log s)\<lparr>ls_ring := ww_log w\<rparr>)" by simp
  have "archive_ok (tables (wh_db s))" using ok by (simp add: whole_ok_def)
  with deploy_step_tables [OF store _ step, unfolded whole_simps] have arch: "archive_ok (tables (ww_db w))" by blast
  have "web_view t = w" by (simp add: t web_view_def put_web_def on_plant_def)
  with deploy_step_ran step have pc: "pc_ran (us @ [t]) pc" by blast
  have "pc_ran (us @ [t]) (wj_pc j')" if "wh_jobs s k = Some j'" for k j'
    using ok that by (intro pc_ran_more) (auto simp: whole_ok_def)
  with pc have "\<forall>k j'. wh_jobs t k = Some j' \<longrightarrow> pc_ran (us @ [t]) (wj_pc j')" by (simp add: t)
  moreover have "plc.engine_good (wh_scan t)" "archive_ok (tables (wh_db t))" "tm_inv (wh_telemetry t)"
    "wh_log t = (wh_log s)\<lparr>ls_ring := ww_log w\<rparr>"
    using ok eng' arch by (simp_all add: whole_ok_def t)
  ultimately show ?thesis using log by (simp add: whole_ok_def)
qed

text \<open>The history of jobs that did not move.\<close>

lemma whole_ok_later:
  "whole_ok tables lcfg d us logged written s \<Longrightarrow> wh_jobs t = wh_jobs s \<Longrightarrow> plc.engine_good (wh_scan t) \<Longrightarrow>
   archive_ok (tables (wh_db t)) \<Longrightarrow> tm_inv (wh_telemetry t) \<Longrightarrow>
   log_inv lcfg d logged' written' (wh_log t) \<Longrightarrow> whole_ok tables lcfg d (us @ [t]) logged' written' t"
  by (simp add: whole_ok_def pc_ran_more)

lemma plant_ok_input:
  "plant_ok w \<Longrightarrow> valid_mock d \<Longrightarrow> plant_ok (w\<lparr>plant_drivers := (plant_drivers w)(a := d)\<rparr>)"
  by (simp add: plant_ok_def)

lemma handle_input_valid:
  assumes "handle_input lib (\<lambda>n k b d. set_mock_input_bit d n k b) req d = (out, d')" and "valid_mock d"
  shows "valid_mock d'"
  using assms valid_set_mock_input_bit [OF assms(2)]
  by (auto simp: handle_input_def split: sum.splits prod.splits)

lemma whole_step_ok:
  assumes "whole_step lib run cfg lcfg dump max_alloc s lw t"
    and store: "sqlite_store run tables" "head_reliable run" and ok: "whole_ok tables lcfg d us logged written s"
  shows "whole_ok tables lcfg d (us @ [t]) (logged @ fst lw) (written @ snd lw) t"
proof -
  have good: "plant_ok (sys_plant (wh_scan s))" and eng: "plc.engine_good (wh_scan s)"
    using ok by (simp_all add: whole_ok_def plc.engine_good_def plant_good_iff)
  note parts = ok [unfolded whole_ok_def]
  have plant: "whole_ok tables lcfg d (us @ [on_plant f s]) logged written (on_plant f s)"
    if "plant_ok (f (sys_plant (wh_scan s)))" for f
    using parts engine_good_on_plant [of s f, OF eng that] by (intro whole_ok_later [OF ok]) simp_all
  from assms(1) show ?thesis
  proof cases
    case (engine_moves evs e)
    then have "plc.engine_good e" using plc.engine_step_good [OF _ eng] by blast
    with engine_moves parts show ?thesis by (simp add: whole_ok_later [OF ok])
  next
    case (main_sets_input off i v)
    have "valid_mock (plant_drivers (sys_plant (wh_scan s)) 0)" using good by (simp add: plant_ok_def)
    then show ?thesis unfolding main_sets_input fst_conv snd_conv append_Nil2
      by (intro plant plant_ok_input [OF good] valid_set_mock_input_bit)
  next
    case (main_reloads rt h p a h')
    have "runtime_ok rt h" using good main_reloads(3) by (simp add: plant_ok_def)
    then have "runtime_ok (reload rt (Some a)) h'"
      using main_reloads(4,5) heap_ok_alloc [of h p a h']
      by (auto simp: runtime_ok_def reload_def make_shared_program_def live_def)
    with main_reloads(1,2) good show ?thesis by (auto simp: plant_ok_def intro!: plant)
  next
    case (input_posted req out d')
    have "valid_mock (plant_drivers (sys_plant (wh_scan s)) 0)" using good by (simp add: plant_ok_def)
    then show ?thesis unfolding input_posted(1,2) fst_conv snd_conv append_Nil2
      by (intro plant plant_ok_input [OF good] handle_input_valid [OF input_posted(3)])
  next
    case (history_asked req out w)
    from history_tables [OF store(1) history_asked(3)] have w: "tables (ww_db w) = tables (wh_db s)"
      "(ww_runtime w, ww_heap w) = plant_logic (sys_plant (wh_scan s))" "ww_log w = ls_ring (wh_log s)" by simp_all
    then have "plc.engine_good (wh_scan (put_web w s))"
      using good eng by (simp add: plc.engine_good_def plant_good_iff plant_ok_def)
    with w history_asked(1,2) parts show ?thesis by (simp add: whole_ok_later [OF ok])
  next
    case (deploy_arrives i tm req)
    then show ?thesis using ok by (simp add: whole_ok_def pc_ran_more)
  next
    case (deploy_moves i j pc w)
    then show ?thesis using whole_ok_deploy [OF store ok] by simp
  next
    case (deploy_answered i j out)
    then show ?thesis using ok by (simp add: whole_ok_def pc_ran_more)
  next
    case (logger_moves l)
    with parts log_step_inv [OF logger_moves(2)] show ?thesis by (simp add: whole_ok_later [OF ok])
  next
    case (telemetry_moves u)
    have "valid_memory (plant_map (sys_plant (wh_scan s)))" using good by (simp add: plant_ok_def)
    from tm_own_inv [OF telemetry_moves(3) this] telemetry_moves parts show ?thesis by (simp add: whole_ok_later [OF ok])
  next
    case (telemetry_met u)
    with parts tm_env_inv [OF telemetry_met(3)] show ?thesis by (simp add: whole_ok_later [OF ok])
  qed
qed

lemma whole_trace_ok:
  assumes "whole_trace lib run cfg lcfg dump max_alloc s us logged written t"
    and "sqlite_store run tables" "head_reliable run" and "whole_ok tables lcfg d [s] [] [] s"
  shows "whole_ok tables lcfg d us logged written t"
  using assms(1,4) by (induction rule: whole_trace.induct) (blast intro: whole_step_ok [OF _ assms(2,3)])+

lemma whole_start_ok:
  assumes "runtime_ok rt h" and "archive_ok (tables db)"
  shows "whole_ok tables lcfg d [s] [] [] (whole_start rt h now db d port)"
proof -
  have "log_inv lcfg d [] [] (start_logger (RingBufferLogger d))" by (rule log_run_inv [OF log_run_nil refl])
  moreover have "tm_inv (TelemetryServer port)" by (rule tm_reach_inv [OF tm_new])
  ultimately show ?thesis
    using main_engine_good [OF assms(1)] assms(2) by (auto simp: whole_ok_def whole_start_def)
qed

text \<open>A step that adds a snapshot commits a document that was made to run before.\<close>

lemma step_adds_snapshot:
  assumes "whole_step lib run cfg lcfg dump max_alloc s lw t"
    and store: "sqlite_store run tables" "head_reliable run" and ok: "whole_ok tables lcfg d us logged written s"
    and new: "x \<in> set (tab_snapshots (tables (wh_db t)))" "x \<notin> set (tab_snapshots (tables (wh_db s)))"
  shows "\<exists>doc printed u. u \<in> set us \<and> runs_document doc u \<and> jl_dump lib doc = Inr printed \<and> snd x = c_str printed"
  using assms(1)
proof cases
  case (history_asked req out w)
  with new history_tables [OF store(1) history_asked(3)] show ?thesis by simp
next
  case (deploy_moves i j pc w)
  have "archive_ok (tables (wh_db s))" using ok by (simp add: whole_ok_def)
  with deploy_step_tables [OF store _ deploy_moves(4), unfolded whole_simps] new deploy_moves(2) obtain doc rules printed
    where doc: "wj_pc j = DP_commit doc rules" "jl_dump lib doc = Inr printed" "snd x = c_str printed" by auto
  have "pc_ran us (wj_pc j)" using ok deploy_moves(3) by (simp add: whole_ok_def)
  with doc show ?thesis by auto
qed (use new in simp_all)

lemma snapshot_added:
  assumes "whole_trace lib run cfg lcfg dump max_alloc s us logged written t"
    and store: "sqlite_store run tables" "head_reliable run" and ok: "whole_ok tables lcfg d [s] [] [] s"
    and "x \<in> set (tab_snapshots (tables (wh_db t)))" and "x \<notin> set (tab_snapshots (tables (wh_db s)))"
  shows "\<exists>before b c after doc printed u. us = before @ [b, c] @ after \<and>
    x \<notin> set (tab_snapshots (tables (wh_db b))) \<and> x \<in> set (tab_snapshots (tables (wh_db c))) \<and>
    u \<in> set (before @ [b]) \<and> runs_document doc u \<and> jl_dump lib doc = Inr printed \<and> snd x = c_str printed"
  using assms(1,5)
proof (induction rule: whole_trace.induct)
  case trace_here
  with assms(6) show ?case by simp
next
  case (trace_on us logged written t lw v)
  show ?case
  proof (cases "x \<in> set (tab_snapshots (tables (wh_db t)))")
    case True
    from trace_on.IH [OF this] show ?thesis by (metis append.assoc)
  next
    case False
    have "whole_ok tables lcfg d us logged written t" by (rule whole_trace_ok [OF trace_on(1) store ok])
    from step_adds_snapshot [OF trace_on(2) store this trace_on(4) False] trace_last [OF trace_on(1)] False trace_on(4)
    obtain before doc printed u where "us = before @ [t]" "u \<in> set us" "runs_document doc u"
      "jl_dump lib doc = Inr printed" "snd x = c_str printed" by blast
    with False trace_on(4) show ?thesis
      by (intro exI [of _ before] exI [of _ t] exI [of _ v] exI [of _ "[]"]) auto
  qed
qed

lemma client_step_failure:
  "client_step dump max_alloc running ready mem c = Inl f \<Longrightarrow> valid_memory mem \<Longrightarrow> \<exists>e. f = Frame_failure e"
  by (cases "cl_pc c")
    (auto simp: client_step_def memory_call_def Let_def split: sum.splits prod.splits if_splits option.splits)

lemma telemetry_failures:
  "tm_fails dump max_alloc mem s f \<Longrightarrow> valid_memory mem \<Longrightarrow> f = Bad_descriptor \<or> (\<exists>e. f = Frame_failure e)"
  by (induction rule: tm_fails.induct) (auto dest: client_step_failure)

text \<open>What one step of a deployment does to a run, seen from the web threads.\<close>

lemma run_deploy_step:
  assumes "whole_run lib run cfg lcfg dump max_alloc s0 s" and "wh_jobs s i = Some j"
    and "deploy_step lib run cfg (wj_times j) (wj_request j) (wj_pc j) (web_view s) = (pc, w)"
  shows "\<exists>t. whole_run lib run cfg lcfg dump max_alloc s0 t \<and> wh_jobs t = (wh_jobs s)(i \<mapsto> j\<lparr>wj_pc := pc\<rparr>) \<and>
    web_view t = w"
proof -
  let ?t = "(put_web w s)\<lparr>wh_jobs := (wh_jobs s)(i \<mapsto> j\<lparr>wj_pc := pc\<rparr>)\<rparr>"
  have "web_view ?t = w" by (simp add: web_view_def put_web_def on_plant_def)
  with whole_on [OF assms(1) deploy_moves [OF assms(2,3)]] show ?thesis by fastforce
qed

lemma run_deploy_arrives:
  assumes "whole_run lib run cfg lcfg dump max_alloc s0 s" and "wh_jobs s i = None"
  shows "\<exists>t. whole_run lib run cfg lcfg dump max_alloc s0 t \<and>
    wh_jobs t = (wh_jobs s)(i \<mapsto> \<lparr>wj_times = tm, wj_request = req, wj_pc = DP_start\<rparr>) \<and> web_view t = web_view s"
proof -
  let ?t = "s\<lparr>wh_jobs := (wh_jobs s)(i \<mapsto> \<lparr>wj_times = tm, wj_request = req, wj_pc = DP_start\<rparr>)\<rparr>"
  have "web_view ?t = web_view s" by (simp add: web_view_def)
  with whole_on [OF assms(1) deploy_arrives [OF assms(2)]] show ?thesis by fastforce
qed

text \<open>A run for the examples: one deployment up to its commit.\<close>

abbreviation demo_start :: "archive_tables whole" where
  "demo_start \<equiv> whole_start (LogicRuntime 20 None) empty_heap 0 empty_tables
     \<lparr>files = Map.empty, can_open = (\<lambda>_. True), can_rename = (\<lambda>_ _. True)\<rparr> 8081"

lemma demo_deploys:
  "\<exists>s sha. whole_run demo_lib table_run demo_config lcfg dump max_alloc demo_start s \<and>
     (sha, ''{}'') \<in> set (tab_snapshots (wh_db s))"
proof -
  let ?run = "whole_run demo_lib table_run demo_config lcfg dump max_alloc demo_start"
  let ?job = "\<lambda>pc. \<lparr>wj_times = demo_times, wj_request = demo_request, wj_pc = pc\<rparr>"
  have view: "web_view demo_start = demo_runtime empty_tables"
    by (simp add: web_view_def whole_start_def main_defs demo_runtime_def start_logger_def RingBufferLogger_def)
  have "wh_jobs demo_start 0 = None" by (simp add: whole_start_def)
  from run_deploy_arrives [OF whole_here this, of demo_lib table_run demo_config lcfg dump max_alloc demo_times demo_request]
  obtain s1 where s1: "?run s1" "wh_jobs s1 0 = Some (?job DP_start)" "web_view s1 = demo_runtime empty_tables"
    by (auto simp: view)
  have "\<exists>w. deploy_step demo_lib table_run demo_config demo_times demo_request DP_start (demo_runtime empty_tables) =
      (DP_commit demo_doc 0, w) \<and> ww_db w = empty_tables"
    by (simp add: demo_runtime_def reload_from_json_cases demo_parsed demo_lib_def plain_lib_def demo_config_def
        pointed_program_def rule_count_def Let_def)
  then obtain w2 where "deploy_step demo_lib table_run demo_config demo_times demo_request DP_start (demo_runtime empty_tables) =
      (DP_commit demo_doc 0, w2)" and w2: "ww_db w2 = empty_tables" by blast
  with run_deploy_step [OF s1(1,2)] s1(3) obtain s2 where
    s2: "?run s2" "wh_jobs s2 0 = Some (?job (DP_commit demo_doc 0))" "web_view s2 = w2" by fastforce
  have dump: "jl_dump demo_lib = (\<lambda>_. Inr ''{}'')" by (simp add: demo_lib_def plain_lib_def)
  obtain c t where c: "commit_config table_run (\<lambda>_. Inr ''{}'') 0 (author_of demo_request)
      (rq_param demo_request ''message'') demo_doc empty_tables = (Inr c, t)"
    and t: "(ci_sha256 c, ''{}'') \<in> set (tab_snapshots t)"
    using first_commit(1) by (simp add: first_tables_def)
  have "deploy_step demo_lib table_run demo_config demo_times demo_request (DP_commit demo_doc 0) w2 =
      (DP_record c 0, w2\<lparr>ww_db := t\<rparr>)"
    using c by (simp add: dump w2 demo_times_def)
  with run_deploy_step [OF s2(1,2)] s2(3) obtain s3 where s3: "?run s3" "web_view s3 = w2\<lparr>ww_db := t\<rparr>" by fastforce
  have "wh_db s3 = t" using arg_cong [OF s3(2), of ww_db] by simp
  with s3(1) t show ?thesis by blast
qed

lemma empty_runtime_ok: "runtime_ok (LogicRuntime 20 None) empty_heap"
  by (simp add: runtime_ok_def heap_ok_empty live_def LogicRuntime_def)

section \<open>Properties\<close>

text \<open>
  C11. The whole program keeps every part sound. In any interleaving of the scan thread and its owner, \<open>main\<close>'s
  inputs and reloads, posted inputs, history requests, deployments of arbitrary bodies on any number of
  web threads, the logger and the telemetry threads: the scan thread does not die, the plant and the
  runtime stay well formed, the archive stays one linear history, the telemetry server holds exactly the
  descriptors it has open and no read of the memory map fails in it. Of the records given to the logger by the
  deployments and by everyone else, in this order, those that are written, drained or pending are a
  subsequence, the others are exactly what the drop counter counts, none before 1024 records were given, and the log file is
  the result of writing the batches in order.
\<close>

theorem whole_program_sound:
  assumes "runtime_ok rt h" and "sqlite_store run tables" and "head_reliable run" and "archive_ok (tables db)"
    and "whole_trace lib run cfg lcfg dump max_alloc (whole_start rt h now db d port) us logged written s"
  shows "worker_thread (sys_engine (wh_scan s)) \<noteq> Terminated err \<and> plant_ok (sys_plant (wh_scan s)) \<and>
    archive_ok (tables (wh_db s)) \<and>
    ts_open (wh_telemetry s) = set (held (wh_telemetry s)) \<and> distinct (held (wh_telemetry s)) \<and>
    \<not> tm_fails dump max_alloc (plant_map (sys_plant (wh_scan s))) (wh_telemetry s) (Memory_failure f) \<and>
    subseq (map entry_record (concat written @ in_flight (wh_log s)) @ pending_records (ls_ring (wh_log s)))
      (map truncated logged) \<and>
    (\<exists>lost. length logged = length (concat written) + length (in_flight (wh_log s)) +
        length (pending_records (ls_ring (wh_log s))) + lost \<and>
      rb_dropped (ls_ring (wh_log s)) = of_nat lost \<and> (lost = 0 \<or> 1024 < length logged)) \<and>
    ls_disk (wh_log s) = foldl (write_entries lcfg) d written"
proof -
  have ok: "whole_ok tables lcfg d us logged written s"
    by (rule whole_trace_ok [OF assms(5,2,3) whole_start_ok [where tables = tables, OF assms(1,4)]])
  then have "plant_ok (sys_plant (wh_scan s))"
    by (simp add: whole_ok_def plc.engine_good_def plant_good_iff)
  then have "\<not> tm_fails dump max_alloc (plant_map (sys_plant (wh_scan s))) (wh_telemetry s) (Memory_failure f)"
    using telemetry_failures by (fastforce simp: plant_ok_def)
  moreover have "log_inv lcfg d logged written (wh_log s)" using ok by (simp add: whole_ok_def)
  note log_inv_accounts [OF this]
  ultimately show ?thesis using ok
    by (simp add: whole_ok_def plc.engine_good_def plant_good_iff tm_inv_def)
qed

theorem whole_program_sound_witness:
  "\<forall>lcfg dump max_alloc. \<exists>us logged written s.
     whole_trace demo_lib table_run demo_config lcfg dump max_alloc demo_start us logged written s \<and>
     tab_snapshots (wh_db s) \<noteq> [] \<and> archive_ok (wh_db s) \<and> plant_ok (sys_plant (wh_scan s))"
proof (intro allI)
  fix lcfg dump max_alloc
  obtain s sha where "whole_run demo_lib table_run demo_config lcfg dump max_alloc demo_start s"
    and "(sha, ''{}'') \<in> set (tab_snapshots (wh_db s))" using demo_deploys by blast
  moreover from whole_run_traced [OF this(1)] obtain us logged written where
    run: "whole_trace demo_lib table_run demo_config lcfg dump max_alloc demo_start us logged written s" by blast
  ultimately have some: "tab_snapshots (wh_db s) \<noteq> []" by auto
  have ok: "archive_ok (id empty_tables)" by (simp add: archive_ok_empty)
  from whole_program_sound [OF empty_runtime_ok sqlite_stores(1) head_reliable_table_run ok run]
  have "archive_ok (wh_db s)" "plant_ok (sys_plant (wh_scan s))" unfolding id_apply by blast+
  with run some show "\<exists>us logged written s. whole_trace demo_lib table_run demo_config lcfg dump max_alloc demo_start us logged written s \<and>
     tab_snapshots (wh_db s) \<noteq> [] \<and> archive_ok (wh_db s) \<and> plant_ok (sys_plant (wh_scan s))" by blast
qed

text \<open>
  C12. The archive only ever gets configurations that ran: whatever is deployed at the same time, for every
  snapshot that is there at the end of a run and was not at its start, the run has a step that puts it
  there, and at that step or earlier a state in which the runtime's current program is the one the
  parser makes of the document whose printed text the snapshot is.
\<close>

theorem archived_configs_ran:
  assumes "runtime_ok rt h" and "sqlite_store run tables" and "head_reliable run" and "archive_ok (tables db)"
    and "whole_trace lib run cfg lcfg dump max_alloc (whole_start rt h now db d port) us logged written s"
    and "(sha, payload) \<in> set (tab_snapshots (tables (wh_db s)))"
    and "(sha, payload) \<notin> set (tab_snapshots (tables db))"
  shows "\<exists>before b c after doc printed u a p. us = before @ [b, c] @ after \<and>
    (sha, payload) \<notin> set (tab_snapshots (tables (wh_db b))) \<and> (sha, payload) \<in> set (tab_snapshots (tables (wh_db c))) \<and>
    u \<in> set (before @ [b]) \<and> rt_current (fst (plant_logic (sys_plant (wh_scan u)))) = Some a \<and>
    heap_cells (snd (plant_logic (sys_plant (wh_scan u)))) a = Some p \<and>
    from_json doc (rt_period (fst (plant_logic (sys_plant (wh_scan u))))) = Inr p \<and>
    jl_dump lib doc = Inr printed \<and> payload = c_str printed"
proof -
  have "(sha, payload) \<notin> set (tab_snapshots (tables (wh_db (whole_start rt h now db d port))))"
    using assms(7) by (simp add: whole_start_def)
  from snapshot_added [OF assms(5,2,3) whole_start_ok [where tables = tables, OF assms(1,4)] assms(6) this]
  obtain before b c after doc printed u where
    "us = before @ [b, c] @ after" "(sha, payload) \<notin> set (tab_snapshots (tables (wh_db b)))"
    "(sha, payload) \<in> set (tab_snapshots (tables (wh_db c)))" "u \<in> set (before @ [b])"
    "runs_document doc u" "jl_dump lib doc = Inr printed" "payload = c_str printed" unfolding snd_conv by blast
  then show ?thesis unfolding runs_document_def installed_def whole_simps by blast
qed

theorem archived_configs_ran_witness:
  "\<forall>lcfg dump max_alloc. \<exists>us logged written s u a.
     whole_trace demo_lib table_run demo_config lcfg dump max_alloc demo_start us logged written s \<and>
     tab_snapshots (wh_db s) \<noteq> [] \<and> u \<in> set us \<and> rt_current (fst (plant_logic (sys_plant (wh_scan u)))) = Some a"
proof (intro allI)
  fix lcfg dump max_alloc
  obtain s sha where "whole_run demo_lib table_run demo_config lcfg dump max_alloc demo_start s"
    and in_db: "(sha, ''{}'') \<in> set (tab_snapshots (wh_db s))" using demo_deploys by blast
  from whole_run_traced [OF this(1)] obtain us logged written where
    run: "whole_trace demo_lib table_run demo_config lcfg dump max_alloc demo_start us logged written s" by blast
  from in_db have sha: "(sha, ''{}'') \<in> set (tab_snapshots (id (wh_db s)))" by simp
  have ok: "archive_ok (id empty_tables)" and new: "(sha, ''{}'') \<notin> set (tab_snapshots (id empty_tables))"
    by (simp_all add: archive_ok_empty) (simp add: empty_tables_def)
  from archived_configs_ran [OF empty_runtime_ok sqlite_stores(1) head_reliable_table_run ok run sha new]
  obtain before b c after u a where "us = before @ [b, c] @ after" "u \<in> set (before @ [b])"
    "rt_current (fst (plant_logic (sys_plant (wh_scan u)))) = Some a" by blast
  moreover from this(1,2) have "u \<in> set us" by auto
  moreover have "tab_snapshots (wh_db s) \<noteq> []" using sha by auto
  ultimately show "\<exists>us logged written s u a.
     whole_trace demo_lib table_run demo_config lcfg dump max_alloc demo_start us logged written s \<and>
     tab_snapshots (wh_db s) \<noteq> [] \<and> u \<in> set us \<and> rt_current (fst (plant_logic (sys_plant (wh_scan u)))) = Some a"
    using run by blast
qed

end
