(* ===== verification/Deploy_Race.thy ===== *)
theory Deploy_Race
  imports Whole_System
begin

text \<open>
  Two deployments at the same time: the handler swaps the program in and archives it by separate calls,
  without a lock around them, so the archive's last deployment need not be the program that runs.
\<close>

section \<open>Two requests\<close>

text \<open>Request \<open>A\<close> carries the example document, request \<open>B\<close> one without rules; their printed texts are these names.\<close>

definition race_lib :: json_lib where
  "race_lib = plain_lib (\<lambda>body. Inr (if body = ''A'' then example_doc else demo_doc))
     (\<lambda>j. Inr (if j = example_doc then ''A'' else ''B''))"

definition race_request :: "string \<Rightarrow> request" where
  "race_request body = demo_request\<lparr>rq_body := body\<rparr>"

definition race_job :: "string \<Rightarrow> deploy_pc \<Rightarrow> web_job" where
  "race_job body pc = \<lparr>wj_times = demo_times, wj_request = race_request body, wj_pc = pc\<rparr>"

lemma race_lib_simps [simp]:
  "jl_parse race_lib ''A'' = Inr example_doc" "jl_parse race_lib ''B'' = Inr demo_doc"
  "jl_dump race_lib example_doc = Inr ''A''" "jl_dump race_lib demo_doc = Inr ''B''"
  "\<exists>body. jl_dump race_lib j = Inr body"
  by (simp_all add: race_lib_def plain_lib_def example_doc_def demo_doc_def)

lemma race_request_simps [simp]:
  "rq_body (race_request body) = body" "rq_param (race_request body) k = []"
  by (simp_all add: race_request_def demo_request_def)

section \<open>The two commits\<close>

text \<open>The ids of the two commits, made in the first millisecond of the epoch; they differ.\<close>

lemma dec_epoch: "dec_string 1970 = ''1970''" "dec_string (Suc 0) = ''1''" "dec_string 0 = ''0''"
  by (simp_all add: dec_string_def to_base.simps digit_char_def)

lemma padded_epoch:
  "padded 4 1970 = ''1970''" "padded 2 (Suc 0) = ''01''" "padded 2 0 = ''00''" "padded 3 0 = ''000''"
  unfolding padded_def dec_epoch by (simp_all add: numeral_2_eq_2)

lemma epoch_text: "format_timestamp 0 = ''1970-01-01T00:00:00.000Z''"
proof -
  have "civil_date 0 = (1970, Suc 0, Suc 0)"
    by (simp add: civil_date_def civil_year.simps civil_month.simps days_in_year_def days_in_month_def)
  then show ?thesis by (simp add: format_timestamp_def padded_epoch)
qed

abbreviation race_commit :: "string option \<Rightarrow> string \<Rightarrow> commit_info" where
  "race_commit parent printed \<equiv> made_commit parent printed 0 ''anonymous'' []"

abbreviation id_A :: string where
  "id_A \<equiv> ''b37874e952c4dfdd4e0e96cac15bada6a59c80070faf9536ae67719337a19762''"

abbreviation id_B :: string where
  "id_B \<equiv> ''bf548e12c4755b55bb7fec569072423b146bee17639aadd8350583f1649bd272''"

lemma hashed_A: "sha256_hex (''A'' @ [CHR 0x0A] @ ''anonymous'' @ [CHR 0x0A] @ [] @ [CHR 0x0A] @ ''1970-01-01T00:00:00.000Z'') = id_A"
  by code_simp

lemma hashed_B: "sha256_hex (''B'' @ [CHR 0x0A] @ ''anonymous'' @ [CHR 0x0A] @ [] @ [CHR 0x0A] @ ''1970-01-01T00:00:00.000Z'') = id_B"
  by code_simp

lemma race_ids [simp]:
  "ci_sha256 (race_commit parent ''A'') = id_A" "ci_sha256 (race_commit parent ''B'') = id_B"
  using hashed_A hashed_B by (simp_all add: made_commit_def epoch_text Let_def)

definition tables_B :: archive_tables where
  "tables_B = \<lparr>tab_commits = [stored (race_commit None ''B'')], tab_snapshots = [(id_B, ''B'')],
     tab_deployments = [(id_B, format_timestamp 0)]\<rparr>"

definition tables_BA :: archive_tables where
  "tables_BA = \<lparr>tab_commits = [stored (race_commit None ''B''), stored (race_commit (Some id_B) ''A'')],
     tab_snapshots = [(id_B, ''B''), (id_A, ''A'')],
     tab_deployments = [(id_B, format_timestamp 0), (id_A, format_timestamp 0)]\<rparr>"

lemma ids_clean: "c_str id_A = id_A" "c_str id_B = id_B" "c_str ''A'' = ''A''" "c_str ''B'' = ''B''"
  by (simp_all add: c_str_def)

lemma commit_B:
  "commit_config table_run (jl_dump race_lib) 0 ''anonymous'' [] demo_doc empty_tables =
     (Inr (race_commit None ''B''), tables_B\<lparr>tab_deployments := []\<rparr>)"
  by (simp add: commit_config_eq head_commit_def sql_insert_def table_run_def sql_distinct
      sql_distinct [symmetric] newest_def empty_tables_def tables_B_def Let_def ids_clean)

lemma record_B:
  "record_deployment table_run 0 id_B (tables_B\<lparr>tab_deployments := []\<rparr>) = (Inr (), tables_B)"
  by (simp add: record_deployment_def sql_insert_def table_run_def sql_distinct
      sql_distinct [symmetric] tables_B_def Let_def ids_clean bind_text_def)

lemma commit_A:
  "commit_config table_run (jl_dump race_lib) 0 ''anonymous'' [] example_doc tables_B =
     (Inr (race_commit (Some id_B) ''A''), tables_BA\<lparr>tab_deployments := [(id_B, format_timestamp 0)]\<rparr>)"
  by (simp add: commit_config_eq head_commit_def sql_insert_def table_run_def sql_distinct
      sql_distinct [symmetric] newest_def tables_B_def tables_BA_def Let_def ids_clean stored_def column_def)

lemma record_A:
  "record_deployment table_run 0 id_A (tables_BA\<lparr>tab_deployments := [(id_B, format_timestamp 0)]\<rparr>) =
     (Inr (), tables_BA)"
  by (simp add: record_deployment_def sql_insert_def table_run_def sql_distinct
      sql_distinct [symmetric] tables_BA_def Let_def ids_clean bind_text_def)

section \<open>The run\<close>

text \<open>The states of the two jobs and of what they see, along the run.\<close>

definition race_at :: "deploy_pc \<Rightarrow> deploy_pc \<Rightarrow> 'db web_world \<Rightarrow> 'db whole \<Rightarrow> bool" where
  "race_at pa pb w s \<longleftrightarrow> wh_jobs s = [0 \<mapsto> race_job ''A'' pa, 1 \<mapsto> race_job ''B'' pb] \<and> web_view s = w"

lemma race_moves_A:
  assumes "\<exists>s. whole_run race_lib run cfg lcfg dump max_alloc s0 s \<and> race_at pa pb w s"
    and "deploy_step race_lib run cfg demo_times (race_request ''A'') pa w = (pa', w')"
  shows "\<exists>s. whole_run race_lib run cfg lcfg dump max_alloc s0 s \<and> race_at pa' pb w' s"
proof -
  from assms(1) obtain s where run: "whole_run race_lib run cfg lcfg dump max_alloc s0 s"
    and s: "wh_jobs s = [0 \<mapsto> race_job ''A'' pa, 1 \<mapsto> race_job ''B'' pb]" "web_view s = w"
    by (auto simp: race_at_def)
  have "wh_jobs s 0 = Some (race_job ''A'' pa)" using s by simp
  from run_deploy_step [OF run this] assms(2) s(2) show ?thesis
    by (fastforce simp: race_at_def race_job_def s(1) fun_upd_twist)
qed

lemma race_moves_B:
  assumes "\<exists>s. whole_run race_lib run cfg lcfg dump max_alloc s0 s \<and> race_at pa pb w s"
    and "deploy_step race_lib run cfg demo_times (race_request ''B'') pb w = (pb', w')"
  shows "\<exists>s. whole_run race_lib run cfg lcfg dump max_alloc s0 s \<and> race_at pa pb' w' s"
proof -
  from assms(1) obtain s where run: "whole_run race_lib run cfg lcfg dump max_alloc s0 s"
    and s: "wh_jobs s = [0 \<mapsto> race_job ''A'' pa, 1 \<mapsto> race_job ''B'' pb]" "web_view s = w"
    by (auto simp: race_at_def)
  have "wh_jobs s 1 = Some (race_job ''B'' pb)" using s by simp
  from run_deploy_step [OF run this] assms(2) s(2) show ?thesis
    by (fastforce simp: race_at_def race_job_def s(1))
qed

lemma race_begins:
  "\<exists>s. whole_run race_lib table_run demo_config lcfg dump max_alloc
       (whole_start (LogicRuntime 20 None) empty_heap now empty_tables d port) s \<and>
     race_at DP_start DP_start (demo_runtime empty_tables) s"
proof -
  let ?s = "whole_start (LogicRuntime 20 None) empty_heap now empty_tables d port"
  have view: "web_view ?s = demo_runtime empty_tables"
    by (simp add: web_view_def whole_start_def main_defs demo_runtime_def start_logger_def RingBufferLogger_def)
  have none: "wh_jobs ?s = Map.empty" by (simp add: whole_start_def)
  from run_deploy_arrives [OF whole_here, of ?s 0 race_lib table_run demo_config lcfg dump max_alloc demo_times "race_request ''A''"]
  obtain s1 where s1: "whole_run race_lib table_run demo_config lcfg dump max_alloc ?s s1"
    "wh_jobs s1 = [0 \<mapsto> race_job ''A'' DP_start]" "web_view s1 = demo_runtime empty_tables"
    by (auto simp: none view race_job_def)
  from run_deploy_arrives [OF s1(1), of 1 demo_times "race_request ''B''"] s1(2,3) show ?thesis
    by (auto simp: race_at_def race_job_def)
qed

definition both_run :: "archive_tables \<Rightarrow> archive_tables web_world" where
  "both_run t = \<lparr>ww_runtime = (LogicRuntime 20 None)\<lparr>rt_current := Some 1\<rparr>,
     ww_heap = \<lparr>heap_cells = [0 \<mapsto> example_program, 1 \<mapsto> []], heap_next = 2\<rparr>, ww_db = t, ww_log = new_log_ring\<rparr>"

lemma both_run_db [simp]: "ww_db (both_run t) = t" "(both_run t)\<lparr>ww_db := t'\<rparr> = both_run t'"
  by (simp_all add: both_run_def)

lemma race_author [simp]: "author_of (race_request body) = ''anonymous''"
  by (simp add: author_of_def)

lemma demo_times_simps [simp]: "at_commit demo_times = 0" "at_deployment demo_times = 0"
  by (simp_all add: demo_times_def)

lemma race_reply:
  "\<exists>r. deploy_step race_lib run cfg tm req (DP_reply rules commit) w = (DP_done (Responded r), w) \<and> rs_status r = 200"
  by (simp add: reply_deployed_def json_response_def race_lib_def plain_lib_def)

lemma race_swaps:
  "\<exists>s. whole_run race_lib table_run demo_config lcfg dump max_alloc
       (whole_start (LogicRuntime 20 None) empty_heap now empty_tables d port) s \<and>
     race_at (DP_commit example_doc 3) (DP_commit demo_doc 0) (both_run empty_tables) s"
proof -
  have period: "rt_period (LogicRuntime 20 None) = 20" by (simp add: LogicRuntime_def)
  have "deploy_step race_lib table_run demo_config demo_times (race_request ''A'') DP_start (demo_runtime empty_tables) =
      (DP_commit example_doc 3, (demo_runtime empty_tables)\<lparr>ww_runtime := (LogicRuntime 20 None)\<lparr>rt_current := Some 0\<rparr>,
        ww_heap := \<lparr>heap_cells = [0 \<mapsto> example_program], heap_next = 1\<rparr>\<rparr>)"
    using from_json_example
    by (simp add: demo_runtime_def reload_from_json_cases empty_heap_def pointed_program_def demo_config_def
        rule_count_def example_program_def period Let_def)
  from race_moves_A [OF race_begins this]
  have a: "\<exists>s. whole_run race_lib table_run demo_config lcfg dump max_alloc
       (whole_start (LogicRuntime 20 None) empty_heap now empty_tables d port) s \<and>
     race_at (DP_commit example_doc 3) DP_start ((demo_runtime empty_tables)\<lparr>ww_runtime := (LogicRuntime 20 None)\<lparr>rt_current := Some 0\<rparr>,
        ww_heap := \<lparr>heap_cells = [0 \<mapsto> example_program], heap_next = 1\<rparr>\<rparr>) s" .
  show ?thesis
    by (rule race_moves_B [OF a])
      (simp add: demo_runtime_def reload_from_json_cases pointed_program_def demo_config_def demo_parsed
        rule_count_def both_run_def Let_def)
qed

lemma race_archives:
  "\<exists>s. whole_run race_lib table_run demo_config lcfg dump max_alloc
       (whole_start (LogicRuntime 20 None) empty_heap now empty_tables d port) s \<and>
     race_at (DP_log (race_commit (Some id_B) ''A'') 3) (DP_log (race_commit None ''B'') 0) (both_run tables_BA) s"
proof -
  note b1 = race_moves_B [OF race_swaps,
      where pb' = "DP_record (race_commit None ''B'') 0" and w' = "both_run (tables_B\<lparr>tab_deployments := []\<rparr>)"]
  note b2 = race_moves_B [OF b1, where pb' = "DP_log (race_commit None ''B'') 0" and w' = "both_run tables_B"]
  note a1 = race_moves_A [OF b2, where pa' = "DP_record (race_commit (Some id_B) ''A'') 3"
      and w' = "both_run (tables_BA\<lparr>tab_deployments := [(id_B, format_timestamp 0)]\<rparr>)"]
  show ?thesis
    by (rule race_moves_A [OF a1]) (simp_all add: commit_B record_B commit_A record_A)
qed

section \<open>Properties\<close>

text \<open>
  C14. Deployments race: of two deployments that are both answered with 200, one can be the last on record in
  the archive while the program of the other runs, since nothing keeps the swap and the archiving of one
  request together. Here the last deployment's snapshot is the text of the example document, whose
  program has three rules, and the running program is the empty one.
\<close>

theorem concurrent_deploys_diverge:
  "\<exists>s jA jB rA rB a. whole_run race_lib table_run demo_config lcfg dump max_alloc
       (whole_start (LogicRuntime 20 None) empty_heap now empty_tables d port) s \<and>
     wh_jobs s 0 = Some jA \<and> wj_pc jA = DP_done (Responded rA) \<and> rs_status rA = 200 \<and>
     wh_jobs s 1 = Some jB \<and> wj_pc jB = DP_done (Responded rB) \<and> rs_status rB = 200 \<and>
     (fst (last (tab_deployments (wh_db s))), ''A'') \<in> set (tab_snapshots (wh_db s)) \<and>
     jl_dump race_lib example_doc = Inr ''A'' \<and> from_json example_doc 20 = Inr example_program \<and>
     rt_current (ww_runtime (web_view s)) = Some a \<and> heap_cells (ww_heap (web_view s)) a = Some [] \<and>
     example_program \<noteq> []"
proof -
  let ?cA = "race_commit (Some id_B) ''A''" and ?cB = "race_commit None ''B''"
  let ?logs = "\<lambda>c rules w. write_log demo_config (at_log demo_times) Info (deploy_message c ''anonymous'' rules) w"
  let ?w1 = "?logs ?cA 3 (both_run tables_BA)"
  let ?w2 = "?logs ?cB 0 ?w1"
  obtain rA where rA: "deploy_step race_lib table_run demo_config demo_times (race_request ''A'') (DP_reply 3 (Some ?cA)) ?w1 =
      (DP_done (Responded rA), ?w1)" "rs_status rA = 200" using race_reply by blast
  obtain rB where rB: "deploy_step race_lib table_run demo_config demo_times (race_request ''B'') (DP_reply 0 (Some ?cB)) ?w2 =
      (DP_done (Responded rB), ?w2)" "rs_status rB = 200" using race_reply by blast
  note a1 = race_moves_A [OF race_archives, where pa' = "DP_reply 3 (Some ?cA)" and w' = ?w1]
  note a2 = race_moves_A [OF a1 rA(1)]
  note b1 = race_moves_B [OF a2, where pb' = "DP_reply 0 (Some ?cB)" and w' = ?w2]
  note b2 = race_moves_B [OF b1 rB(1)]
  obtain s where run: "whole_run race_lib table_run demo_config lcfg dump max_alloc
      (whole_start (LogicRuntime 20 None) empty_heap now empty_tables d port) s"
    and s: "race_at (DP_done (Responded rA)) (DP_done (Responded rB)) ?w2 s"
    using b2 [of lcfg dump max_alloc now d port] by auto
  have jobs: "wh_jobs s 0 = Some (race_job ''A'' (DP_done (Responded rA)))"
    "wh_jobs s 1 = Some (race_job ''B'' (DP_done (Responded rB)))"
    using s by (simp_all add: race_at_def)
  have done_pc: "wj_pc (race_job body pc) = pc" for body pc by (simp add: race_job_def)
  have w: "ww_db (web_view s) = tables_BA" "ww_runtime (web_view s) = ww_runtime (both_run tables_BA)"
    "ww_heap (web_view s) = ww_heap (both_run tables_BA)"
    using s by (simp_all add: race_at_def del: whole_simps)
  have recorded: "(fst (last (tab_deployments (wh_db s))), ''A'') \<in> set (tab_snapshots (wh_db s))"
    using w(1) by (simp add: tables_BA_def)
  have running: "rt_current (ww_runtime (web_view s)) = Some 1" "heap_cells (ww_heap (web_view s)) 1 = Some []"
    unfolding w(2,3) by (simp_all add: both_run_def)
  have "example_program \<noteq> []" by (simp add: example_program_def)
  with run jobs done_pc rA(2) rB(2) recorded running from_json_example race_lib_simps(3) show ?thesis by metis
qed

end
