(* ===== verification/End_To_End.thy ===== *)
theory End_To_End
  imports Scan_System Web_System
begin

text \<open>
  From the browser to the outputs: the input request of the web server, the simulated hardware, the engine's
  cycle and the logic, put together as \<open>main.cpp\<close> wires them.
\<close>

lemma bit_view_set_input:
  assumes "valid_mock d" and "unat n < 512" and "k \<le> 7"
  shows "bit_view (put_area m Input (mock_inputs (set_mock_input_bit d n k v))) =
    (bit_view (put_area m Input (mock_inputs d)))((Input, n, k) := v)"
proof (rule ext)
  fix b :: bit_addr
  obtain a off i where b: "b = (a, off, i)" by (cases b)
  have inputs: "mock_inputs (set_mock_input_bit d n k v) =
      (mock_inputs d)[unat n := assign_bit (mock_inputs d ! unat n) k v]"
    using assms by (auto simp: set_mock_input_bit_def valid_mock_def assign_bit_def Let_def)
  show "bit_view (put_area m Input (mock_inputs (set_mock_input_bit d n k v))) b =
      ((bit_view (put_area m Input (mock_inputs d)))((Input, n, k) := v)) b"
    using assms by (cases a) (auto simp: b inputs valid_mock_def nth_list_update byte_bits unat_inject)
qed

text \<open>
  C5. A posted input, end to end: a well-formed input request is answered with 200, and in the cycle after it
  every bit of the map becomes that of the reference scan of the running program on the map with the
  simulated inputs and the posted bit, the timers advance by that scan and the driver is given these outputs. The bit
  number is narrowed to eight bits before any range check: the request for bit 256 sets bit 0.
\<close>

theorem posted_input_drives_outputs:
  assumes "json_conversions lib" and "jl_parse lib (rq_body req) = Inr (J_object kvs)"
    and "map_of kvs ''byte'' = Some (J_uint n)" and "map_of kvs ''bit'' = Some (J_uint k)"
    and "map_of kvs ''value'' = Some (J_bool v)"
    and "unat n < 512" and "unat k mod 256 \<le> 7"
    and "plant_ok w" and "plant_logic w = (rt, h)" and "rt_current rt = Some a" and "heap_cells h a = Some p"
    and "env = (bit_view (put_area (plant_map w) Input (mock_inputs (plant_drivers w j))))
        ((Input, n, of_nat (unat k mod 256)) := v)"
  shows "\<exists>r d' w'. handle_input lib (\<lambda>n k b d. set_mock_input_bit d n k b) req (plant_drivers w j) = (Responded r, d') \<and>
    rs_status r = 200 \<and>
    run_cycle mock_ops [Some j] (Some runtime_callback) c (w\<lparr>plant_drivers := (plant_drivers w)(j := d')\<rparr>) = Inr w' \<and>
    (\<forall>b. bit_in_range b \<longrightarrow> bit_view (plant_map w') b = scan_env p env b) \<and>
    previous_outputs (plant_drivers w' j) = get_area (plant_map w') Output \<and>
    plant_logic w' = (rt, put_program h a (scan_tick p env))"
proof -
  let ?k = "of_nat (unat k mod 256) :: u8"
  let ?d = "set_mock_input_bit (plant_drivers w j) n ?k v"
  let ?w = "w\<lparr>plant_drivers := (plant_drivers w)(j := ?d)\<rparr>"
  have k: "?k \<le> 7" using assms(7) by (simp add: word_le_nat_alt unat_of_nat_u8)
  have d: "valid_mock (plant_drivers w j)" using assms(8) by (simp add: plant_ok_def)
  have w: "plant_ok ?w" using assms(8) d by (auto simp: plant_ok_def intro: valid_intros)
  have "(ucast k :: u8) = ?k"
    by (simp add: word_unat_eq_iff unsigned_ucast_eq unat_of_nat take_bit_eq_mod)
  then have "input_request lib (rq_body req) = Inr (n, ?k, v)"
    using json_conversions.input_request_fields [OF assms(1-5)] by simp
  then obtain r where r: "handle_input lib (\<lambda>n k b d. set_mock_input_bit d n k b) req (plant_drivers w j) = (Responded r, ?d)"
    "rs_status r = 200"
    by (simp add: handle_input_def json_response_def)
  have env: "env = bit_view (put_area (plant_map ?w) Input (mock_inputs (plant_drivers ?w j)))"
    using bit_view_set_input [OF d assms(6) k] by (simp add: assms(12))
  from run_cycle_plant [OF w _ assms(10,11) refl, of j c] assms(9) obtain w' where
    "run_cycle mock_ops [Some j] (Some runtime_callback) c ?w = Inr w'"
    "\<forall>b. bit_in_range b \<longrightarrow> bit_view (plant_map w') b = scan_env p env b"
    "previous_outputs (plant_drivers w' j) = get_area (plant_map w') Output"
    "plant_logic w' = (rt, put_program h a (scan_tick p env))"
    by (auto simp: env)
  with r show ?thesis by blast
qed

text \<open>
  On the document \<open>{bit: 256, byte: 3, value: true}\<close> and the example program: the bit that is set is \<open>%I3.0\<close>.
\<close>

theorem posted_input_drives_outputs_witness:
  "\<exists>r d' w'. handle_input
      (plain_lib (\<lambda>_. Inr (J_object [(''bit'', J_uint 256), (''byte'', J_uint 3), (''value'', J_bool True)])) (\<lambda>_. Inr []))
      (\<lambda>n k b d. set_mock_input_bit d n k b) demo_request
      (plant_drivers (main_plant (LogicRuntime 20 (Some 0)) demo_heap) 0) = (Responded r, d') \<and> rs_status r = 200 \<and>
    run_cycle mock_ops [Some 0] (Some runtime_callback) 0
      ((main_plant (LogicRuntime 20 (Some 0)) demo_heap)\<lparr>plant_drivers :=
        (plant_drivers (main_plant (LogicRuntime 20 (Some 0)) demo_heap))(0 := d')\<rparr>) = Inr w' \<and>
    previous_outputs (plant_drivers w' 0) = get_area (plant_map w') Output"
proof -
  let ?kvs = "[(''bit'', J_uint 256), (''byte'', J_uint 3), (''value'', J_bool True)]"
  let ?lib = "plain_lib (\<lambda>_. Inr (J_object ?kvs)) (\<lambda>_. Inr [])"
  let ?w = "main_plant (LogicRuntime 20 (Some 0)) demo_heap"
  have "jl_parse ?lib (rq_body demo_request) = Inr (J_object ?kvs)" by (simp add: plain_lib_def)
  from posted_input_drives_outputs [OF plain_json_conversions this, of 3 256 True ?w "LogicRuntime 20 (Some 0)" demo_heap 0
      example_program, OF _ _ _ _ _ _ _ _ _ refl, of 0 0]
  show ?thesis
    using demo_runtime_ok
    by (simp add: plant_ok_def main_plant_def valid_MockDriver valid_new_memory_map LogicRuntime_def demo_heap_def) blast
qed

end
