(* ===== verification/Spec2Isabelle.thy ===== *)
theory Spec2Isabelle
  imports Main_Program Memory_Locking Log_Locking Mock_Race Secure_Hash Deploy_Race End_To_End
begin

text \<open>
  A verification library for OpenASLC, a soft PLC written in C++: a process image, drivers, a cyclic scan
  engine that runs logic loaded from JSON documents and reloaded while it runs, a logger, an archive of
  deployed programs, a web server to deploy through and a WebSocket server for telemetry. The sources are
  those under \<open>src/src\<close> and \<open>src/include/openaslc\<close>.

  \<^bold>\<open>How the parts work together.\<close> \<open>AslcEngine\<close> has a worker thread that once per period lets every driver
  read its inputs into the \<open>MemoryMap\<close>, calls \<open>LogicRuntime::execute_cycle\<close>, and lets every driver write the
  outputs. The runtime holds a shared pointer to the current \<open>LogicProgram\<close>, which the web server's deploy
  handler swaps; a deployed document also goes into the \<open>ConfigArchive\<close> (SQLite) and into the log.
  \<open>TelemetryServer\<close> reads the memory map from its own threads. \<open>main.cpp\<close> wires all this up.

  \<^bold>\<open>The theories, in the order they build on each other.\<close>

  \<^item> \<open>Aslc_Prelude\<close>: machine integers as words, C++ exceptions and undefined behaviour as the left side of a
    sum (\<open>failure\<close>, \<open>res_bind\<close>), bit operations on \<open>uint8_t\<close>, pointer accesses, numerals.
  \<^item> \<open>Process_Image\<close> (a contract of bit stores, as a locale) and \<open>Memory_Map\<close> (\<open>memory_map.cpp\<close>): the three
    areas, every accessor with its bounds check on wrapping \<open>size_t\<close>; the map meets the contract.
  \<^item> \<open>Io_Driver\<close> (\<open>io_driver.hpp\<close>: the virtual functions as a record, the engine's expectations as a locale) and
    \<open>Mock_Driver\<close> (\<open>mock_driver.cpp\<close>), which meets them.
  \<^item> \<open>Logic_Nodes\<close>, \<open>Logic_Scan\<close> (\<open>LogicNode\<close>, \<open>Rule\<close>, \<open>LogicProgram\<close>): evaluation with timers in the nodes; an
    abstract scan on bits, the refinement to it, the outputs of timers over time.
  \<^item> \<open>Json_Value\<close>, \<open>Logic_Parser\<close>, \<open>Logic_Documents\<close> (the parser of \<open>logic_interpreter.cpp\<close>): every error with its
    text; which documents are accepted, and a printer the parser inverts.
  \<^item> \<open>Logic_Runtime\<close> (\<open>LogicRuntime\<close>): programs as objects of a heap, hot reload, and the interleaving of scans
    and reloads as a step relation.
  \<^item> \<open>Aslc_Engine\<close>, \<open>Engine_Cycles\<close>, \<open>Scan_System\<close> (\<open>aslc_engine.cpp\<close>): the worker as a step function with a program
    counter, its owner's \<open>start\<close> and \<open>stop\<close>, the composition of whole cycles, and the engine with driver and
    runtime as \<open>main\<close> builds it.
  \<^item> \<open>Drop_Oldest\<close> (a bounded queue that forgets its oldest entries, as a locale), \<open>Ring_Buffer_Logger\<close>, \<open>Log_Files\<close>,
    \<open>Log_System\<close> (\<open>ring_buffer_logger.cpp\<close>): ring, time stamps, rotation over a map of files, flush thread.
  \<^item> \<open>Locked_Object\<close> (an object behind a mutex or reader-writer lock, its methods cut into single accesses, as a
    locale), with \<open>Memory_Locking\<close> and \<open>Log_Locking\<close> (the lock guards of \<open>memory_map.cpp\<close> and of the log ring: the
    calls are atomic, as the other theories take them to be) and \<open>Mock_Race\<close> (\<open>mock_driver.cpp\<close> without a lock).
  \<^item> \<open>Byte_Codec\<close>, \<open>Digests\<close>: big-endian bytes; SHA-256 of \<open>config_archive.cpp\<close> and the padding both digests share.
    \<open>Sha_Constants\<close>, \<open>Secure_Hash\<close>: FIPS 180-4 on strings of bits, with its constants from roots of primes, which
    both hand-written digests implement.
  \<^item> \<open>Ws_Handshake\<close>, \<open>Ws_Frames\<close>, \<open>Telemetry_Server\<close>, \<open>Telemetry_Calls\<close>, \<open>Telemetry_System\<close>
    (\<open>telemetry_server.cpp\<close>): SHA-1, base64, the upgrade request; frames over a socket that delivers chunks as
    it likes; the accept thread, the client threads and \<open>stop\<close> as a step system in which every \<open>recv\<close> and \<open>send\<close>
    is a step and waits while the peer does nothing; the steps of a greeting and of a poll do what the
    calls in one piece do, so that a client thread serves the frames of RFC 6455.
  \<^item> \<open>Config_Archive\<close>, \<open>Archive_Store\<close> (\<open>config_archive.cpp\<close>): the operations over a function that runs SQL text;
    what SQLite promises for the statements, as the locale \<open>sqlite_store\<close>, with plain tables as an instance.
  \<^item> \<open>Web_Server\<close>, \<open>Web_System\<close> (\<open>web_server.cpp\<close>): the handlers on every branch, and their composition with runtime,
    archive, log and simulated hardware; \<open>End_To_End\<close>: from a posted input to the outputs.
  \<^item> \<open>Deploy_Steps\<close>, \<open>Whole_System\<close>, \<open>Deploy_Race\<close>: the deployment handler cut at its calls into the other parts;
    the running program as one step relation over scan thread, web threads, logger and telemetry threads, with
    its runs as lists of states, of records given to the logger and of batches written;
    two deployments at the same time.
  \<^item> \<open>Main_Program\<close> (\<open>main.cpp\<close>): the actions of \<open>main\<close> on every way through it.

  \<^bold>\<open>What the lemmas show.\<close> The scan of a well-formed program is the abstract one, bit for bit, and never
  fails; a scan is atomic under reloads; cycles are complete, in order, and end after \<open>stop\<close>; deadlines do
  not drift. Parsing accepts exactly the documents that describe a program,
  and a rejected document changes nothing. What a
  deployment runs is what it archives, and the archive only gets what ran; the archive stays a linear
  history under every failure but one. No log record is lost uncounted. Descriptors of the telemetry server
  are never leaked, its messages are numbered without gaps, frames decode as RFC 6455 says, and \<open>stop\<close> comes
  to an end unless a failure or a client's socket keeps it. The digests are those of the standard. The locks
  make the calls of memory map and log ring atomic, without deadlock. With all threads interleaved every part keeps its invariant. Where the code
  does not do what it means to, the theorem states what it does: wrapping bounds checks, the race on
  \<open>listen_socket_\<close>, lost input updates, deployments that leave another program running than the one on record,
  trusted frame lengths, short reads of a header, long pongs, clients that keep \<open>stop\<close> waiting
  for ever, a second root in the archive, a narrowed bit number.

  \<^bold>\<open>Conventions.\<close> \<open>size_t\<close>, \<open>uint8_t\<close>, \<open>uint32_t\<close>, \<open>uint64_t\<close> are words and wrap; strings are character lists. Outside
  the locking theories a call under a mutex is one step. Loops are structural or have a measure: none uses
  fuel, except that \<open>deploy_steps\<close> counts the steps of a handler, and five are shown to be enough. The bounds
  in the statements are those of the machine (payloads below 2 to the 63, since sizes are 64-bit words;
  hashed messages below 2 to the 61 bytes, since their bits are counted in 64).

  \<^bold>\<open>Parameters.\<close> What is not under \<open>src\<close> is an argument: the JSON library's text functions and conversions
  (\<open>json_lib\<close>, with the conversions relied on in the locale \<open>json_conversions\<close>), SQLite (\<open>'db sql\<close>), the HTTP
  library's requests, the operating system's sockets, files and clock.

  \<^bold>\<open>Not modelled.\<close> \<open>setup_realtime_priority\<close> (two system calls whose failure it prints); the destructors, which
  call \<open>stop\<close>, and the getters of ports and flags; torn or reordered accesses to data without a lock (an
  access is atomic here; the missing locks are findings, and \<open>Mock_Race\<close> shows what one of them costs); the
  time a call takes (that it may wait for ever is modelled for the sockets of the telemetry server, the
  only place where another program decides); the creation of directories; receiving or sending more than 2 to the 31 bytes
  in one call; the HTTP library's routing and static files; the browser page; the tests and build files.
\<close>

end
